(* ===== verification/Base.thy ===== *)
theory Base
  imports Main "HOL-Library.Word" "HOL-Library.AList" "HOL-Library.Char_ord"
    "HOL-Library.List_Lexorder" "HOL-Library.Sublist"
begin

text \<open>
  The prelude of the development: bytes and machine integers, Rust strings as UTF-8 byte
  strings, decimal and hexadecimal formatting, hash maps as association lists and ordered maps
  as key-sorted association lists, and the generic lemmas the component theories share.

  A Rust \<open>u64\<close>, \<open>u32\<close> or \<open>usize\<close> (64 bits on the supported targets) that the code adds,
  subtracts or compares is a \<open>nat\<close>; wrap-around and saturation are written out with the
  operators below wherever the source can reach them. Byte buffers and bit vectors are machine
  words. \<open>saturating_sub\<close> is subtraction on \<open>nat\<close>.
\<close>

named_theorems codec_simps \<open>fixed-width integer encodings\<close>
named_theorems map_simps \<open>lookups after updates of association lists\<close>
named_theorems step_defs \<open>definitions unfolded when a step of a component is evaluated\<close>

section \<open>Machine integers\<close>

type_synonym u8 = "8 word"
type_synonym bytes = "u8 list"

definition U64_MAX :: nat where
  "U64_MAX = 2 ^ 64 - 1"

definition U32_MAX :: nat where
  "U32_MAX = 2 ^ 32 - 1"

definition u64_add :: "nat \<Rightarrow> nat \<Rightarrow> nat" where
  "u64_add a b = (a + b) mod 2 ^ 64"

definition u64_mul :: "nat \<Rightarrow> nat \<Rightarrow> nat" where
  "u64_mul a b = (a * b) mod 2 ^ 64"

definition sat_add :: "nat \<Rightarrow> nat \<Rightarrow> nat" where
  "sat_add a b = min (a + b) U64_MAX"

definition sat_mul :: "nat \<Rightarrow> nat \<Rightarrow> nat" where
  "sat_mul a b = min (a * b) U64_MAX"

definition sat_add32 :: "nat \<Rightarrow> nat \<Rightarrow> nat" where
  "sat_add32 a b = min (a + b) U32_MAX"

definition div_ceil :: "nat \<Rightarrow> nat \<Rightarrow> nat" where
  "div_ceil a b = a div b + (if a mod b = 0 then 0 else 1)"

text \<open>\<open>to_le_bytes\<close>, \<open>from_le_bytes\<close> and their big-endian twins, at any width.\<close>

fun le_bytes :: "nat \<Rightarrow> nat \<Rightarrow> bytes" where
  "le_bytes 0 n = []"
| "le_bytes (Suc w) n = word_of_nat n # le_bytes w (n div 256)"

fun from_le_bytes :: "bytes \<Rightarrow> nat" where
  "from_le_bytes [] = 0"
| "from_le_bytes (b # bs) = unat b + 256 * from_le_bytes bs"

definition be_bytes :: "nat \<Rightarrow> nat \<Rightarrow> bytes" where
  "be_bytes w n = rev (le_bytes w n)"

definition from_be_bytes :: "bytes \<Rightarrow> nat" where
  "from_be_bytes bs = from_le_bytes (rev bs)"

section \<open>Strings\<close>

text \<open>
  A Rust string is its UTF-8 byte sequence; a \<open>char\<close> of the model is one byte of it, so that
  literals can be written as usual and \<open>length\<close> is Rust's \<open>len\<close>.
\<close>

definition byte_of :: "char \<Rightarrow> u8" where
  "byte_of c = word_of_nat (of_char c)"

definition char_of_byte :: "u8 \<Rightarrow> char" where
  "char_of_byte b = char_of (unat b)"

definition as_bytes :: "string \<Rightarrow> bytes" where
  "as_bytes s = map byte_of s"

definition str_of_bytes :: "bytes \<Rightarrow> string" where
  "str_of_bytes bs = map char_of_byte bs"

definition in_range :: "nat \<Rightarrow> nat \<Rightarrow> nat \<Rightarrow> bool" where
  "in_range lo hi b \<longleftrightarrow> lo \<le> b \<and> b \<le> hi"

text \<open>Well-formed UTF-8, as \<open>String::from_utf8\<close> checks it (Unicode Table 3-7).\<close>

fun utf8_valid :: "nat list \<Rightarrow> bool" where
  "utf8_valid [] = True"
| "utf8_valid (b0 # rest) =
     (if b0 < 0x80 then utf8_valid rest
      else if in_range 0xC2 0xDF b0 then
        (case rest of b1 # r \<Rightarrow> in_range 0x80 0xBF b1 \<and> utf8_valid r | _ \<Rightarrow> False)
      else if in_range 0xE0 0xEF b0 then
        (case rest of b1 # b2 # r \<Rightarrow>
           in_range (if b0 = 0xE0 then 0xA0 else 0x80) (if b0 = 0xED then 0x9F else 0xBF) b1
           \<and> in_range 0x80 0xBF b2 \<and> utf8_valid r | _ \<Rightarrow> False)
      else if in_range 0xF0 0xF4 b0 then
        (case rest of b1 # b2 # b3 # r \<Rightarrow>
           in_range (if b0 = 0xF0 then 0x90 else 0x80) (if b0 = 0xF4 then 0x8F else 0xBF) b1
           \<and> in_range 0x80 0xBF b2 \<and> in_range 0x80 0xBF b3 \<and> utf8_valid r | _ \<Rightarrow> False)
      else False)"

definition is_utf8 :: "string \<Rightarrow> bool" where
  "is_utf8 s = utf8_valid (map of_char s)"

definition from_utf8 :: "bytes \<Rightarrow> string option" where
  "from_utf8 bs = (let s = str_of_bytes bs in if is_utf8 s then Some s else None)"

definition is_ascii_alphanumeric :: "char \<Rightarrow> bool" where
  "is_ascii_alphanumeric c \<longleftrightarrow>
     in_range 48 57 (of_char c) \<or> in_range 65 90 (of_char c) \<or> in_range 97 122 (of_char c)"

definition hex_digits :: string where
  "hex_digits = ''0123456789abcdef''"

fun radix_digits :: "nat \<Rightarrow> nat \<Rightarrow> nat list" where
  "radix_digits r n = (if r < 2 \<or> n < r then [n] else radix_digits r (n div r) @ [n mod r])"

declare radix_digits.simps [simp del]

text \<open>Rust's \<open>{}\<close> and \<open>{:x}\<close> formatting of an unsigned integer.\<close>

definition show_dec :: "nat \<Rightarrow> string" where
  "show_dec n = map (\<lambda>d. hex_digits ! d) (radix_digits 10 n)"

definition show_hex :: "nat \<Rightarrow> string" where
  "show_hex n = map (\<lambda>d. hex_digits ! d) (radix_digits 16 n)"

definition starts_with :: "string \<Rightarrow> string \<Rightarrow> bool" where
  "starts_with s p \<longleftrightarrow> prefix p s"

definition trim_start_matches :: "char \<Rightarrow> string \<Rightarrow> string" where
  "trim_start_matches c s = dropWhile (\<lambda>x. x = c) s"

definition trim_end_matches :: "char \<Rightarrow> string \<Rightarrow> string" where
  "trim_end_matches c s = rev (dropWhile (\<lambda>x. x = c) (rev s))"

definition trim_matches :: "char \<Rightarrow> string \<Rightarrow> string" where
  "trim_matches c s = trim_end_matches c (trim_start_matches c s)"

definition strip_prefix :: "string \<Rightarrow> string \<Rightarrow> string option" where
  "strip_prefix p s = (if prefix p s then Some (drop (length p) s) else None)"

section \<open>Hash maps and ordered maps\<close>

text \<open>
  A \<open>HashMap\<close> is an association list without repeated keys; its list order stands for the
  unspecified iteration order. A \<open>BTreeMap\<close> is an association list sorted by key.
\<close>

type_synonym ('k, 'v) hmap = "('k \<times> 'v) list"

fun bt_insert :: "'k::linorder \<Rightarrow> 'v \<Rightarrow> ('k \<times> 'v) list \<Rightarrow> ('k \<times> 'v) list" where
  "bt_insert k v [] = [(k, v)]"
| "bt_insert k v ((k', v') # m) =
     (if k < k' then (k, v) # (k', v') # m
      else if k = k' then (k, v) # m
      else (k', v') # bt_insert k v m)"

definition bt_remove :: "'k \<Rightarrow> ('k \<times> 'v) list \<Rightarrow> ('k \<times> 'v) list" where
  "bt_remove k m = filter (\<lambda>p. fst p \<noteq> k) m"

definition bt_sorted :: "('k::linorder \<times> 'v) list \<Rightarrow> bool" where
  "bt_sorted m \<longleftrightarrow> sorted_wrt (<) (map fst m)"

section \<open>Lemmas: machine integers\<close>

lemma U64_MAX_less [simp]: "U64_MAX < 2 ^ 64"
  by (simp add: U64_MAX_def)

lemma u64_add_small: "a + b < 2 ^ 64 \<Longrightarrow> u64_add a b = a + b"
  by (simp add: u64_add_def)

lemma sat_add_small: "a + b < 2 ^ 64 \<Longrightarrow> sat_add a b = a + b"
  by (simp add: sat_add_def U64_MAX_def)

lemma sat_add_le: "sat_add a b \<le> a + b"
  by (simp add: sat_add_def)

lemma length_le_bytes [simp, codec_simps]: "length (le_bytes w n) = w"
  by (induction w n rule: le_bytes.induct) auto

lemma length_be_bytes [simp, codec_simps]: "length (be_bytes w n) = w"
  by (simp add: be_bytes_def)

lemma unat_word_of_nat8: "unat (word_of_nat n :: u8) = n mod 256"
  by (simp add: unat_of_nat)

lemma unat8_less: "unat (b :: u8) < 256"
  using unsigned_less [of b] by simp

lemma from_le_le_bytes [codec_simps]: "n < 256 ^ w \<Longrightarrow> from_le_bytes (le_bytes w n) = n"
proof (induction w n rule: le_bytes.induct)
  case (2 w n)
  then have "n div 256 < 256 ^ w" by (simp add: less_mult_imp_div_less mult.commute)
  with "2.IH" show ?case by (simp add: unat_word_of_nat8)
qed simp

lemma from_le_bytes_less: "from_le_bytes bs < 256 ^ length bs"
proof (induction bs)
  case (Cons b bs)
  have "unat b < 256" by (rule unat8_less)
  with Cons show ?case by simp
qed simp

lemma le_bytes_from_le [codec_simps]: "le_bytes (length bs) (from_le_bytes bs) = bs"
proof (induction bs)
  case (Cons b bs)
  have "unat b < 256" by (rule unat8_less)
  then have "(unat b + 256 * from_le_bytes bs) div 256 = from_le_bytes bs" by simp
  moreover have "(word_of_nat (unat b + 256 * from_le_bytes bs) :: u8) = b"
    by (rule word_unat_eq_iff [THEN iffD2]) (use \<open>unat b < 256\<close> in \<open>simp add: unat_word_of_nat8 del: of_nat_add of_nat_mult\<close>)
  ultimately show ?case using Cons by simp
qed simp

lemma from_be_be_bytes [codec_simps]: "n < 256 ^ w \<Longrightarrow> from_be_bytes (be_bytes w n) = n"
  by (simp add: from_be_bytes_def be_bytes_def from_le_le_bytes)

lemma le_bytes_inj: "le_bytes w m = le_bytes w n \<Longrightarrow> m < 256 ^ w \<Longrightarrow> n < 256 ^ w \<Longrightarrow> m = n"
  by (metis from_le_le_bytes)

lemma div_ceil_le: "0 < b \<Longrightarrow> a \<le> div_ceil a b * b"
proof -
  assume "0 < b"
  have "a = a div b * b + a mod b" by simp
  moreover have "a mod b \<le> b" using \<open>0 < b\<close> by (simp add: less_imp_le)
  ultimately have "a \<le> a div b * b + b" by linarith
  then show ?thesis
    by (cases "a mod b = 0") (auto simp: div_ceil_def algebra_simps)
qed

section \<open>Lemmas: strings\<close>

lemma char_of_byte_of [simp]: "char_of_byte (byte_of c) = c"
  by (simp add: char_of_byte_def byte_of_def unat_word_of_nat8)

lemma byte_of_char_of [simp]: "byte_of (char_of_byte b) = b"
proof -
  have "unat b < 256" by (rule unat8_less)
  then show ?thesis by (simp add: char_of_byte_def byte_of_def)
qed

lemma inj_byte_of: "inj byte_of"
  by (metis injI char_of_byte_of)

lemma byte_of_eq [simp]: "byte_of c = byte_of d \<longleftrightarrow> c = d"
  by (metis char_of_byte_of)

lemma str_of_as_bytes [simp]: "str_of_bytes (as_bytes s) = s"
  by (simp add: as_bytes_def str_of_bytes_def o_def)

lemma as_bytes_str_of [simp]: "as_bytes (str_of_bytes bs) = bs"
  by (simp add: as_bytes_def str_of_bytes_def o_def)

lemma length_as_bytes [simp]: "length (as_bytes s) = length s"
  by (simp add: as_bytes_def)

lemma as_bytes_append: "as_bytes (s @ t) = as_bytes s @ as_bytes t"
  by (simp add: as_bytes_def)

lemma as_bytes_eq [simp]: "as_bytes s = as_bytes t \<longleftrightarrow> s = t"
  by (metis str_of_as_bytes)

lemma from_utf8_as_bytes: "is_utf8 s \<Longrightarrow> from_utf8 (as_bytes s) = Some s"
  by (simp add: from_utf8_def)

lemma radix_digits_less:
  assumes "2 \<le> r"
  shows "\<forall>d \<in> set (radix_digits r n). d < r"
  using assms
proof (induction r n rule: radix_digits.induct)
  case (1 r n)
  then show ?case by (subst radix_digits.simps) (auto simp: not_less)
qed

definition radix_value :: "nat \<Rightarrow> nat list \<Rightarrow> nat" where
  "radix_value r ds = foldl (\<lambda>a d. r * a + d) 0 ds"

lemma radix_value_digits: "radix_value r (radix_digits r n) = n"
proof (induction r n rule: radix_digits.induct)
  case (1 r n)
  show ?case
  proof (cases "r < 2 \<or> n < r")
    case True
    then show ?thesis by (subst radix_digits.simps) (auto simp: radix_value_def)
  next
    case False
    with 1 have "radix_value r (radix_digits r (n div r)) = n div r" by simp
    with False show ?thesis
      by (subst radix_digits.simps) (simp add: radix_value_def)
  qed
qed

lemma hex_digit_inj: "d < 16 \<Longrightarrow> e < 16 \<Longrightarrow> hex_digits ! d = hex_digits ! e \<Longrightarrow> d = e"
  by (subst (asm) nth_eq_iff_index_eq) (auto simp: hex_digits_def)

lemma show_hex_inj: "show_hex m = show_hex n \<Longrightarrow> m = n"
proof -
  assume eq: "show_hex m = show_hex n"
  have "inj_on (\<lambda>d. hex_digits ! d) (set (radix_digits 16 m) \<union> set (radix_digits 16 n))"
    using radix_digits_less [of 16 m] radix_digits_less [of 16 n]
    by (auto intro!: inj_onI hex_digit_inj)
  then have "radix_digits 16 m = radix_digits 16 n"
    using eq by (auto simp: show_hex_def dest: map_inj_on)
  then show ?thesis by (metis radix_value_digits)
qed

lemma hex_digit_in: "d < 16 \<Longrightarrow> hex_digits ! d \<in> set hex_digits"
  by (rule nth_mem) (simp add: hex_digits_def)

lemma set_show_hex: "set (show_hex n) \<subseteq> set hex_digits"
  using radix_digits_less [of 16 n] by (auto simp: show_hex_def intro!: hex_digit_in)

section \<open>Lemmas: association lists\<close>

lemma map_of_update [map_simps]:
  "map_of (AList.update k v m) k' = (if k' = k then Some v else map_of m k')"
  by (simp add: update_conv')

lemma map_of_delete [map_simps]:
  "map_of (AList.delete k m) k' = (if k' = k then None else map_of m k')"
  by (simp add: delete_conv')

lemma distinct_keys_update [intro]:
  "distinct (map fst m) \<Longrightarrow> distinct (map fst (AList.update k v m))"
  by (rule distinct_update)

lemma distinct_keys_delete [intro]:
  "distinct (map fst m) \<Longrightarrow> distinct (map fst (AList.delete k m))"
  by (rule distinct_delete)

text \<open>Weighted sums over a map, and how an insertion or a removal moves them.\<close>

definition map_weight :: "('v \<Rightarrow> nat) \<Rightarrow> ('k, 'v) hmap \<Rightarrow> nat" where
  "map_weight w m = (\<Sum>p\<leftarrow>m. w (snd p))"

lemma map_weight_Nil [simp]: "map_weight w [] = 0"
  by (simp add: map_weight_def)

lemma map_weight_Cons [simp]: "map_weight w ((k, v) # m) = w v + map_weight w m"
  by (simp add: map_weight_def)

lemma map_weight_append [simp]: "map_weight w (m @ n) = map_weight w m + map_weight w n"
  by (simp add: map_weight_def)

lemma map_weight_delete:
  "distinct (map fst m) \<Longrightarrow> map_of m k = Some v \<Longrightarrow>
   map_weight w m = w v + map_weight w (AList.delete k m)"
proof (induction m)
  case (Cons p m)
  obtain a b where p: "p = (a, b)" by force
  show ?case
  proof (cases "a = k")
    case True
    with Cons.prems p have "k \<notin> fst ` set m" "b = v" by auto
    then have "AList.delete k m = m" by (simp add: delete_idem)
    with True p \<open>b = v\<close> show ?thesis by simp
  next
    case False
    with Cons p show ?thesis by simp
  qed
qed simp

lemma map_weight_delete_none: "map_of m k = None \<Longrightarrow> AList.delete k m = m"
  by (simp add: delete_idem map_of_eq_None_iff)

lemma map_weight_update_new:
  "map_of m k = None \<Longrightarrow> map_weight w (AList.update k v m) = map_weight w m + w v"
  by (induction m) (auto split: if_splits)

lemma map_weight_update_old:
  "distinct (map fst m) \<Longrightarrow> map_of m k = Some u \<Longrightarrow>
   map_weight w (AList.update k v m) + w u = map_weight w m + w v"
proof (induction m)
  case (Cons p m)
  then show ?case by (cases p) (auto split: if_splits)
qed simp

lemma map_weight_ge:
  "distinct (map fst m) \<Longrightarrow> map_of m k = Some v \<Longrightarrow> w v \<le> map_weight w m"
  by (drule (1) map_weight_delete [where w = w]) simp

section \<open>Lemmas: ordered maps\<close>

lemma bt_sorted_Nil [simp]: "bt_sorted []"
  by (simp add: bt_sorted_def)

lemma bt_sorted_Cons:
  "bt_sorted ((k, v) # m) \<longleftrightarrow> (\<forall>p \<in> set m. k < fst p) \<and> bt_sorted m"
  by (auto simp: bt_sorted_def)

lemma bt_sorted_distinct: "bt_sorted m \<Longrightarrow> distinct (map fst m)"
  by (simp add: bt_sorted_def strict_sorted_iff)

lemma set_bt_insert: "set (bt_insert k v m) \<subseteq> insert (k, v) (set m)"
  by (induction k v m rule: bt_insert.induct) auto

lemma bt_sorted_insert: "bt_sorted m \<Longrightarrow> bt_sorted (bt_insert k v m)"
proof (induction k v m rule: bt_insert.induct)
  case (2 k v k' v' m)
  then show ?case
    using set_bt_insert [of k v m] by (fastforce simp: bt_sorted_Cons split: if_splits)
qed (simp add: bt_sorted_def)

lemma map_of_bt_insert [map_simps]:
  "bt_sorted m \<Longrightarrow> map_of (bt_insert k v m) x = (if x = k then Some v else map_of m x)"
proof (induction k v m rule: bt_insert.induct)
  case (2 k v k' v' m)
  then show ?case by (auto simp: bt_sorted_Cons)
qed simp

lemma bt_insert_last: "(\<forall>p \<in> set m. fst p < k) \<Longrightarrow> bt_insert k v m = m @ [(k, v)]"
  by (induction k v m rule: bt_insert.induct) auto

lemma map_of_bt_remove [map_simps]:
  "map_of (bt_remove k m) x = (if x = k then None else map_of m x)"
  by (induction m) (auto simp: bt_remove_def)

lemma bt_sorted_remove: "bt_sorted m \<Longrightarrow> bt_sorted (bt_remove k m)"
  by (induction m) (auto simp: bt_remove_def bt_sorted_def)

lemma set_bt_remove: "set (bt_remove k m) = {p \<in> set m. fst p \<noteq> k}"
  by (simp add: bt_remove_def)

lemma bt_remove_none: "k \<notin> fst ` set m \<Longrightarrow> bt_remove k m = m"
  by (force simp: bt_remove_def filter_id_conv)

lemma bt_remove_head: "bt_sorted ((k, v) # m) \<Longrightarrow> bt_remove k ((k, v) # m) = m"
  by (auto simp: bt_remove_def bt_sorted_Cons filter_id_conv)

section \<open>Lemmas: lists\<close>

lemma take_drop_slice: "take n (drop m xs) @ take k (drop (m + n) xs) = take (n + k) (drop m xs)"
  by (simp add: take_add) (simp add: add.commute)

end
