(* ===== verification/Errors.thy ===== *)
theory Errors
  imports Base
begin

text \<open>
  The error type of the daemon (\<open>src/error.rs\<close>) and the result type every fallible operation
  of the model returns: \<open>Inl\<close> an error, \<open>Inr\<close> a value. The payloads of errors that wrap a
  foreign error (\<open>reqwest\<close>, \<open>std::io\<close>) are that error's displayed text.
\<close>

datatype bc_error =
    Auth string
  | Http string
  | Io string
  | Config string
  | InvalidUrl string
  | Xml string
  | Storage nat string
  | NotFound string
  | Peer string
  | Cluster string
  | Other string

type_synonym 'a result = "bc_error + 'a"

text \<open>The \<open>Display\<close> text of an error, as \<open>thiserror\<close> derives it from the attributes.\<close>

fun show_error :: "bc_error \<Rightarrow> string" where
  "show_error (Auth m) = ''auth: '' @ m"
| "show_error (Http m) = ''http: '' @ m"
| "show_error (Io m) = ''io: '' @ m"
| "show_error (Config m) = ''config: '' @ m"
| "show_error (InvalidUrl m) = ''invalid url: '' @ m"
| "show_error (Xml m) = ''xml: '' @ m"
| "show_error (Storage status m) = ''storage '' @ show_dec status @ '': '' @ m"
| "show_error (NotFound m) = ''not found: '' @ m"
| "show_error (Peer m) = ''peer: '' @ m"
| "show_error (Cluster m) = ''cluster: '' @ m"
| "show_error (Other m) = ''other: '' @ m"

definition from_json_error :: "string \<Rightarrow> bc_error" where
  "from_json_error e = Other (''json: '' @ e)"

definition from_toml_error :: "string \<Rightarrow> bc_error" where
  "from_toml_error e = Config e"

fun is_not_found :: "bc_error \<Rightarrow> bool" where
  "is_not_found (NotFound _) = True"
| "is_not_found _ = False"

fun is_ok :: "'a result \<Rightarrow> bool" where
  "is_ok (Inr _) = True"
| "is_ok (Inl _) = False"

text \<open>The \<open>?\<close> operator: stop at the first error.\<close>

definition rbind :: "'a result \<Rightarrow> ('a \<Rightarrow> 'b result) \<Rightarrow> 'b result" where
  "rbind r f = (case r of Inl e \<Rightarrow> Inl e | Inr a \<Rightarrow> f a)"

lemma rbind_simps [simp]: "rbind (Inl e) f = Inl e" "rbind (Inr a) f = f a"
  by (simp_all add: rbind_def)

lemma rbind_Inr_iff: "rbind r f = Inr b \<longleftrightarrow> (\<exists>a. r = Inr a \<and> f a = Inr b)"
  by (cases r) auto

lemma is_ok_iff: "is_ok r \<longleftrightarrow> (\<exists>a. r = Inr a)"
  by (cases r) auto

end
