(* ===== verification/ChunkKey.thy ===== *)
theory ChunkKey
  imports Errors
begin

text \<open>
  Chunk identity (\<open>ChunkKey\<close> and \<open>hex\<close> of \<open>src/cache.rs\<close>, \<open>key_digest\<close> of
  \<open>src/peerindex.rs\<close>). SHA-256 comes from the \<open>sha2\<close> crate: it is the argument \<open>sha\<close> of
  every definition that hashes. Shown here: the hashed byte string determines the key when the
  names hold no NUL byte, the file name is the digest in lower-case hexadecimal, and temporary
  file names never collide with one another or with a chunk's file.
\<close>

section \<open>Definitions\<close>

record chunk_key =
  key_mount :: string
  key_blob :: string
  key_offset :: nat

type_synonym hash_fn = "bytes \<Rightarrow> bytes"

definition NUL :: u8 where
  "NUL = 0"

definition key_preimage :: "chunk_key \<Rightarrow> bytes" where
  "key_preimage k =
     as_bytes (key_mount k) @ [NUL] @ as_bytes (key_blob k) @ [NUL] @ le_bytes 8 (key_offset k)"

definition key_digest :: "hash_fn \<Rightarrow> chunk_key \<Rightarrow> bytes" where
  "key_digest sha k = sha (key_preimage k)"

definition hex_byte :: "u8 \<Rightarrow> string" where
  "hex_byte x = [hex_digits ! (unat x div 16), hex_digits ! (unat x mod 16)]"

fun hex :: "bytes \<Rightarrow> string" where
  "hex [] = []"
| "hex (x # b) = hex_byte x @ hex b"

definition cache_filename :: "hash_fn \<Rightarrow> chunk_key \<Rightarrow> string" where
  "cache_filename sha k = hex (sha (key_preimage k))"

text \<open>
  \<open>rand_hex\<close>: the clock in nanoseconds and the process-wide counter \<open>TMP_SEQ\<close>, whose value
  it returns incremented; and the temporary path \<open>insert\<close> builds from it.
\<close>

definition rand_hex :: "nat \<Rightarrow> nat \<Rightarrow> string \<times> nat" where
  "rand_hex nanos tmp_seq =
     (show_hex (nanos mod 2 ^ 64) @ ''.'' @ show_hex tmp_seq, u64_add tmp_seq 1)"

definition tmp_name :: "nat \<Rightarrow> nat \<Rightarrow> nat \<Rightarrow> string" where
  "tmp_name pid nanos tmp_seq = ''.tmp.'' @ show_dec pid @ ''.'' @ fst (rand_hex nanos tmp_seq)"

definition nul_free :: "string \<Rightarrow> bool" where
  "nul_free s \<longleftrightarrow> CHR 0x00 \<notin> set s"

definition key_ok :: "chunk_key \<Rightarrow> bool" where
  "key_ok k \<longleftrightarrow> nul_free (key_mount k) \<and> nul_free (key_blob k) \<and> key_offset k < 2 ^ 64"

section \<open>Lemmas\<close>

lemma byte_of_NUL: "byte_of c = NUL \<longleftrightarrow> c = CHR 0x00"
proof -
  have "NUL = byte_of (CHR 0x00)" by (simp add: NUL_def byte_of_def)
  then show ?thesis by (metis char_of_byte_of)
qed

lemma nul_free_bytes: "nul_free s \<Longrightarrow> NUL \<notin> set (as_bytes s)"
  by (auto simp: nul_free_def as_bytes_def byte_of_NUL dest: sym)

text \<open>A NUL-terminated field is recovered from any continuation.\<close>

lemma terminated_split:
  assumes "x \<notin> set as" "x \<notin> set bs" "as @ x # us = bs @ x # vs"
  shows "as = bs \<and> us = vs"
  using assms
proof (induction as arbitrary: bs)
  case Nil
  then show ?case by (cases bs) auto
next
  case (Cons a as)
  then show ?case by (cases bs) auto
qed

lemma nul_terminated_split:
  assumes "nul_free s" "nul_free t" "as_bytes s @ NUL # us = as_bytes t @ NUL # vs"
  shows "s = t \<and> us = vs"
  using terminated_split [OF nul_free_bytes nul_free_bytes, OF assms] by simp

lemma length_hex [simp]: "length (hex b) = 2 * length b"
  by (induction b) (auto simp: hex_byte_def)

lemma nibble_less: "unat (x :: u8) div 16 < 16" "unat (x :: u8) mod 16 < 16"
  using unat8_less [of x] by auto

lemma hex_byte_inj: "hex_byte x = hex_byte y \<Longrightarrow> x = y"
proof -
  assume "hex_byte x = hex_byte y"
  then have "unat x div 16 = unat y div 16" "unat x mod 16 = unat y mod 16"
    by (auto simp: hex_byte_def intro!: hex_digit_inj nibble_less)
  then have "unat x = unat y" by (metis div_mult_mod_eq)
  then show ?thesis by (simp add: word_unat_eq_iff)
qed

lemma hex_inj: "hex a = hex b \<Longrightarrow> a = b"
proof (induction a arbitrary: b)
  case Nil
  then show ?case by (cases b) (auto simp: hex_byte_def)
next
  case (Cons x a)
  then obtain y c where b: "b = y # c" by (cases b) (auto simp: hex_byte_def)
  from Cons.prems b have "hex_byte x = hex_byte y" "hex a = hex c"
    by (auto simp: hex_byte_def)
  with Cons.IH b show ?case by (auto dest: hex_byte_inj)
qed

lemma set_hex: "set (hex b) \<subseteq> set hex_digits"
  by (induction b) (auto simp: hex_byte_def intro!: hex_digit_in nibble_less)

lemma dot_not_hex: "CHR ''.'' \<notin> set hex_digits"
  by (simp add: hex_digits_def)

lemma key_preimage_inj:
  assumes "key_ok k" "key_ok l" "key_preimage k = key_preimage l"
  shows "k = l"
proof -
  have 1: "key_mount k = key_mount l \<and>
      as_bytes (key_blob k) @ NUL # le_bytes 8 (key_offset k) =
      as_bytes (key_blob l) @ NUL # le_bytes 8 (key_offset l)"
    using assms by (intro nul_terminated_split) (auto simp: key_ok_def key_preimage_def)
  then have 2: "key_blob k = key_blob l \<and> le_bytes 8 (key_offset k) = le_bytes 8 (key_offset l)"
    using assms by (intro nul_terminated_split) (auto simp: key_ok_def)
  then have "key_offset k = key_offset l"
    using assms by (intro le_bytes_inj [of 8]) (auto simp: key_ok_def)
  with 1 2 show ?thesis by simp
qed

lemma cache_filename_eq_iff:
  "cache_filename sha k = cache_filename sha l \<longleftrightarrow> key_digest sha k = key_digest sha l"
  by (auto simp: cache_filename_def key_digest_def dest: hex_inj)

lemma filename_no_dot: "CHR ''.'' \<notin> set (cache_filename sha k)"
  using set_hex dot_not_hex by (auto simp: cache_filename_def)

lemma tmp_name_has_dot: "CHR ''.'' \<in> set (tmp_name pid nanos s)"
  by (simp add: tmp_name_def)

lemma tmp_name_not_chunk: "tmp_name pid nanos s \<noteq> cache_filename sha k"
  by (metis filename_no_dot tmp_name_has_dot)

section \<open>Properties\<close>

text \<open>C29: Two well-formed chunk keys (NUL-free names, a 64-bit offset) that are stored under the
  same cache file name are the same key, unless the hash itself collides on their preimages: the
  separators leave no room for two keys to be hashed as the same byte string. The file name is
  the 64-character lower-case hexadecimal digest.\<close>
theorem chunk_file_identity:
  assumes "key_ok k" "key_ok l" "length (sha (key_preimage k)) = 32"
    and no_collision: "key_preimage k \<noteq> key_preimage l \<Longrightarrow>
      sha (key_preimage k) \<noteq> sha (key_preimage l)"
  shows "(cache_filename sha k = cache_filename sha l \<longleftrightarrow> k = l)
    \<and> length (cache_filename sha k) = 64 \<and> set (cache_filename sha k) \<subseteq> set ''0123456789abcdef''"
proof -
  have "cache_filename sha k = cache_filename sha l \<Longrightarrow> k = l"
    using assms key_preimage_inj [of k l] by (auto simp: cache_filename_eq_iff key_digest_def)
  then show ?thesis
    using assms(3) set_hex [of "sha (key_preimage k)"]
    by (auto simp: cache_filename_def hex_digits_def)
qed

theorem chunk_file_identity_witness:
  "cache_filename (\<lambda>b. take 32 (b @ replicate 32 0)) \<lparr>key_mount = ''ab'', key_blob = ''cd'', key_offset = 0\<rparr>
   \<noteq> cache_filename (\<lambda>b. take 32 (b @ replicate 32 0)) \<lparr>key_mount = ''a'', key_blob = ''bcd'', key_offset = 0\<rparr>"
  (is "cache_filename ?h ?k \<noteq> cache_filename ?h ?l")
proof -
  have "key_ok ?k" "key_ok ?l" by (simp_all add: key_ok_def nul_free_def)
  moreover have "length (?h (key_preimage ?k)) = 32" by simp
  moreover have "key_preimage ?k \<noteq> key_preimage ?l \<Longrightarrow> ?h (key_preimage ?k) \<noteq> ?h (key_preimage ?l)"
    by (simp add: key_preimage_def as_bytes_def byte_of_def NUL_def)
  ultimately show ?thesis
    using chunk_file_identity [of ?k ?l ?h] by simp
qed

text \<open>Temporary files never collide: two \<open>insert\<close> calls that drew different values of the
  process-wide counter write different temporary paths even in the same nanosecond, and no
  temporary path is the file of a chunk.\<close>
theorem tmp_names_distinct:
  assumes "tmp_name pid n1 s1 = tmp_name pid n2 s2"
  shows "s1 = s2 \<and> tmp_name pid n1 s1 \<noteq> cache_filename sha k"
proof -
  from assms have "show_hex (n1 mod 2 ^ 64) @ CHR ''.'' # show_hex s1 =
      show_hex (n2 mod 2 ^ 64) @ CHR ''.'' # show_hex s2"
    by (simp add: tmp_name_def rand_hex_def)
  moreover have "CHR ''.'' \<notin> set (show_hex m)" for m
    using set_show_hex dot_not_hex by auto
  ultimately have "show_hex s1 = show_hex s2"
    by (metis terminated_split)
  then show ?thesis by (simp add: show_hex_inj tmp_name_not_chunk)
qed

theorem tmp_names_distinct_witness:
  "tmp_name 17 5 3 \<noteq> cache_filename (\<lambda>b. b) \<lparr>key_mount = [], key_blob = [], key_offset = 0\<rparr>"
  using tmp_names_distinct [of 17 5 3 5 3] by blast

end
