(* ===== verification/Config.thy ===== *)
theory Config
  imports ChunkKey "HOL-Library.Multiset"
begin

text \<open>
  The daemon's configuration (\<open>src/config.rs\<close>): the records the TOML file is read into with
  their defaults, the startup validation, and the cluster hash that gossip compares before it
  admits a peer. Paths and socket addresses are strings; parsing TOML is the \<open>toml\<close> crate's
  work and is the argument \<open>parse\<close> of \<open>from_path\<close>.
\<close>

section \<open>Definitions\<close>

record cache_config =
  c_dir :: string
  c_max_bytes :: nat
  c_chunk_size :: nat
  c_cache_on_peer_fetch :: bool
  c_peer_lru_bytes :: nat

definition default_chunk_size :: nat where
  "default_chunk_size = 4 * 1024 * 1024"

definition default_cache_on_peer_fetch :: bool where
  "default_cache_on_peer_fetch = True"

definition default_peer_lru_bytes :: nat where
  "default_peer_lru_bytes = 1024 * 1024 * 1024"

record azure_config =
  a_pool_max_idle_per_host :: nat
  a_block_size :: nat
  a_workers :: nat
  a_main_worker_threads :: nat

definition default_azure :: azure_config where
  "default_azure = \<lparr>a_pool_max_idle_per_host = 512, a_block_size = 0, a_workers = 1,
     a_main_worker_threads = 8\<rparr>"

record cluster_config =
  cl_bind :: string
  cl_seeds :: "string list"
  cl_advertise :: "string option"

record transport_config =
  t_bind :: string
  t_advertise :: "string list"
  t_chunk_concurrency :: nat
  t_peer_concurrency :: nat
  t_prefetch_depth :: nat
  t_prefetch_threshold :: nat
  t_prefetch_concurrency :: nat
  t_prefetch_origin_only :: bool
  t_kind :: string
  t_bloom_bits :: nat
  t_bloom_rebuild_secs :: nat
  t_bloom_pull_secs :: nat
  t_peer_max_candidates :: nat
  t_peer_max_yes_attempts :: nat
  t_peer_max_maybe_attempts :: nat
  t_stampede_wait_ms :: nat

definition default_transport :: "string \<Rightarrow> transport_config" where
  "default_transport bind = \<lparr>t_bind = bind, t_advertise = [], t_chunk_concurrency = 32,
     t_peer_concurrency = 8, t_prefetch_depth = 16, t_prefetch_threshold = 3,
     t_prefetch_concurrency = 32, t_prefetch_origin_only = False, t_kind = ''tcp'',
     t_bloom_bits = 2 ^ 23, t_bloom_rebuild_secs = 30, t_bloom_pull_secs = 5,
     t_peer_max_candidates = 4, t_peer_max_yes_attempts = 2, t_peer_max_maybe_attempts = 2,
     t_stampede_wait_ms = 5000\<rparr>"

record mount_config =
  m_name :: string
  m_mountpoint :: string
  m_account :: string
  m_container :: string
  m_prefix :: string
  m_sas_token :: "string option"

record config =
  node_id :: "string option"
  cfg_cache :: cache_config
  cfg_azure :: azure_config
  cfg_cluster :: cluster_config
  cfg_transport :: transport_config
  cfg_stats_bind :: string
  cfg_mounts :: "mount_config list"

text \<open>The validation loop over the mounts stops at the first incomplete one. \<open>dbg\<close> is the
  \<open>Debug\<close> rendering of a string.\<close>

fun validate_mounts :: "mount_config list \<Rightarrow> unit result" where
  "validate_mounts [] = Inr ()"
| "validate_mounts (m # ms) =
     (if m_name m = [] \<or> m_account m = [] \<or> m_container m = []
      then Inl (Config (''mount '' @ m_name m @ '': name/account/container required''))
      else validate_mounts ms)"

definition validate :: "(string \<Rightarrow> string) \<Rightarrow> config \<Rightarrow> unit result" where
  "validate dbg cfg =
     (let chunk_size = c_chunk_size (cfg_cache cfg); az = cfg_azure cfg in
      if chunk_size = 0 \<or> chunk_size mod 4096 \<noteq> 0
      then Inl (Config ''cache.chunk_size must be multiple of 4096'')
      else if a_pool_max_idle_per_host az = 0
      then Inl (Config ''azure.pool_max_idle_per_host must be >= 1'')
      else if a_workers az = 0
      then Inl (Config ''azure.workers must be >= 1'')
      else if a_main_worker_threads az = 0
      then Inl (Config ''azure.main_worker_threads must be >= 1'')
      else if a_block_size az \<noteq> 0 \<and> a_block_size az < chunk_size
      then Inl (Config ''azure.block_size must be >= cache.chunk_size when set'')
      else if a_block_size az \<noteq> 0 \<and> a_block_size az mod chunk_size \<noteq> 0
      then Inl (Config ''azure.block_size must be a multiple of cache.chunk_size'')
      else if cfg_mounts cfg = []
      then Inl (Config ''at least one mount required'')
      else rbind (validate_mounts (cfg_mounts cfg)) (\<lambda>_.
        if t_kind (cfg_transport cfg) \<notin> set [''tcp'', ''rdma'']
        then Inl (Config (''transport.kind must be \"tcp\" or \"rdma\", got '' @
               dbg (t_kind (cfg_transport cfg))))
        else Inr ()))"

definition from_path ::
  "(string \<Rightarrow> string) \<Rightarrow> (string \<Rightarrow> string + string) \<Rightarrow> (string \<Rightarrow> string + config) \<Rightarrow> string \<Rightarrow> config result"
where
  "from_path dbg read_to_string parse path =
     (case read_to_string path of
        Inl e \<Rightarrow> Inl (Config (''read '' @ path @ '': '' @ e))
      | Inr s \<Rightarrow>
          (case parse s of
             Inl e \<Rightarrow> Inl (from_toml_error e)
           | Inr cfg \<Rightarrow> rbind (validate dbg cfg) (\<lambda>_. Inr cfg)))"

definition mount_preimage :: "mount_config \<Rightarrow> bytes" where
  "mount_preimage m =
     as_bytes (m_name m) @ [NUL] @ as_bytes (m_account m) @ [NUL] @
     as_bytes (m_container m) @ [NUL] @ as_bytes (m_prefix m) @ [NUL]"

definition hash_preimage :: "config \<Rightarrow> bytes" where
  "hash_preimage cfg =
     le_bytes 8 (c_chunk_size (cfg_cache cfg)) @ as_bytes (t_kind (cfg_transport cfg)) @ [NUL] @
     concat (map mount_preimage (sort_key m_name (cfg_mounts cfg)))"

definition cluster_hash :: "hash_fn \<Rightarrow> config \<Rightarrow> bytes" where
  "cluster_hash sha cfg = sha (hash_preimage cfg)"

text \<open>What the cluster hash is meant to identify: chunk size, transport kind and the identity
  of every mount, in name order.\<close>

definition mount_ident :: "mount_config \<Rightarrow> string \<times> string \<times> string \<times> string" where
  "mount_ident m = (m_name m, m_account m, m_container m, m_prefix m)"

definition cluster_ident :: "config \<Rightarrow> nat \<times> string \<times> (string \<times> string \<times> string \<times> string) list" where
  "cluster_ident cfg =
     (c_chunk_size (cfg_cache cfg), t_kind (cfg_transport cfg),
      map mount_ident (sort_key m_name (cfg_mounts cfg)))"

definition mount_nul_free :: "mount_config \<Rightarrow> bool" where
  "mount_nul_free m \<longleftrightarrow> nul_free (m_name m) \<and> nul_free (m_account m) \<and> nul_free (m_container m)
     \<and> nul_free (m_prefix m)"

definition config_nul_free :: "config \<Rightarrow> bool" where
  "config_nul_free cfg \<longleftrightarrow> nul_free (t_kind (cfg_transport cfg)) \<and> list_all mount_nul_free (cfg_mounts cfg)
     \<and> c_chunk_size (cfg_cache cfg) < 2 ^ 64"

section \<open>Lemmas\<close>

lemma validate_mounts_ok:
  "validate_mounts ms = Inr () \<longleftrightarrow>
     (\<forall>m \<in> set ms. m_name m \<noteq> [] \<and> m_account m \<noteq> [] \<and> m_container m \<noteq> [])"
  by (induction ms) auto

lemma mount_preimage_split:
  assumes "mount_nul_free m" "mount_nul_free n" "mount_preimage m @ us = mount_preimage n @ vs"
  shows "mount_ident m = mount_ident n \<and> us = vs"
proof -
  note nf = assms(1,2) [unfolded mount_nul_free_def]
  from assms(3) [unfolded mount_preimage_def] nf have 1: "m_name m = m_name n"
      "as_bytes (m_account m) @ NUL # as_bytes (m_container m) @ NUL # as_bytes (m_prefix m) @ NUL # us =
       as_bytes (m_account n) @ NUL # as_bytes (m_container n) @ NUL # as_bytes (m_prefix n) @ NUL # vs"
    by (auto dest!: nul_terminated_split [rotated 2])
  with nf have 2: "m_account m = m_account n"
      "as_bytes (m_container m) @ NUL # as_bytes (m_prefix m) @ NUL # us =
       as_bytes (m_container n) @ NUL # as_bytes (m_prefix n) @ NUL # vs"
    by (auto dest!: nul_terminated_split [rotated 2])
  with nf have 3: "m_container m = m_container n"
      "as_bytes (m_prefix m) @ NUL # us = as_bytes (m_prefix n) @ NUL # vs"
    by (auto dest!: nul_terminated_split [rotated 2])
  with nf have "m_prefix m = m_prefix n" "us = vs"
    by (auto dest!: nul_terminated_split [rotated 2])
  with 1 2 3 show ?thesis by (simp add: mount_ident_def)
qed

lemma mounts_preimage_inj:
  assumes "list_all mount_nul_free ms" "list_all mount_nul_free ns"
    "concat (map mount_preimage ms) = concat (map mount_preimage ns)"
  shows "map mount_ident ms = map mount_ident ns"
  using assms
proof (induction ms arbitrary: ns)
  case Nil
  then show ?case by (cases ns) (auto simp: mount_preimage_def)
next
  case (Cons m ms)
  then obtain n ns' where ns: "ns = n # ns'" by (cases ns) (auto simp: mount_preimage_def)
  from Cons.prems ns mount_preimage_split [of m n] show ?case
    by simp (metis Cons.IH)
qed

lemma mounts_preimage_cong:
  assumes "map mount_ident ms = map mount_ident ns"
  shows "map mount_preimage ms = map mount_preimage ns"
proof -
  define f where "f = (\<lambda>(n, a, c, p). as_bytes n @ [NUL] @ as_bytes a @ [NUL] @ as_bytes c @ [NUL] @ as_bytes p @ [NUL])"
  have "map mount_preimage xs = map f (map mount_ident xs)" for xs
    by (simp add: f_def mount_ident_def mount_preimage_def)
  with assms show ?thesis by metis
qed

text \<open>Stable sorting by a key that is distinct on the list depends on the multiset only.\<close>

lemma sort_key_perm:
  assumes "mset xs = mset ys" "distinct (map f xs)"
  shows "sort_key f xs = sort_key f ys"
proof (rule map_sorted_distinct_set_unique)
  have set_eq: "set xs = set ys" using assms(1) by (rule mset_eq_setD)
  show "set (sort_key f xs) = set (sort_key f ys)" by (simp add: set_eq)
  show "inj_on f (set (sort_key f xs) \<union> set (sort_key f ys))"
    using assms(2) by (simp add: set_eq [symmetric] distinct_map)
  show "sorted (map f (sort_key f xs))" "sorted (map f (sort_key f ys))" by simp_all
  show "distinct (map f (sort_key f xs))"
    using assms(2) by (simp add: distinct_map)
  have "distinct ys" using assms by (metis distinct_map mset_eq_imp_distinct_iff)
  then show "distinct (map f (sort_key f ys))"
    using assms(2) set_eq by (simp add: distinct_map)
qed

lemma map_insort_key: "map f (insort_key (\<lambda>x. g (f x)) a xs) = insort_key g (f a) (map f xs)"
  by (induction xs) auto

lemma map_sort_key: "map f (sort_key (\<lambda>x. g (f x)) xs) = sort_key g (map f xs)"
  by (induction xs) (auto simp: map_insort_key)

section \<open>Properties\<close>

text \<open>C40: \<open>validate\<close> accepts exactly the configurations that satisfy the documented
  requirements: a positive chunk size that is a multiple of 4096; at least one idle connection, one
  worker and one main thread; a block size that is zero or a multiple of the chunk size; at least
  one mount, each with a name, an account and a container; and the transport \<open>tcp\<close> or
  \<open>rdma\<close>.\<close>
theorem validate_spec:
  "validate dbg cfg = Inr () \<longleftrightarrow>
     0 < c_chunk_size (cfg_cache cfg) \<and> 4096 dvd c_chunk_size (cfg_cache cfg) \<and>
     1 \<le> a_pool_max_idle_per_host (cfg_azure cfg) \<and> 1 \<le> a_workers (cfg_azure cfg) \<and>
     1 \<le> a_main_worker_threads (cfg_azure cfg) \<and>
     c_chunk_size (cfg_cache cfg) dvd a_block_size (cfg_azure cfg) \<and>
     cfg_mounts cfg \<noteq> [] \<and>
     list_all (\<lambda>m. m_name m \<noteq> [] \<and> m_account m \<noteq> [] \<and> m_container m \<noteq> []) (cfg_mounts cfg) \<and>
     (t_kind (cfg_transport cfg) = ''tcp'' \<or> t_kind (cfg_transport cfg) = ''rdma'')"
proof -
  let ?c = "c_chunk_size (cfg_cache cfg)" and ?b = "a_block_size (cfg_azure cfg)"
  have block: "(?b = 0 \<or> \<not> ?b < ?c) \<and> (?b = 0 \<or> ?b mod ?c = 0) \<longleftrightarrow> ?c dvd ?b"
    by (auto simp: dvd_eq_mod_eq_0 [symmetric] dest: dvd_imp_le)
  show ?thesis
    using block validate_mounts_ok [of "cfg_mounts cfg"]
    by (auto simp: validate_def Let_def dvd_eq_mod_eq_0 list_all_iff rbind_Inr_iff split: if_splits)
qed

text \<open>The cluster hash identifies the cluster contract. For configurations without NUL
  bytes, and barring a collision of SHA-256 on their two preimages, two nodes compute the same hash
  exactly when they agree on the chunk size, the transport kind and the name, account, container
  and prefix of every mount.\<close>
theorem cluster_hash_identifies:
  assumes "config_nul_free a" "config_nul_free b"
    and no_collision: "hash_preimage a \<noteq> hash_preimage b \<Longrightarrow>
      sha (hash_preimage a) \<noteq> sha (hash_preimage b)"
  shows "cluster_hash sha a = cluster_hash sha b \<longleftrightarrow> cluster_ident a = cluster_ident b"
proof
  assume "cluster_hash sha a = cluster_hash sha b"
  then have eq: "hash_preimage a = hash_preimage b"
    using no_collision by (auto simp: cluster_hash_def)
  have all: "list_all mount_nul_free (sort_key m_name (cfg_mounts c))" if "config_nul_free c" for c
    using that by (simp add: config_nul_free_def list_all_iff)
  from eq have chunk: "c_chunk_size (cfg_cache a) = c_chunk_size (cfg_cache b)"
    and rest: "as_bytes (t_kind (cfg_transport a)) @ NUL # concat (map mount_preimage (sort_key m_name (cfg_mounts a))) =
      as_bytes (t_kind (cfg_transport b)) @ NUL # concat (map mount_preimage (sort_key m_name (cfg_mounts b)))"
    using assms by (auto simp: hash_preimage_def config_nul_free_def intro: le_bytes_inj [of 8])
  from nul_terminated_split [OF _ _ rest] assms(1,2) mounts_preimage_inj [OF all all] chunk
  show "cluster_ident a = cluster_ident b"
    by (auto simp: cluster_ident_def config_nul_free_def)
next
  assume "cluster_ident a = cluster_ident b"
  then show "cluster_hash sha a = cluster_hash sha b"
    by (auto simp: cluster_ident_def cluster_hash_def hash_preimage_def dest!: mounts_preimage_cong)
qed

definition sample_mount :: "string \<Rightarrow> mount_config" where
  "sample_mount n = \<lparr>m_name = n, m_mountpoint = ''/mnt'', m_account = ''acc'', m_container = ''c'',
     m_prefix = [], m_sas_token = None\<rparr>"

definition sample_config :: "mount_config list \<Rightarrow> config" where
  "sample_config ms = \<lparr>node_id = None,
     cfg_cache = \<lparr>c_dir = ''/c'', c_max_bytes = 8192, c_chunk_size = 4096,
       c_cache_on_peer_fetch = True, c_peer_lru_bytes = 0\<rparr>,
     cfg_azure = default_azure, cfg_cluster = \<lparr>cl_bind = ''b'', cl_seeds = [], cl_advertise = None\<rparr>,
     cfg_transport = default_transport ''t'', cfg_stats_bind = ''s'', cfg_mounts = ms\<rparr>"

theorem cluster_hash_identifies_witness:
  "cluster_hash (\<lambda>b. b) (sample_config [sample_mount ''x'']) \<noteq>
   cluster_hash (\<lambda>b. b) (sample_config [sample_mount ''y''])"
  using cluster_hash_identifies [of "sample_config [sample_mount ''x'']" "sample_config [sample_mount ''y'']" "\<lambda>b. b"]
  by (simp add: config_nul_free_def sample_config_def sample_mount_def default_transport_def
      mount_nul_free_def nul_free_def cluster_ident_def mount_ident_def)

text \<open>When mount names are distinct, the order in which a node lists its mounts does not
  change its cluster hash, and neither do the node-local settings (cache directory and capacity,
  connection pools, prefetch, seeds, bind addresses, mount points, SAS tokens).\<close>
theorem cluster_hash_order_independent:
  assumes "mset (map mount_ident (cfg_mounts a)) = mset (map mount_ident (cfg_mounts b))"
    and "distinct (map m_name (cfg_mounts a))"
    and "c_chunk_size (cfg_cache a) = c_chunk_size (cfg_cache b)"
    and "t_kind (cfg_transport a) = t_kind (cfg_transport b)"
  shows "cluster_hash sha a = cluster_hash sha b"
proof -
  have name: "m_name = (\<lambda>m. fst (mount_ident m))" by (auto simp: mount_ident_def)
  have sorted: "map mount_ident (sort_key m_name ms) = sort_key fst (map mount_ident ms)" for ms
    by (simp add: name map_sort_key)
  have "distinct (map fst (map mount_ident (cfg_mounts a)))"
    using assms(2) by (simp add: name comp_def)
  then have "map mount_ident (sort_key m_name (cfg_mounts a)) = map mount_ident (sort_key m_name (cfg_mounts b))"
    using sort_key_perm [OF assms(1)] by (simp add: sorted)
  then have "map mount_preimage (sort_key m_name (cfg_mounts a)) = map mount_preimage (sort_key m_name (cfg_mounts b))"
    by (rule mounts_preimage_cong)
  then show ?thesis using assms(3,4) by (simp add: cluster_hash_def hash_preimage_def)
qed

theorem cluster_hash_order_independent_witness:
  "cluster_hash (\<lambda>b. b) (sample_config [sample_mount ''x'', sample_mount ''y'']) =
   cluster_hash (\<lambda>b. b) (sample_config [sample_mount ''y'', sample_mount ''x''])"
  by (rule cluster_hash_order_independent)
    (simp_all add: sample_config_def sample_mount_def mount_ident_def)

end
