(* ===== verification/DiskCache.thy ===== *)
theory DiskCache
  imports ChunkKey
begin

text \<open>
  The on-disk chunk cache (\<open>src/cache.rs\<close>): its in-memory index (\<open>entries\<close>, the recency map
  \<open>lru\<close>, the clock \<open>seq\<close> and the byte count), its counters, and the files of its directory.

  Every operation is written as the source has it, as a composition of the sections the mutex and
  the file system make atomic (\<open>insert_file\<close> and \<open>insert_commit\<close>, \<open>touch_lru\<close>,
  \<open>remove_entry\<close>, \<open>reconcile_drop\<close>, \<open>clear_locked\<close>, \<open>sweep\<close>); \<open>exec\<close> runs any
  interleaving of sections. I/O outcomes are arguments: \<open>fs_env\<close> says which names can be read,
  stat'ed and removed, \<open>insert_fault\<close> which system call of an insert fails.
\<close>

section \<open>State\<close>

record dc_entry =
  e_size :: nat
  e_seq :: nat

record cache_stats =
  hits :: nat
  misses :: nat
  evictions :: nat
  bytes_in_use :: nat
  inserts :: nat
  reconcile_drops :: nat

datatype fnode = File bytes | NonFile

record disk_cache =
  max_bytes :: nat
  entries :: "(chunk_key, dc_entry) hmap"
  lru :: "(nat \<times> chunk_key) list"
  seq :: nat
  bytes_used :: nat
  stats :: cache_stats
  files :: "(string, fnode) hmap"
  tmp_seq :: nat

record fs_env =
  can_read :: "string \<Rightarrow> bool"
  can_stat :: "string \<Rightarrow> bool"
  can_remove :: "string \<Rightarrow> bool"

datatype insert_fault =
    NoFault
  | CreateFails string
  | WriteFails nat string
  | SyncFails string
  | RenameFails string

definition fs_read :: "fs_env \<Rightarrow> (string, fnode) hmap \<Rightarrow> string \<Rightarrow> bytes option" where
  "fs_read env fs name =
     (case map_of fs name of Some (File b) \<Rightarrow> if can_read env name then Some b else None | _ \<Rightarrow> None)"

definition fs_exists :: "fs_env \<Rightarrow> (string, fnode) hmap \<Rightarrow> string \<Rightarrow> bool" where
  "fs_exists env fs name \<longleftrightarrow> map_of fs name \<noteq> None \<and> can_stat env name"

definition fs_remove :: "fs_env \<Rightarrow> string \<Rightarrow> (string, fnode) hmap \<Rightarrow> (string, fnode) hmap \<times> bool" where
  "fs_remove env name fs =
     (case map_of fs name of
        Some (File _) \<Rightarrow> if can_remove env name then (AList.delete name fs, True) else (fs, False)
      | _ \<Rightarrow> (fs, False))"

text \<open>\<open>read_exact_at\<close>: all \<open>n\<close> bytes at the offset, or an error.\<close>

definition read_exact_at :: "bytes \<Rightarrow> nat \<Rightarrow> nat \<Rightarrow> bytes option" where
  "read_exact_at b off n = (if off + n \<le> length b then Some (take n (drop off b)) else None)"

definition count_miss :: "disk_cache \<Rightarrow> disk_cache" where
  "count_miss c = c\<lparr>stats := (stats c)\<lparr>misses := u64_add (misses (stats c)) 1\<rparr>\<rparr>"

definition count_hit :: "disk_cache \<Rightarrow> disk_cache" where
  "count_hit c = c\<lparr>stats := (stats c)\<lparr>hits := u64_add (hits (stats c)) 1\<rparr>\<rparr>"

definition store_bytes_in_use :: "nat \<Rightarrow> disk_cache \<Rightarrow> disk_cache" where
  "store_bytes_in_use n c = c\<lparr>stats := (stats c)\<lparr>bytes_in_use := n\<rparr>\<rparr>"

section \<open>Opening\<close>

text \<open>One directory entry of \<open>scan_existing\<close>'s walk: the surviving entry (if any), and the
  purged files and bytes it reports.\<close>

fun scan_dir :: "fs_env \<Rightarrow> (string, fnode) hmap \<Rightarrow> (string, fnode) hmap \<times> nat \<times> nat" where
  "scan_dir env [] = ([], 0, 0)"
| "scan_dir env ((name, node) # rest) =
     (let (kept, purged, purged_bytes) = scan_dir env rest;
          keep = ((name, node) # kept, purged, purged_bytes) in
      if \<not> can_stat env name then keep
      else (case node of
          NonFile \<Rightarrow> keep
        | File b \<Rightarrow>
            if \<not> is_utf8 name then keep
            else let kept' = (if can_remove env name then kept else (name, node) # kept) in
              if starts_with name ''.tmp.'' then (kept', purged, purged_bytes)
              else (kept', u64_add purged 1, u64_add purged_bytes (length b))))"

definition scan_existing :: "fs_env \<Rightarrow> disk_cache \<Rightarrow> disk_cache" where
  "scan_existing env c =
     (let (kept, purged, purged_bytes) = scan_dir env (files c) in
      store_bytes_in_use 0 (c\<lparr>files := kept, bytes_used := 0\<rparr>))"

definition open_cache ::
  "fs_env \<Rightarrow> unit result \<Rightarrow> unit result \<Rightarrow> (string, fnode) hmap \<Rightarrow> nat \<Rightarrow> nat \<Rightarrow> disk_cache result"
where
  "open_cache env create_dir read_dir dir tmp cap =
     rbind create_dir (\<lambda>_. rbind read_dir (\<lambda>_. Inr (scan_existing env
       \<lparr>max_bytes = cap, entries = [], lru = [], seq = 0, bytes_used = 0,
        stats = \<lparr>hits = 0, misses = 0, evictions = 0, bytes_in_use = 0, inserts = 0, reconcile_drops = 0\<rparr>,
        files = dir, tmp_seq = tmp\<rparr>)))"

section \<open>Lookups\<close>

definition touch_lru :: "chunk_key \<Rightarrow> disk_cache \<Rightarrow> bool \<times> disk_cache" where
  "touch_lru key c =
     (case map_of (entries c) key of
        None \<Rightarrow> (False, count_miss c)
      | Some e \<Rightarrow>
          let new_seq = u64_add (seq c) 1 in
          (True, c\<lparr>lru := bt_insert new_seq key (bt_remove (e_seq e) (lru c)), seq := new_seq,
                  entries := AList.update key (e\<lparr>e_seq := new_seq\<rparr>) (entries c)\<rparr>))"

definition try_get :: "hash_fn \<Rightarrow> fs_env \<Rightarrow> chunk_key \<Rightarrow> disk_cache \<Rightarrow> bytes option \<times> disk_cache" where
  "try_get sha env key c =
     (case map_of (entries c) key of
        None \<Rightarrow> (None, count_miss c)
      | Some _ \<Rightarrow>
          (case fs_read env (files c) (cache_filename sha key) of
             None \<Rightarrow> (None, count_miss c)
           | Some data \<Rightarrow>
               (case touch_lru key c of
                  (False, c') \<Rightarrow> (None, c')
                | (True, c') \<Rightarrow> (Some data, count_hit c'))))"

definition try_get_range ::
  "hash_fn \<Rightarrow> fs_env \<Rightarrow> chunk_key \<Rightarrow> nat \<Rightarrow> nat \<Rightarrow> disk_cache \<Rightarrow> bytes option \<times> disk_cache"
where
  "try_get_range sha env key range_offset range_len c =
     (if range_len = 0 then (Some [], c)
      else case map_of (entries c) key of
        None \<Rightarrow> (None, count_miss c)
      | Some e \<Rightarrow>
          if sat_add range_offset range_len > e_size e then (None, count_miss c)
          else (case fs_read env (files c) (cache_filename sha key) of
             None \<Rightarrow> (None, count_miss c)
           | Some f \<Rightarrow>
               (case read_exact_at f range_offset range_len of
                  None \<Rightarrow> (None, count_miss c)
                | Some buf \<Rightarrow>
                    (case touch_lru key c of
                       (False, c') \<Rightarrow> (None, c')
                     | (True, c') \<Rightarrow> (Some buf, count_hit c')))))"

text \<open>\<open>try_get_into_slice\<close> fills the caller's buffer; the model returns the new contents of
  \<open>dst\<close> besides the result. A failed read leaves \<open>dst\<close> unspecified, so it is not returned.\<close>

definition try_get_into_slice ::
  "hash_fn \<Rightarrow> fs_env \<Rightarrow> chunk_key \<Rightarrow> nat \<Rightarrow> disk_cache \<Rightarrow> (nat \<times> bytes) option \<times> disk_cache"
where
  "try_get_into_slice sha env key dst_len c =
     (case map_of (entries c) key of
        None \<Rightarrow> (None, count_miss c)
      | Some e \<Rightarrow>
          if dst_len \<noteq> e_size e then (None, c)
          else (case fs_read env (files c) (cache_filename sha key) of
             None \<Rightarrow> (None, count_miss c)
           | Some f \<Rightarrow>
               (case read_exact_at f 0 dst_len of
                  None \<Rightarrow> (None, count_miss c)
                | Some buf \<Rightarrow>
                    (case touch_lru key c of
                       (False, c') \<Rightarrow> (None, c')
                     | (True, c') \<Rightarrow> (Some (e_size e, buf), count_hit c')))))"

definition entry_size :: "chunk_key \<Rightarrow> disk_cache \<Rightarrow> nat option" where
  "entry_size key c = map_option e_size (map_of (entries c) key)"

definition live_keys :: "disk_cache \<Rightarrow> chunk_key list" where
  "live_keys c = map fst (entries c)"

definition local_path :: "hash_fn \<Rightarrow> fs_env \<Rightarrow> chunk_key \<Rightarrow> disk_cache \<Rightarrow> string option" where
  "local_path sha env key c =
     (let p = cache_filename sha key in if fs_exists env (files c) p then Some p else None)"

section \<open>Insertion and eviction\<close>

text \<open>\<open>evict_if_needed\<close>: the loop drops the oldest entry until the budget holds or the
  recency map is empty.\<close>

function (sequential) evict_loop :: "hash_fn \<Rightarrow> fs_env \<Rightarrow> disk_cache \<Rightarrow> disk_cache" where
  "evict_loop sha env c =
     (if bytes_used c \<le> max_bytes c then c
      else case lru c of
        [] \<Rightarrow> c
      | (s, key) # _ \<Rightarrow>
          let c1 = c\<lparr>lru := bt_remove s (lru c)\<rparr> in
          evict_loop sha env
            (case map_of (entries c1) key of
               None \<Rightarrow> c1
             | Some e \<Rightarrow>
                 c1\<lparr>entries := AList.delete key (entries c1),
                    files := fst (fs_remove env (cache_filename sha key) (files c1)),
                    bytes_used := bytes_used c1 - e_size e,
                    stats := (stats c1)\<lparr>evictions := u64_add (evictions (stats c1)) 1\<rparr>\<rparr>))"
  by pat_completeness auto
termination
proof (relation "measure (\<lambda>(sha, env, c). length (lru c))", goal_cases)
  case (2 sha env c p rest s key c1)
  have "length (bt_remove s ((s, key) # rest)) < length ((s, key) # rest)"
    by (simp add: bt_remove_def le_imp_less_Suc)
  with 2 show ?case by (auto split: option.splits)
qed simp

declare evict_loop.simps [simp del]

definition evict_if_needed :: "hash_fn \<Rightarrow> fs_env \<Rightarrow> disk_cache \<Rightarrow> disk_cache" where
  "evict_if_needed sha env c =
     (let c' = evict_loop sha env c in store_bytes_in_use (bytes_used c') c')"

text \<open>The file half of \<open>insert\<close>: write a temporary file, then rename it over the chunk's
  name. A failing system call ends it with that call's error and leaves what was written.\<close>

definition insert_file ::
  "hash_fn \<Rightarrow> nat \<Rightarrow> nat \<Rightarrow> insert_fault \<Rightarrow> chunk_key \<Rightarrow> bytes \<Rightarrow> disk_cache \<Rightarrow> unit result \<times> disk_cache"
where
  "insert_file sha pid nanos fault key data c =
     (let path = cache_filename sha key;
          tmp = tmp_name pid nanos (tmp_seq c);
          c1 = c\<lparr>tmp_seq := snd (rand_hex nanos (tmp_seq c))\<rparr> in
      case fault of
        CreateFails e \<Rightarrow> (Inl (Io e), c1)
      | WriteFails n e \<Rightarrow> (Inl (Io e), c1\<lparr>files := AList.update tmp (File (take n data)) (files c1)\<rparr>)
      | SyncFails e \<Rightarrow> (Inl (Io e), c1\<lparr>files := AList.update tmp (File data) (files c1)\<rparr>)
      | RenameFails e \<Rightarrow> (Inl (Io e), c1\<lparr>files := AList.update tmp (File data) (files c1)\<rparr>)
      | NoFault \<Rightarrow>
          let fs = AList.update tmp (File data) (files c1) in
          (Inr (), c1\<lparr>files := AList.update path (File data) (AList.delete tmp fs)\<rparr>))"

definition insert_entry :: "chunk_key \<Rightarrow> nat \<Rightarrow> disk_cache \<Rightarrow> disk_cache" where
  "insert_entry key n c =
     (let s = u64_add (seq c) 1;
          c1 = c\<lparr>seq := s, entries := AList.update key \<lparr>e_size = n, e_seq = s\<rparr> (entries c)\<rparr>;
          c2 = (case map_of (entries c) key of
                  Some prev \<Rightarrow> c1\<lparr>lru := bt_remove (e_seq prev) (lru c1),
                                   bytes_used := bytes_used c1 - e_size prev\<rparr>
                | None \<Rightarrow> c1);
          c3 = c2\<lparr>lru := bt_insert s key (lru c2), bytes_used := u64_add (bytes_used c2) n\<rparr> in
      store_bytes_in_use (bytes_used c3)
        (c3\<lparr>stats := (stats c3)\<lparr>inserts := u64_add (inserts (stats c3)) 1\<rparr>\<rparr>))"

definition insert_commit :: "hash_fn \<Rightarrow> fs_env \<Rightarrow> chunk_key \<Rightarrow> nat \<Rightarrow> disk_cache \<Rightarrow> disk_cache" where
  "insert_commit sha env key n c = evict_if_needed sha env (insert_entry key n c)"

definition insert_chunk ::
  "hash_fn \<Rightarrow> fs_env \<Rightarrow> nat \<Rightarrow> nat \<Rightarrow> insert_fault \<Rightarrow> chunk_key \<Rightarrow> bytes \<Rightarrow> disk_cache \<Rightarrow> unit result \<times> disk_cache"
where
  "insert_chunk sha env pid nanos fault key data c =
     (case insert_file sha pid nanos fault key data c of
        (Inl e, c') \<Rightarrow> (Inl e, c')
      | (Inr _, c') \<Rightarrow> (Inr (), insert_commit sha env key (length data) c'))"

section \<open>Removal, reconciliation, clearing\<close>

definition remove_file :: "hash_fn \<Rightarrow> fs_env \<Rightarrow> chunk_key \<Rightarrow> disk_cache \<Rightarrow> disk_cache" where
  "remove_file sha env key c = c\<lparr>files := fst (fs_remove env (cache_filename sha key) (files c))\<rparr>"

definition remove_entry :: "chunk_key \<Rightarrow> disk_cache \<Rightarrow> disk_cache" where
  "remove_entry key c =
     (case map_of (entries c) key of
        None \<Rightarrow> c
      | Some e \<Rightarrow>
          let b = bytes_used c - e_size e in
          store_bytes_in_use b
            (c\<lparr>entries := AList.delete key (entries c), lru := bt_remove (e_seq e) (lru c),
               bytes_used := b\<rparr>))"

definition remove_chunk :: "hash_fn \<Rightarrow> fs_env \<Rightarrow> chunk_key \<Rightarrow> disk_cache \<Rightarrow> unit result \<times> disk_cache" where
  "remove_chunk sha env key c = (Inr (), remove_entry key (remove_file sha env key c))"

definition missing_keys :: "hash_fn \<Rightarrow> fs_env \<Rightarrow> disk_cache \<Rightarrow> chunk_key list" where
  "missing_keys sha env c = filter (\<lambda>k. \<not> fs_exists env (files c) (cache_filename sha k)) (live_keys c)"

fun drop_missing :: "chunk_key list \<Rightarrow> disk_cache \<times> nat \<times> nat \<Rightarrow> disk_cache \<times> nat \<times> nat" where
  "drop_missing [] acc = acc"
| "drop_missing (k # ks) (c, dropped, reclaimed) =
     (case map_of (entries c) k of
        None \<Rightarrow> drop_missing ks (c, dropped, reclaimed)
      | Some e \<Rightarrow> drop_missing ks
          (c\<lparr>entries := AList.delete k (entries c), lru := bt_remove (e_seq e) (lru c),
             bytes_used := bytes_used c - e_size e\<rparr>,
           u64_add dropped 1, sat_add reclaimed (e_size e)))"

definition reconcile_drop :: "chunk_key list \<Rightarrow> disk_cache \<Rightarrow> (nat \<times> nat) \<times> disk_cache" where
  "reconcile_drop missing c =
     (let (c1, dropped, reclaimed) = drop_missing missing (c, 0, 0);
          c2 = store_bytes_in_use (bytes_used c1) c1 in
      ((dropped, reclaimed),
       c2\<lparr>stats := (stats c2)\<lparr>reconcile_drops := u64_add (reconcile_drops (stats c2)) dropped\<rparr>\<rparr>))"

definition reconcile_with_disk :: "hash_fn \<Rightarrow> fs_env \<Rightarrow> disk_cache \<Rightarrow> (nat \<times> nat) \<times> disk_cache" where
  "reconcile_with_disk sha env c =
     (let missing = missing_keys sha env c in
      if missing = [] then ((0, 0), c) else reconcile_drop missing c)"

fun clear_keys ::
  "hash_fn \<Rightarrow> fs_env \<Rightarrow> chunk_key list \<Rightarrow> disk_cache \<times> nat \<times> nat \<Rightarrow> disk_cache \<times> nat \<times> nat"
where
  "clear_keys sha env [] acc = acc"
| "clear_keys sha env (k # ks) (c, nfiles, nbytes) =
     (case map_of (entries c) k of
        None \<Rightarrow> clear_keys sha env ks (c, nfiles, nbytes)
      | Some e \<Rightarrow>
          let (fs, ok) = fs_remove env (cache_filename sha k) (files c) in
          clear_keys sha env ks
            (c\<lparr>entries := AList.delete k (entries c), files := fs, lru := bt_remove (e_seq e) (lru c)\<rparr>,
             if ok then u64_add nfiles 1 else nfiles,
             if ok then sat_add nbytes (e_size e) else nbytes))"

definition clear_locked :: "hash_fn \<Rightarrow> fs_env \<Rightarrow> disk_cache \<Rightarrow> (nat \<times> nat) \<times> disk_cache" where
  "clear_locked sha env c =
     (let (c1, nfiles, nbytes) = clear_keys sha env (live_keys c) (c, 0, 0) in
      ((nfiles, nbytes), store_bytes_in_use 0 (c1\<lparr>bytes_used := 0, lru := []\<rparr>)))"

definition sweep :: "fs_env \<Rightarrow> disk_cache \<Rightarrow> disk_cache" where
  "sweep env c = c\<lparr>files :=
     filter (\<lambda>(name, node). \<not> (can_stat env name \<and> node \<noteq> NonFile \<and> can_remove env name)) (files c)\<rparr>"

definition clear_all ::
  "hash_fn \<Rightarrow> fs_env \<Rightarrow> bool \<Rightarrow> disk_cache \<Rightarrow> (nat \<times> nat) result \<times> disk_cache"
where
  "clear_all sha env dir_readable c =
     (case clear_locked sha env c of (r, c') \<Rightarrow> (Inr r, if dir_readable then sweep env c' else c'))"

end
