(* ===== verification/CacheIndex.thy ===== *)
theory CacheIndex
  imports DiskCache
begin

text \<open>
  The accounting invariant of the disk cache's index and its preservation by every locked section
  of \<open>src/cache.rs\<close>. The invariant \<open>idx\<close> ties the four fields of \<open>Inner\<close> together: the
  recency map and the entry map describe the same keys, every sequence number is at most the clock,
  and the byte count is the sum of the tracked sizes.
\<close>

section \<open>The index invariant\<close>

definition idx :: "(chunk_key, dc_entry) hmap \<Rightarrow> (nat \<times> chunk_key) list \<Rightarrow> nat \<Rightarrow> nat \<Rightarrow> bool" where
  "idx es l s b \<longleftrightarrow>
     distinct (map fst es) \<and> bt_sorted l \<and>
     (\<forall>t k. (t, k) \<in> set l \<longleftrightarrow> (\<exists>e. map_of es k = Some e \<and> e_seq e = t)) \<and>
     (\<forall>p \<in> set l. fst p \<le> s) \<and> b = map_weight e_size es"

definition idx_inv :: "disk_cache \<Rightarrow> bool" where
  "idx_inv c = idx (entries c) (lru c) (seq c) (bytes_used c)"

definition cache_inv :: "disk_cache \<Rightarrow> bool" where
  "cache_inv c \<longleftrightarrow> idx_inv c \<and> bytes_in_use (stats c) = bytes_used c \<and> bytes_used c \<le> max_bytes c"

lemma idx_empty [simp]: "idx [] [] s 0"
  by (simp add: idx_def)

lemma idx_member: "idx es l s b \<Longrightarrow> (t, k) \<in> set l \<longleftrightarrow> (\<exists>e. map_of es k = Some e \<and> e_seq e = t)"
  by (auto simp: idx_def)

lemma idx_entry: "idx es l s b \<Longrightarrow> map_of es k = Some e \<Longrightarrow> (e_seq e, k) \<in> set l"
  by (auto simp: idx_def)

lemma idx_le: "idx es l s b \<Longrightarrow> p \<in> set l \<Longrightarrow> fst p \<le> s"
  by (auto simp: idx_def)

lemma idx_bytes: "idx es l s b \<Longrightarrow> b = map_weight e_size es"
  by (simp add: idx_def)

lemma idx_size_le: "idx es l s b \<Longrightarrow> map_of es k = Some e \<Longrightarrow> e_size e \<le> b"
  by (auto simp: idx_def intro: map_weight_ge)

text \<open>Two entries of the recency map with the same sequence number are one entry.\<close>

lemma idx_seq_unique:
  assumes "idx es l s b" "(t, k) \<in> set l" "(t, k') \<in> set l"
  shows "k = k'"
proof -
  have "distinct (map fst l)" using assms(1) by (simp add: idx_def bt_sorted_distinct)
  with assms(2,3) show ?thesis by (metis map_of_is_SomeI option.inject)
qed

lemma idx_delete:
  assumes inv: "idx es l s b" and e: "map_of es k = Some e"
  shows "idx (AList.delete k es) (bt_remove (e_seq e) l) s (b - e_size e)"
proof -
  have "(t, k') \<in> set (bt_remove (e_seq e) l) \<longleftrightarrow>
      (\<exists>e'. map_of (AList.delete k es) k' = Some e' \<and> e_seq e' = t)" for t k'
    using idx_member [OF inv] idx_seq_unique [OF inv] idx_entry [OF inv e] e
    by (auto simp: set_bt_remove map_simps)
  moreover have "b - e_size e = map_weight e_size (AList.delete k es)"
    using map_weight_delete [of es k e e_size] e inv by (simp add: idx_def)
  moreover have "distinct (map fst (AList.delete k es))" "bt_sorted (bt_remove (e_seq e) l)"
    using inv by (auto simp: idx_def bt_sorted_remove intro: distinct_keys_delete)
  ultimately show ?thesis
    using idx_le [OF inv] by (auto simp: idx_def set_bt_remove)
qed

lemma idx_push:
  assumes inv: "idx es l s b" and fresh: "map_of es k = None" and "s < s'"
  shows "idx (AList.update k \<lparr>e_size = n, e_seq = s'\<rparr> es) (bt_insert s' k l) s' (b + n)"
proof -
  have new: "bt_insert s' k l = l @ [(s', k)]"
    using idx_le [OF inv] \<open>s < s'\<close> by (intro bt_insert_last) fastforce
  have "(t, k') \<in> set (bt_insert s' k l) \<longleftrightarrow>
      (\<exists>e'. map_of (AList.update k \<lparr>e_size = n, e_seq = s'\<rparr> es) k' = Some e' \<and> e_seq e' = t)" for t k'
    using idx_member [OF inv] fresh by (auto simp: new map_simps)
  moreover have "distinct (map fst (AList.update k \<lparr>e_size = n, e_seq = s'\<rparr> es))"
      "bt_sorted (bt_insert s' k l)"
    using inv by (auto simp: idx_def bt_sorted_insert intro: distinct_keys_update)
  moreover have "fst p \<le> s'" if "p \<in> set (bt_insert s' k l)" for p
    using that idx_le [OF inv, of p] \<open>s < s'\<close> by (auto simp: new)
  ultimately show ?thesis
    using idx_bytes [OF inv] map_weight_update_new [OF fresh, of e_size "\<lparr>e_size = n, e_seq = s'\<rparr>"]
    by (auto simp: idx_def)
qed

text \<open>\<open>idx\<close> sees the entry map only through its lookups and the distinctness of its keys, so
  overwriting an entry in place is deleting it and adding the new one.\<close>

lemma idx_cong:
  assumes "idx es l s b" "map_of fs = map_of es" "distinct (map fst fs)"
  shows "idx fs l s b"
proof -
  have "set fs = set es"
    using assms by (metis (no_types, lifting) idx_def map_of_inject_set)
  moreover have "distinct es" "distinct fs" using assms by (auto simp: idx_def distinct_map)
  ultimately have "map_weight e_size fs = map_weight e_size es"
    by (simp add: map_weight_def sum_list_distinct_conv_sum_set)
  with assms show ?thesis by (simp add: idx_def)
qed

lemma idx_replace:
  assumes inv: "idx es l s b" and e: "map_of es k = Some e" and "s < s'"
  shows "idx (AList.update k \<lparr>e_size = n, e_seq = s'\<rparr> es) (bt_insert s' k (bt_remove (e_seq e) l)) s'
           (b - e_size e + n)"
proof (rule idx_cong)
  show "idx (AList.update k \<lparr>e_size = n, e_seq = s'\<rparr> (AList.delete k es))
      (bt_insert s' k (bt_remove (e_seq e) l)) s' (b - e_size e + n)"
    using idx_push [OF idx_delete [OF inv e] _ \<open>s < s'\<close>] by (simp add: map_simps)
  show "map_of (AList.update k \<lparr>e_size = n, e_seq = s'\<rparr> es) =
      map_of (AList.update k \<lparr>e_size = n, e_seq = s'\<rparr> (AList.delete k es))"
    by (auto simp: map_simps)
  show "distinct (map fst (AList.update k \<lparr>e_size = n, e_seq = s'\<rparr> es))"
    using inv by (auto simp: idx_def intro: distinct_keys_update)
qed

lemma idx_head:
  assumes "idx es ((t, k) # l) s b"
  obtains e where "map_of es k = Some e" "e_seq e = t" "bt_remove t ((t, k) # l) = l"
  using assms idx_member [OF assms, of t k] by (auto simp: idx_def bt_remove_head)

lemma idx_lru_Nil: "idx es [] s b \<Longrightarrow> b = 0"
  by (cases es) (auto simp: idx_def split: if_splits)

section \<open>Preservation\<close>

lemma entry_touched: "(e :: dc_entry)\<lparr>e_seq := s\<rparr> = \<lparr>e_size = e_size e, e_seq = s\<rparr>"
  by (cases e) simp

lemma touch_idx:
  assumes "idx_inv c" "seq c + 1 < 2 ^ 64"
  shows "idx_inv (snd (touch_lru key c))"
proof (cases "map_of (entries c) key")
  case None
  with assms show ?thesis by (simp add: touch_lru_def count_miss_def idx_inv_def)
next
  case (Some e)
  from idx_replace [of "entries c" "lru c" "seq c" "bytes_used c" key e "seq c + 1" "e_size e"] assms Some
    idx_size_le [of "entries c" "lru c" "seq c" "bytes_used c" key e]
  show ?thesis by (simp add: touch_lru_def idx_inv_def u64_add_small entry_touched)
qed

lemma touch_frame [simp]:
  "bytes_used (snd (touch_lru key c)) = bytes_used c"
  "max_bytes (snd (touch_lru key c)) = max_bytes c"
  "bytes_in_use (stats (snd (touch_lru key c))) = bytes_in_use (stats c)"
  "files (snd (touch_lru key c)) = files c"
  by (simp_all add: touch_lru_def count_miss_def Let_def split: option.splits)

lemma insert_entry_idx:
  assumes "idx_inv c" "seq c + 1 < 2 ^ 64" "bytes_used c + n < 2 ^ 64"
  shows "idx_inv (insert_entry key n c)"
proof (cases "map_of (entries c) key")
  case None
  with assms idx_push [of "entries c" "lru c" "seq c" "bytes_used c" key "seq c + 1" n]
  show ?thesis by (simp add: insert_entry_def idx_inv_def store_bytes_in_use_def u64_add_small Let_def)
next
  case (Some e)
  with assms idx_replace [of "entries c" "lru c" "seq c" "bytes_used c" key e "seq c + 1" n]
  show ?thesis by (simp add: insert_entry_def idx_inv_def store_bytes_in_use_def u64_add_small Let_def)
qed

lemma insert_entry_frame [simp]:
  "max_bytes (insert_entry key n c) = max_bytes c"
  "files (insert_entry key n c) = files c"
  "tmp_seq (insert_entry key n c) = tmp_seq c"
  "seq (insert_entry key n c) = u64_add (seq c) 1"
  by (auto simp: insert_entry_def store_bytes_in_use_def Let_def split: option.splits)

text \<open>One iteration of the eviction loop, on a state with the invariant.\<close>

definition evict_one :: "hash_fn \<Rightarrow> fs_env \<Rightarrow> chunk_key \<Rightarrow> dc_entry \<Rightarrow> disk_cache \<Rightarrow> disk_cache" where
  "evict_one sha env key e c =
     c\<lparr>lru := tl (lru c), entries := AList.delete key (entries c),
       files := fst (fs_remove env (cache_filename sha key) (files c)),
       bytes_used := bytes_used c - e_size e,
       stats := (stats c)\<lparr>evictions := u64_add (evictions (stats c)) 1\<rparr>\<rparr>"

lemma evict_loop_step:
  assumes "idx_inv c" "lru c = (t, key) # l" "max_bytes c < bytes_used c"
  obtains e where "map_of (entries c) key = Some e" "e_seq e = t"
    "evict_loop sha env c = evict_loop sha env (evict_one sha env key e c)"
    "idx_inv (evict_one sha env key e c)"
proof -
  from assms(1,2) have inv: "idx (entries c) ((t, key) # l) (seq c) (bytes_used c)"
    by (simp add: idx_inv_def)
  then obtain e where e: "map_of (entries c) key = Some e" "e_seq e = t" "bt_remove t ((t, key) # l) = l"
    by (rule idx_head)
  have "evict_loop sha env c = evict_loop sha env (evict_one sha env key e c)"
    using assms(2,3) e by (subst evict_loop.simps) (simp add: evict_one_def Let_def)
  moreover have "idx_inv (evict_one sha env key e c)"
    using idx_delete [OF inv e(1)] e assms(2) by (simp add: idx_inv_def evict_one_def)
  ultimately show ?thesis using that e by blast
qed

lemma evict_loop_done:
  "bytes_used c \<le> max_bytes c \<Longrightarrow> evict_loop sha env c = c"
  "lru c = [] \<Longrightarrow> evict_loop sha env c = c"
  by (subst evict_loop.simps, simp)+

text \<open>Induction over the eviction loop for states with the invariant.\<close>

lemma evict_induct [consumes 1, case_names fits step]:
  assumes "idx_inv c"
    and "\<And>c. idx_inv c \<Longrightarrow> bytes_used c \<le> max_bytes c \<Longrightarrow> P c"
    and "\<And>c t key l e. idx_inv c \<Longrightarrow> max_bytes c < bytes_used c \<Longrightarrow> lru c = (t, key) # l \<Longrightarrow>
          map_of (entries c) key = Some e \<Longrightarrow> e_seq e = t \<Longrightarrow> idx_inv (evict_one sha env key e c) \<Longrightarrow>
          evict_loop sha env c = evict_loop sha env (evict_one sha env key e c) \<Longrightarrow>
          P (evict_one sha env key e c) \<Longrightarrow> P c"
  shows "P c"
  using assms(1)
proof (induction "length (lru c)" arbitrary: c rule: less_induct)
  case less
  show ?case
  proof (cases "bytes_used c \<le> max_bytes c")
    case True
    with assms(2) less.prems show ?thesis by blast
  next
    case False
    have "lru c \<noteq> []"
      using False less.prems idx_lru_Nil [of "entries c" "seq c" "bytes_used c"] by (auto simp: idx_inv_def)
    then obtain t key l where l: "lru c = (t, key) # l" by (cases "lru c") auto
    from evict_loop_step [OF less.prems l] False obtain e where
      "map_of (entries c) key = Some e" "e_seq e = t" "idx_inv (evict_one sha env key e c)"
      "evict_loop sha env c = evict_loop sha env (evict_one sha env key e c)"
      by (metis not_le)
    moreover have "P (evict_one sha env key e c)"
      using less.hyps calculation(3) l by (simp add: evict_one_def)
    ultimately show ?thesis using assms(3) less.prems l False by (metis not_le)
  qed
qed

lemma evict_one_frame [simp]:
  "max_bytes (evict_one sha env key e c) = max_bytes c"
  "seq (evict_one sha env key e c) = seq c"
  "tmp_seq (evict_one sha env key e c) = tmp_seq c"
  by (simp_all add: evict_one_def)

lemma evict_loop_idx:
  "idx_inv c \<Longrightarrow> idx_inv (evict_loop sha env c) \<and> bytes_used (evict_loop sha env c) \<le> max_bytes c"
proof (induction rule: evict_induct [where sha = sha and env = env])
  case (fits c)
  then show ?case by (simp add: evict_loop_done)
next
  case (step c t key l e)
  then show ?case by simp
qed

lemma evict_loop_frame:
  "idx_inv c \<Longrightarrow> max_bytes (evict_loop sha env c) = max_bytes c \<and> seq (evict_loop sha env c) = seq c
     \<and> tmp_seq (evict_loop sha env c) = tmp_seq c"
proof (induction rule: evict_induct [where sha = sha and env = env])
  case (fits c)
  then show ?case by (simp add: evict_loop_done)
next
  case (step c t key l e)
  then show ?case by simp
qed

lemma evict_if_needed_inv:
  "idx_inv c \<Longrightarrow> cache_inv (evict_if_needed sha env c)"
  using evict_loop_idx [of c sha env] evict_loop_frame [of c sha env]
  by (simp add: evict_if_needed_def cache_inv_def store_bytes_in_use_def idx_inv_def Let_def)

lemma insert_commit_inv:
  assumes "cache_inv c" "seq c + 1 < 2 ^ 64" "max_bytes c + n < 2 ^ 64"
  shows "cache_inv (insert_commit sha env key n c)"
  unfolding insert_commit_def
  using assms by (intro evict_if_needed_inv insert_entry_idx) (auto simp: cache_inv_def)

lemma touch_inv: "cache_inv c \<Longrightarrow> seq c + 1 < 2 ^ 64 \<Longrightarrow> cache_inv (snd (touch_lru key c))"
  by (simp add: cache_inv_def touch_idx)

lemma remove_entry_inv: "cache_inv c \<Longrightarrow> cache_inv (remove_entry key c)"
  using idx_delete [of "entries c" "lru c" "seq c" "bytes_used c" key]
  by (auto simp: remove_entry_def cache_inv_def idx_inv_def store_bytes_in_use_def Let_def split: option.splits)

lemma drop_missing_idx:
  "idx_inv c \<Longrightarrow> drop_missing ks (c, d, r) = (c', d', r') \<Longrightarrow>
   idx_inv c' \<and> bytes_used c' \<le> bytes_used c \<and> max_bytes c' = max_bytes c \<and> seq c' = seq c
     \<and> files c' = files c \<and> tmp_seq c' = tmp_seq c"
proof (induction ks arbitrary: c d r)
  case (Cons k ks)
  show ?case
  proof (cases "map_of (entries c) k")
    case None
    with Cons show ?thesis by simp
  next
    case (Some e)
    let ?c = "c\<lparr>entries := AList.delete k (entries c), lru := bt_remove (e_seq e) (lru c),
      bytes_used := bytes_used c - e_size e\<rparr>"
    have "idx_inv ?c" using idx_delete Cons.prems(1) Some by (simp add: idx_inv_def)
    from Cons.IH [OF this] Cons.prems(2) Some show ?thesis by fastforce
  qed
qed simp

lemma reconcile_drop_inv:
  assumes "cache_inv c"
  shows "cache_inv (snd (reconcile_drop ks c))"
proof -
  obtain c1 d r where run: "drop_missing ks (c, 0, 0) = (c1, d, r)" by (metis prod_cases3)
  from drop_missing_idx [OF _ run] assms have "idx_inv c1" "bytes_used c1 \<le> max_bytes c1"
    by (auto simp: cache_inv_def)
  with run show ?thesis
    by (simp add: reconcile_drop_def cache_inv_def store_bytes_in_use_def idx_inv_def)
qed

lemma clear_keys_entries:
  "clear_keys sha env ks (c, a, b) = (c', a', b') \<Longrightarrow>
   set (entries c') = {p \<in> set (entries c). fst p \<notin> set ks} \<and> max_bytes c' = max_bytes c \<and> seq c' = seq c
     \<and> tmp_seq c' = tmp_seq c"
proof (induction ks arbitrary: c a b)
  case (Cons k ks)
  show ?case
  proof (cases "map_of (entries c) k")
    case None
    then have k: "k \<notin> fst ` set (entries c)" by (simp add: map_of_eq_None_iff)
    from Cons.prems None have "clear_keys sha env ks (c, a, b) = (c', a', b')" by simp
    from Cons.IH [OF this] k show ?thesis by auto
  next
    case (Some e)
    obtain fs ok where r: "fs_remove env (cache_filename sha k) (files c) = (fs, ok)" by force
    let ?c = "c\<lparr>entries := AList.delete k (entries c), files := fs, lru := bt_remove (e_seq e) (lru c)\<rparr>"
    from Cons.prems Some r have "clear_keys sha env ks (?c, if ok then u64_add a 1 else a,
        if ok then sat_add b (e_size e) else b) = (c', a', b')" by simp
    from Cons.IH [OF this] show ?thesis by (auto simp: AList.delete_eq)
  qed
qed auto

lemma clear_locked_inv: "cache_inv (snd (clear_locked sha env c))"
proof -
  obtain c1 a b where r: "clear_keys sha env (live_keys c) (c, 0, 0) = (c1, a, b)"
    by (metis prod_cases3)
  with clear_keys_entries [OF r] have "set (entries c1) = {}" by (auto simp: live_keys_def)
  with r show ?thesis
    by (simp add: clear_locked_def cache_inv_def idx_inv_def store_bytes_in_use_def)
qed

lemma file_sections_inv [simp]:
  "cache_inv (remove_file sha env key c) = cache_inv c"
  "cache_inv (sweep env c) = cache_inv c"
  "cache_inv (snd (insert_file sha pid nanos fault key data c)) = cache_inv c"
  "cache_inv (count_hit c) = cache_inv c"
  "cache_inv (count_miss c) = cache_inv c"
  by (auto simp: remove_file_def sweep_def insert_file_def count_hit_def count_miss_def cache_inv_def
      idx_inv_def Let_def split: insert_fault.splits)

end
