(* ===== verification/CacheRefine.thy ===== *)
theory CacheRefine
  imports CacheIndex
begin

text \<open>
  What the disk cache promises, stated against an abstract recency list: a list of keys and sizes,
  least recently used first. Reads move a key to the end, inserts append it and then drop the
  shortest prefix that brings the total within the budget. The locked sections of
  \<open>src/cache.rs\<close> refine these operations exactly.
\<close>

section \<open>The abstract cache\<close>

type_synonym recency = "(chunk_key \<times> nat) list"

definition total :: "recency \<Rightarrow> nat" where
  "total r = (\<Sum>p\<leftarrow>r. snd p)"

definition spec_drop :: "chunk_key \<Rightarrow> recency \<Rightarrow> recency" where
  "spec_drop k r = filter (\<lambda>p. fst p \<noteq> k) r"

definition spec_touch :: "chunk_key \<Rightarrow> recency \<Rightarrow> recency" where
  "spec_touch k r = (case map_of r k of None \<Rightarrow> r | Some n \<Rightarrow> spec_drop k r @ [(k, n)])"

fun spec_evict :: "nat \<Rightarrow> recency \<Rightarrow> recency" where
  "spec_evict cap [] = []"
| "spec_evict cap (p # r) = (if total (p # r) \<le> cap then p # r else spec_evict cap r)"

definition spec_insert :: "nat \<Rightarrow> chunk_key \<Rightarrow> nat \<Rightarrow> recency \<Rightarrow> recency" where
  "spec_insert cap k n r = spec_evict cap (spec_drop k r @ [(k, n)])"

text \<open>The abstraction function: the recency map with the tracked sizes.\<close>

definition size_in :: "(chunk_key, dc_entry) hmap \<Rightarrow> chunk_key \<Rightarrow> nat" where
  "size_in es k = (case map_of es k of Some e \<Rightarrow> e_size e | None \<Rightarrow> 0)"

definition recency_of :: "disk_cache \<Rightarrow> recency" where
  "recency_of c = map (\<lambda>(t, k). (k, size_in (entries c) k)) (lru c)"

section \<open>Lemmas on the abstract cache\<close>

lemma total_simps [simp]: "total [] = 0" "total (p # r) = snd p + total r" "total (r @ r') = total r + total r'"
  by (simp_all add: total_def)

lemma spec_evict_suffix: "\<exists>i. spec_evict cap r = drop i r"
proof (induction r)
  case (Cons p r)
  then obtain i where "spec_evict cap r = drop i r" by blast
  then show ?case by (cases "total (p # r) \<le> cap") (auto intro: exI [of _ 0] exI [of _ "Suc i"])
qed simp

lemma spec_evict_fits: "total (spec_evict cap r) \<le> cap"
  by (induction r) auto

lemma spec_evict_id: "total r \<le> cap \<Longrightarrow> spec_evict cap r = r"
  by (cases r) auto

text \<open>Eviction keeps the longest suffix that fits: a suffix within the budget survives whole.\<close>

lemma spec_evict_longest:
  "total (drop i r) \<le> cap \<Longrightarrow> length (drop i r) \<le> length (spec_evict cap r)"
proof (induction r arbitrary: i)
  case (Cons p r)
  then show ?case by (cases i) (auto simp: le_SucI)
qed simp

lemma spec_evict_last: "n \<le> cap \<Longrightarrow> (k, n) \<in> set (spec_evict cap (r @ [(k, n)]))"
  by (induction r) auto

section \<open>Refinement of the index operations\<close>

text \<open>The recency map lists every tracked key once.\<close>

lemma lru_keys_distinct:
  assumes "idx es l s b"
  shows "distinct (map snd l)"
proof -
  have "inj_on snd (set l)"
  proof (rule inj_onI)
    fix p q assume "p \<in> set l" "q \<in> set l" "snd p = snd q"
    then show "p = q"
      using idx_member [OF assms, of "fst p" "snd p"] idx_member [OF assms, of "fst q" "snd q"]
      by (metis option.inject prod.collapse)
  qed
  moreover have "distinct l" using assms by (metis bt_sorted_distinct distinct_map idx_def)
  ultimately show ?thesis by (simp add: distinct_map)
qed

lemma lru_keys_set: "idx es l s b \<Longrightarrow> snd ` set l = fst ` set es"
proof -
  assume inv: "idx es l s b"
  have "k \<in> snd ` set l \<longleftrightarrow> map_of es k \<noteq> None" for k
    using idx_member [OF inv] by force
  then show ?thesis by (auto simp: map_of_eq_None_iff)
qed

lemma recency_total:
  assumes inv: "idx es l s b"
  shows "(\<Sum>p\<leftarrow>l. size_in es (snd p)) = b"
proof -
  have d: "distinct (map fst es)" using inv by (simp add: idx_def)
  have "(\<Sum>p\<leftarrow>l. size_in es (snd p)) = (\<Sum>k\<leftarrow>map snd l. size_in es k)" by (simp add: comp_def)
  also have "\<dots> = (\<Sum>k \<in> fst ` set es. size_in es k)"
    using lru_keys_distinct [OF inv] lru_keys_set [OF inv]
    by (simp only: sum_list_distinct_conv_sum_set) simp
  also have "\<dots> = (\<Sum>k\<leftarrow>map fst es. size_in es k)"
    using d by (simp only: sum_list_distinct_conv_sum_set) simp
  also have "\<dots> = (\<Sum>p\<leftarrow>es. e_size (snd p))"
    using d by (auto simp: comp_def size_in_def intro!: arg_cong [where f = sum_list] map_cong)
  finally show ?thesis using inv by (simp add: idx_def map_weight_def)
qed

lemma total_recency: "idx_inv c \<Longrightarrow> total (recency_of c) = bytes_used c"
  using recency_total [of "entries c" "lru c" "seq c" "bytes_used c"]
  by (simp add: recency_of_def total_def idx_inv_def comp_def case_prod_beta)

lemma fst_recency: "map fst (recency_of c) = map snd (lru c)"
  by (simp add: recency_of_def comp_def case_prod_beta)

lemma size_in_other: "k' \<noteq> k \<Longrightarrow> size_in (AList.delete k es) k' = size_in es k'"
    "k' \<noteq> k \<Longrightarrow> size_in (AList.update k e es) k' = size_in es k'"
    "size_in (AList.update k e es) k = e_size e"
  by (simp_all add: size_in_def map_simps)

text \<open>Dropping a key's sequence number from the recency map drops the key.\<close>

lemma bt_remove_key:
  assumes inv: "idx es l s b" and e: "map_of es k = Some e"
  shows "bt_remove (e_seq e) l = filter (\<lambda>p. snd p \<noteq> k) l"
proof -
  have "fst p \<noteq> e_seq e \<longleftrightarrow> snd p \<noteq> k" if "p \<in> set l" for p
    using that idx_member [OF inv, of "fst p" "snd p"] idx_seq_unique [OF inv, of "e_seq e" k "snd p"]
      idx_entry [OF inv e] e by (metis option.inject prod.collapse)
  then show ?thesis unfolding bt_remove_def by (intro filter_cong) auto
qed

lemma recency_filter:
  assumes "\<And>k'. k' \<noteq> k \<Longrightarrow> size_in fs k' = size_in es k'"
  shows "map (\<lambda>(t, k'). (k', size_in fs k')) (filter (\<lambda>p. snd p \<noteq> k) l) =
         spec_drop k (map (\<lambda>(t, k'). (k', size_in es k')) l)"
  using assms by (induction l) (auto simp: spec_drop_def)

lemma map_of_recency:
  assumes "idx_inv c"
  shows "map_of (recency_of c) k = map_option e_size (map_of (entries c) k)"
proof (cases "map_of (entries c) k")
  case None
  then have "k \<notin> fst ` set (recency_of c)"
    using lru_keys_set [of "entries c" "lru c"] assms
    by (simp add: idx_inv_def fst_recency [symmetric] map_of_eq_None_iff flip: set_map)
  then have "map_of (recency_of c) k = None" by (simp add: map_of_eq_None_iff)
  with None show ?thesis by simp
next
  case (Some e)
  then have "(k, e_size e) \<in> set (recency_of c)"
    using idx_entry assms by (force simp: recency_of_def size_in_def idx_inv_def)
  moreover have "distinct (map fst (recency_of c))"
    using lru_keys_distinct assms by (simp add: fst_recency idx_inv_def)
  ultimately show ?thesis using Some by simp
qed

lemma bt_insert_newest:
  "idx es l s b \<Longrightarrow> s < s' \<Longrightarrow> bt_insert s' k (filter P l) = filter P l @ [(s', k)]"
  by (rule bt_insert_last) (auto dest: idx_le)

text \<open>Overwriting a key's entry with a fresh sequence number moves it to the end.\<close>

lemma recency_push:
  assumes "idx es l s b" "s < s'"
    and "l' = (case map_of es k0 of None \<Rightarrow> l | Some e \<Rightarrow> bt_remove (e_seq e) l)"
  shows "map (\<lambda>(t, k). (k, size_in (AList.update k0 \<lparr>e_size = n, e_seq = s'\<rparr> es) k)) (bt_insert s' k0 l') =
         spec_drop k0 (map (\<lambda>(t, k). (k, size_in es k)) l) @ [(k0, n)]"
proof -
  have l': "l' = filter (\<lambda>p. snd p \<noteq> k0) l"
  proof (cases "map_of es k0")
    case None
    then have "k0 \<notin> snd ` set l" using lru_keys_set [OF assms(1)] by (simp add: map_of_eq_None_iff)
    then have "filter (\<lambda>p. snd p \<noteq> k0) l = l" by (force simp: filter_id_conv)
    with None assms(3) show ?thesis by simp
  next
    case (Some e)
    with assms(3) bt_remove_key [OF assms(1)] show ?thesis by simp
  qed
  have ins: "bt_insert s' k0 l' = filter (\<lambda>p. snd p \<noteq> k0) l @ [(s', k0)]"
    unfolding l' using assms(1,2) by (rule bt_insert_newest)
  show ?thesis
    using recency_filter [of k0 "AList.update k0 \<lparr>e_size = n, e_seq = s'\<rparr> es" es l]
    unfolding ins by (simp add: size_in_other)
qed

lemma touch_refines:
  assumes "idx_inv c" "seq c + 1 < 2 ^ 64"
  shows "recency_of (snd (touch_lru key c)) = spec_touch key (recency_of c)"
proof (cases "map_of (entries c) key")
  case None
  with map_of_recency [OF assms(1), of key] show ?thesis
    by (simp add: touch_lru_def spec_touch_def recency_of_def count_miss_def)
next
  case (Some e)
  with recency_push [of "entries c" "lru c" "seq c" "bytes_used c" "Suc (seq c)" "bt_remove (e_seq e) (lru c)" key "e_size e"]
    map_of_recency [OF assms(1), of key] assms
  show ?thesis
    by (simp add: touch_lru_def spec_touch_def recency_of_def u64_add_small entry_touched idx_inv_def)
qed

lemma insert_entry_refines:
  assumes "idx_inv c" "seq c + 1 < 2 ^ 64"
  shows "recency_of (insert_entry key n c) = spec_drop key (recency_of c) @ [(key, n)]"
  using recency_push [of "entries c" "lru c" "seq c" "bytes_used c" "Suc (seq c)"
      "case map_of (entries c) key of None \<Rightarrow> lru c | Some e \<Rightarrow> bt_remove (e_seq e) (lru c)" key n] assms
  by (cases "map_of (entries c) key")
    (simp_all add: insert_entry_def recency_of_def store_bytes_in_use_def u64_add_small idx_inv_def Let_def)

lemma evict_loop_refines:
  "idx_inv c \<Longrightarrow> recency_of (evict_loop sha env c) = spec_evict (max_bytes c) (recency_of c)"
proof (induction rule: evict_induct [where sha = sha and env = env])
  case (fits c)
  then show ?case by (simp add: evict_loop_done spec_evict_id total_recency)
next
  case (step c t key l e)
  have "key \<notin> snd ` set l"
    using lru_keys_distinct [of "entries c" "lru c" "seq c" "bytes_used c"] step by (simp add: idx_inv_def)
  then have "recency_of (evict_one sha env key e c) = tl (recency_of c)"
    using step(3) by (auto simp: recency_of_def evict_one_def size_in_other image_iff intro!: map_cong)
  moreover have "\<not> total (recency_of c) \<le> max_bytes c" "recency_of c \<noteq> []"
    using step total_recency [of c] by (auto simp: recency_of_def)
  ultimately show ?case using step by (cases "recency_of c") auto
qed

lemma insert_commit_refines:
  assumes "idx_inv c" "seq c + 1 < 2 ^ 64" "bytes_used c + n < 2 ^ 64"
  shows "recency_of (insert_commit sha env key n c) = spec_insert (max_bytes c) key n (recency_of c)"
  using evict_loop_refines [OF insert_entry_idx [OF assms], of sha env key] insert_entry_refines [OF assms(1,2)]
  by (simp add: insert_commit_def evict_if_needed_def spec_insert_def Let_def recency_of_def store_bytes_in_use_def)

lemma remove_entry_refines:
  assumes "idx_inv c"
  shows "recency_of (remove_entry key c) = spec_drop key (recency_of c)"
proof (cases "map_of (entries c) key")
  case None
  then have "map_of (recency_of c) key = None" by (simp add: map_of_recency assms)
  then have "spec_drop key (recency_of c) = recency_of c"
    by (force simp: spec_drop_def filter_id_conv map_of_eq_None_iff)
  with None show ?thesis by (simp add: remove_entry_def)
next
  case (Some e)
  with recency_filter [of key "AList.delete key (entries c)" "entries c" "lru c"]
    bt_remove_key [of "entries c" "lru c" "seq c" "bytes_used c" key e] assms
  show ?thesis
    by (simp add: remove_entry_def recency_of_def store_bytes_in_use_def Let_def size_in_other idx_inv_def)
qed

end
