(* ===== verification/ChunkStore.thy ===== *)
theory ChunkStore
  imports ChunkKey
begin

text \<open>
  The contract the fetcher relies on for every store of chunks it consults (the disk cache of
  \<open>src/cache.rs\<close> and the in-memory peer LRU of \<open>src/fetcher.rs\<close>). A store may forget chunks
  at any time, but while only genuine chunk contents are put into it for the keys \<open>K\<close>, a lookup of
  such a key never returns anything else.
\<close>

locale chunk_store =
  fixes get :: "chunk_key \<Rightarrow> 's \<Rightarrow> bytes option \<times> 's"
    and put :: "chunk_key \<Rightarrow> bytes \<Rightarrow> 's \<Rightarrow> 's"
    and ok :: "(chunk_key \<Rightarrow> bytes) \<Rightarrow> chunk_key set \<Rightarrow> 's \<Rightarrow> bool"
  assumes get_sound: "ok content K s \<Longrightarrow> k \<in> K \<Longrightarrow> get k s = (Some d, s') \<Longrightarrow> d = content k"
    and get_ok: "ok content K s \<Longrightarrow> ok content K (snd (get k s))"
    and put_ok: "ok content K s \<Longrightarrow> k \<in> K \<Longrightarrow> ok content K (put k (content k) s)"
begin

text \<open>What the fetcher uses: a lookup keeps the store sound, and its answer is genuine.\<close>

lemma get_genuine:
  assumes "ok content K s" "k \<in> K" "get k s = (r, s')"
  shows "(r = None \<or> r = Some (content k)) \<and> ok content K s'"
  using get_sound [OF assms(1,2)] get_ok [OF assms(1), of k] assms(3) by (cases r) auto

text \<open>Storing a batch of genuine chunks keeps the store sound, in any order.\<close>

lemma puts_ok:
  "ok content K s \<Longrightarrow> set ks \<subseteq> K \<Longrightarrow> ok content K (fold (\<lambda>k. put k (content k)) ks s)"
  by (induction ks arbitrary: s) (auto intro: put_ok)

end

end
