(* ===== verification/CacheProps.thy ===== *)
theory CacheProps
  imports CacheRefine ChunkStore
begin

text \<open>
  The properties of the disk cache of \<open>src/cache.rs\<close>: accounting under every interleaving of its
  sections, the least-recently-used contract, the round trip of an insert and a lookup, the
  coherence of its files with the chunk contents, and what reconciliation and clearing leave.
\<close>

section \<open>Interleavings\<close>

text \<open>One atomic section of some thread's operation. \<open>Disk\<close> is a change of the directory made
  outside the daemon.\<close>

datatype cache_step =
    InsertFile nat nat insert_fault chunk_key bytes
  | InsertCommit chunk_key nat
  | Touch chunk_key
  | Hit
  | Miss
  | RemoveFile chunk_key
  | RemoveEntry chunk_key
  | ReconcileDrop "chunk_key list"
  | ClearLocked
  | Sweep
  | Disk "(string, fnode) hmap"

fun exec :: "hash_fn \<Rightarrow> fs_env \<times> cache_step \<Rightarrow> disk_cache \<Rightarrow> disk_cache" where
  "exec sha (env, InsertFile pid nanos fault key data) c = snd (insert_file sha pid nanos fault key data c)"
| "exec sha (env, InsertCommit key n) c = insert_commit sha env key n c"
| "exec sha (env, Touch key) c = snd (touch_lru key c)"
| "exec sha (env, Hit) c = count_hit c"
| "exec sha (env, Miss) c = count_miss c"
| "exec sha (env, RemoveFile key) c = remove_file sha env key c"
| "exec sha (env, RemoveEntry key) c = remove_entry key c"
| "exec sha (env, ReconcileDrop ks) c = snd (reconcile_drop ks c)"
| "exec sha (env, ClearLocked) c = snd (clear_locked sha env c)"
| "exec sha (env, Sweep) c = sweep env c"
| "exec sha (env, Disk fs) c = c\<lparr>files := fs\<rparr>"

definition exec_all :: "hash_fn \<Rightarrow> (fs_env \<times> cache_step) list \<Rightarrow> disk_cache \<Rightarrow> disk_cache" where
  "exec_all sha steps c = fold (exec sha) steps c"

fun step_ok :: "nat \<Rightarrow> fs_env \<times> cache_step \<Rightarrow> bool" where
  "step_ok cap (_, InsertCommit _ n) = (cap + n < 2 ^ 64)"
| "step_ok cap _ = True"

lemma exec_all_simps [simp]:
  "exec_all sha [] c = c" "exec_all sha (p # ps) c = exec_all sha ps (exec sha p c)"
  by (simp_all add: exec_all_def)

text \<open>Every public operation is a sequence of sections.\<close>

lemma try_get_sections:
  "\<exists>steps. length steps \<le> 2 \<and> snd (try_get sha env key c) = exec_all sha (map (Pair env) steps) c
     \<and> list_all (step_ok cap) (map (Pair env) steps)"
proof (cases "map_of (entries c) key")
  case None
  then show ?thesis by (intro exI [of _ "[Miss]"]) (simp add: try_get_def)
next
  case (Some e)
  show ?thesis
  proof (cases "fs_read env (files c) (cache_filename sha key)")
    case None
    with Some show ?thesis by (intro exI [of _ "[Miss]"]) (simp add: try_get_def)
  next
    case (Some d)
    then show ?thesis using \<open>map_of (entries c) key = Some e\<close>
      by (intro exI [of _ "[Touch key, Hit]"]) (simp add: try_get_def touch_lru_def Let_def)
  qed
qed

lemma insert_chunk_sections:
  "snd (insert_chunk sha env pid nanos fault key data c) =
     exec_all sha (map (Pair env) ([InsertFile pid nanos fault key data] @
       (if fault = NoFault then [InsertCommit key (length data)] else []))) c"
  by (cases fault) (simp_all add: insert_chunk_def insert_file_def Let_def)

lemma remove_chunk_sections:
  "snd (remove_chunk sha env key c) = exec_all sha (map (Pair env) [RemoveFile key, RemoveEntry key]) c"
  by (simp add: remove_chunk_def)

lemma clear_all_sections:
  "snd (clear_all sha env dir_ok c) = exec_all sha (map (Pair env) (ClearLocked # (if dir_ok then [Sweep] else []))) c"
  by (simp add: clear_all_def case_prod_beta)

section \<open>Preservation by a run\<close>

lemma insert_commit_seq:
  assumes "cache_inv c" "seq c + 1 < 2 ^ 64" "max_bytes c + n < 2 ^ 64"
  shows "seq (insert_commit sha env key n c) = seq c + 1 \<and> max_bytes (insert_commit sha env key n c) = max_bytes c"
proof -
  have "idx_inv (insert_entry key n c)"
    using assms by (intro insert_entry_idx) (auto simp: cache_inv_def)
  from evict_loop_frame [OF this, of sha env] assms show ?thesis
    by (simp add: insert_commit_def evict_if_needed_def store_bytes_in_use_def u64_add_small Let_def)
qed

lemma reconcile_drop_frame:
  assumes "cache_inv c"
  shows "seq (snd (reconcile_drop ks c)) = seq c \<and> max_bytes (snd (reconcile_drop ks c)) = max_bytes c
    \<and> files (snd (reconcile_drop ks c)) = files c"
proof -
  obtain c1 d r where run: "drop_missing ks (c, 0, 0) = (c1, d, r)" by (metis prod_cases3)
  with drop_missing_idx [OF _ run] assms show ?thesis
    by (simp add: reconcile_drop_def store_bytes_in_use_def cache_inv_def)
qed

lemma clear_locked_frame:
  "seq (snd (clear_locked sha env c)) = seq c \<and> max_bytes (snd (clear_locked sha env c)) = max_bytes c"
proof -
  obtain c1 d r where run: "clear_keys sha env (live_keys c) (c, 0, 0) = (c1, d, r)" by (metis prod_cases3)
  with clear_keys_entries [OF run] show ?thesis
    by (simp add: clear_locked_def store_bytes_in_use_def)
qed

lemma exec_inv:
  assumes "cache_inv c" "seq c + 1 < 2 ^ 64" "step_ok (max_bytes c) p"
  shows "cache_inv (exec sha p c) \<and> seq (exec sha p c) \<le> seq c + 1 \<and> max_bytes (exec sha p c) = max_bytes c"
proof -
  obtain env st where p: "p = (env, st)" by force
  note inv = insert_commit_inv touch_inv remove_entry_inv reconcile_drop_inv clear_locked_inv
  show ?thesis
  proof (cases st)
    case (InsertFile pid nanos fault key data)
    with assms p show ?thesis
      by (simp add: insert_file_def cache_inv_def idx_inv_def Let_def split: insert_fault.splits)
  next
    case (InsertCommit key n)
    with assms p inv insert_commit_seq show ?thesis by simp
  next
    case (Touch key)
    moreover have "seq (snd (touch_lru key c)) \<le> seq c + 1"
      using assms(2) by (simp add: touch_lru_def count_miss_def u64_add_small Let_def split: option.splits)
    ultimately show ?thesis using assms p inv by simp
  next
    case (ReconcileDrop ks)
    with assms p inv reconcile_drop_frame [of c ks] show ?thesis by simp
  next
    case ClearLocked
    with p inv clear_locked_frame [of sha env c] show ?thesis by simp
  next
    case (RemoveEntry key)
    with assms p inv show ?thesis
      by (simp add: remove_entry_def store_bytes_in_use_def Let_def split: option.splits)
  next
    case (Disk fs)
    with assms p show ?thesis by (simp add: cache_inv_def idx_inv_def)
  qed (use assms p in \<open>simp_all add: remove_file_def sweep_def count_hit_def count_miss_def cache_inv_def idx_inv_def\<close>)
qed

lemma exec_all_inv:
  assumes "cache_inv c" "seq c + length ps < 2 ^ 64" "list_all (step_ok (max_bytes c)) ps"
  shows "cache_inv (exec_all sha ps c) \<and> seq (exec_all sha ps c) \<le> seq c + length ps
    \<and> max_bytes (exec_all sha ps c) = max_bytes c"
  using assms
proof (induction ps arbitrary: c)
  case (Cons p ps)
  then have step: "cache_inv (exec sha p c) \<and> seq (exec sha p c) \<le> seq c + 1 \<and> max_bytes (exec sha p c) = max_bytes c"
    using exec_inv [of c p sha] by simp
  with Cons.prems Cons.IH [of "exec sha p c"] show ?case by simp
qed simp

lemma open_inv:
  "open_cache env cd rd dir tmp cap = Inr c \<Longrightarrow>
     cache_inv c \<and> seq c = 0 \<and> max_bytes c = cap \<and> entries c = [] \<and> lru c = [] \<and> tmp_seq c = tmp"
  by (auto simp: open_cache_def scan_existing_def rbind_Inr_iff cache_inv_def idx_inv_def store_bytes_in_use_def
      split: prod.splits)

section \<open>Files\<close>

lemma map_of_fs_remove:
  "map_of (fst (fs_remove env n fs)) m = map_of fs m \<or> m = n \<and> map_of (fst (fs_remove env n fs)) m = None"
  by (auto simp: fs_remove_def map_simps split: option.splits fnode.splits)

lemma fs_remove_other: "m \<noteq> n \<Longrightarrow> map_of (fst (fs_remove env n fs)) m = map_of fs m"
  using map_of_fs_remove [of env n fs m] by auto

text \<open>Eviction only removes the files of keys it stops tracking.\<close>

lemma live_keys_evict_one:
  "set (live_keys (evict_one sha env key e c)) = set (live_keys c) - {key}"
  by (auto simp: live_keys_def evict_one_def AList.delete_eq)

lemma evict_keeps_files:
  "idx_inv c \<Longrightarrow> inj_on (cache_filename sha) (set (live_keys c)) \<Longrightarrow>
   set (live_keys (evict_loop sha env c)) \<subseteq> set (live_keys c) \<and>
   (\<forall>k \<in> set (live_keys (evict_loop sha env c)).
      map_of (files (evict_loop sha env c)) (cache_filename sha k) = map_of (files c) (cache_filename sha k))"
proof (induction rule: evict_induct [where sha = sha and env = env])
  case (fits c)
  then show ?case by (simp add: evict_loop_done)
next
  case (step c t key l e)
  let ?c = "evict_one sha env key e c"
  have key: "key \<in> set (live_keys c)"
    using step(4) by (auto simp: live_keys_def dest: map_of_SomeD intro: rev_image_eqI)
  have IH: "set (live_keys (evict_loop sha env ?c)) \<subseteq> set (live_keys c) - {key}"
    "\<And>k. k \<in> set (live_keys (evict_loop sha env ?c)) \<Longrightarrow>
      map_of (files (evict_loop sha env ?c)) (cache_filename sha k) = map_of (files ?c) (cache_filename sha k)"
    using step(8,9) by (auto simp: live_keys_evict_one intro: inj_on_subset)
  have "map_of (files ?c) (cache_filename sha k) = map_of (files c) (cache_filename sha k)"
    if "k \<in> set (live_keys (evict_loop sha env ?c))" for k
  proof -
    have "cache_filename sha k \<noteq> cache_filename sha key"
      using inj_onD [OF step(9), of k key] that IH(1) key by auto
    then show ?thesis by (simp add: evict_one_def fs_remove_other)
  qed
  with IH step(7) show ?case by auto
qed

lemma evict_files_subset:
  "idx_inv c \<Longrightarrow> map_of (files (evict_loop sha env c)) m = Some x \<Longrightarrow> map_of (files c) m = Some x"
proof (induction rule: evict_induct [where sha = sha and env = env])
  case (fits c)
  then show ?case by (simp add: evict_loop_done)
next
  case (step c t key l e)
  then have "map_of (files (evict_one sha env key e c)) m = Some x" by simp
  then show ?case using map_of_fs_remove [of env "cache_filename sha key" "files c" m]
    by (auto simp: evict_one_def)
qed

lemma evict_entries_subset:
  "idx_inv c \<Longrightarrow> map_of (entries (evict_loop sha env c)) k = Some x \<Longrightarrow> map_of (entries c) k = Some x"
proof (induction rule: evict_induct [where sha = sha and env = env])
  case (fits c)
  then show ?case by (simp add: evict_loop_done)
next
  case (step c t key l e)
  then have "map_of (entries (evict_one sha env key e c)) k = Some x" by simp
  then show ?case by (auto simp: evict_one_def map_simps split: if_splits)
qed

section \<open>Coherence with the chunk contents\<close>

text \<open>\<open>coherent\<close>: for the keys of a set whose file names do not collide, the file of a key holds
  that key's content, and the tracked size is its length. It does not say that a tracked key has
  a file.\<close>

definition coherent :: "hash_fn \<Rightarrow> (chunk_key \<Rightarrow> bytes) \<Rightarrow> chunk_key set \<Rightarrow> disk_cache \<Rightarrow> bool" where
  "coherent sha content K c \<longleftrightarrow>
     idx_inv c \<and> inj_on (cache_filename sha) K \<and>
     (\<forall>k \<in> K. (\<forall>b. map_of (files c) (cache_filename sha k) = Some (File b) \<longrightarrow> b = content k) \<and>
              (\<forall>e. map_of (entries c) k = Some e \<longrightarrow> e_size e = length (content k)))"

lemma coherent_weaken:
  assumes "coherent sha content K c" "idx_inv c'"
    and "\<And>m x. map_of (files c') m = Some x \<Longrightarrow> map_of (files c) m = Some x"
    and "\<And>k e. map_of (entries c') k = Some e \<Longrightarrow> \<exists>e'. map_of (entries c) k = Some e' \<and> e_size e' = e_size e"
  shows "coherent sha content K c'"
  using assms unfolding coherent_def by metis

lemma coherent_read:
  "coherent sha content K c \<Longrightarrow> k \<in> K \<Longrightarrow> fs_read env (files c) (cache_filename sha k) = Some d \<Longrightarrow> d = content k"
  by (auto simp: coherent_def fs_read_def split: option.splits fnode.splits if_splits)

lemma touch_coherent:
  assumes "coherent sha content K c" "seq c + 1 < 2 ^ 64"
  shows "coherent sha content K (snd (touch_lru k c))"
proof (rule coherent_weaken [OF assms(1)])
  show "idx_inv (snd (touch_lru k c))" using assms by (auto simp: coherent_def intro: touch_idx)
  show "\<exists>e'. map_of (entries c) k' = Some e' \<and> e_size e' = e_size e"
    if "map_of (entries (snd (touch_lru k c))) k' = Some e" for k' e
    using that by (auto simp: touch_lru_def count_miss_def map_simps Let_def split: option.splits if_splits)
qed simp

lemma count_coherent [simp]:
  "coherent sha content K (count_hit c) = coherent sha content K c"
  "coherent sha content K (count_miss c) = coherent sha content K c"
  by (simp_all add: coherent_def count_hit_def count_miss_def idx_inv_def)

lemma insert_file_coherent:
  assumes "coherent sha content K c" "key \<in> K"
  shows "coherent sha content K (snd (insert_file sha pid nanos fault key (content key) c))"
proof -
  let ?c = "snd (insert_file sha pid nanos fault key (content key) c)"
  have "map_of (files ?c) (cache_filename sha k) = map_of (files c) (cache_filename sha k)
      \<or> k = key \<and> map_of (files ?c) (cache_filename sha k) = Some (File (content key))" if "k \<in> K" for k
  proof -
    have "cache_filename sha k = cache_filename sha key \<Longrightarrow> k = key"
      using assms that by (auto simp: coherent_def dest: inj_onD)
    moreover have "cache_filename sha k \<noteq> tmp_name pid nanos (tmp_seq c)" for k
      by (metis tmp_name_not_chunk)
    ultimately show ?thesis
      by (auto simp: insert_file_def map_simps Let_def split: insert_fault.splits)
  qed
  moreover have "entries ?c = entries c" "idx_inv ?c = idx_inv c"
    by (simp_all add: insert_file_def idx_inv_def Let_def split: insert_fault.splits)
  ultimately show ?thesis using assms unfolding coherent_def by fastforce
qed

lemma insert_entry_lookup:
  "map_of (entries (insert_entry key n c)) k =
     (if k = key then Some \<lparr>e_size = n, e_seq = u64_add (seq c) 1\<rparr> else map_of (entries c) k)"
  by (simp add: insert_entry_def store_bytes_in_use_def map_simps Let_def split: option.splits)

lemma insert_commit_coherent:
  assumes "coherent sha content K c" "key \<in> K" "seq c + 1 < 2 ^ 64" "bytes_used c + length (content key) < 2 ^ 64"
  shows "coherent sha content K (insert_commit sha env key (length (content key)) c)"
proof -
  let ?c = "insert_entry key (length (content key)) c"
  have inv: "idx_inv ?c" using assms by (auto simp: coherent_def intro: insert_entry_idx)
  have "coherent sha content K ?c"
    using assms inv by (auto simp: coherent_def insert_entry_lookup)
  then show ?thesis
  proof (rule coherent_weaken)
    show "idx_inv (insert_commit sha env key (length (content key)) c)"
      using evict_if_needed_inv [OF inv] by (simp add: insert_commit_def cache_inv_def)
  qed (use evict_files_subset [OF inv, of sha env] evict_entries_subset [OF inv, of sha env] in
      \<open>auto simp: insert_commit_def evict_if_needed_def store_bytes_in_use_def Let_def\<close>)
qed

section \<open>The disk cache as a chunk store\<close>

definition disk_ok :: "hash_fn \<Rightarrow> (chunk_key \<Rightarrow> bytes) \<Rightarrow> chunk_key set \<Rightarrow> nat \<Rightarrow> disk_cache \<Rightarrow> bool" where
  "disk_ok sha content K n c \<longleftrightarrow> coherent sha content K c \<and> cache_inv c \<and> seq c + n < 2 ^ 64 \<and>
     (\<forall>k \<in> K. max_bytes c + length (content k) < 2 ^ 64)"

lemma disk_ok_mono: "disk_ok sha content K n c \<Longrightarrow> m \<le> n \<Longrightarrow> disk_ok sha content K m c"
  by (auto simp: disk_ok_def)

lemma touch_disk_ok:
  assumes "disk_ok sha content K (Suc n) c"
  shows "disk_ok sha content K n (snd (touch_lru k c))"
proof -
  have "seq (snd (touch_lru k c)) \<le> seq c + 1"
    using assms by (simp add: disk_ok_def touch_lru_def count_miss_def u64_add_small Let_def split: option.splits)
  then show ?thesis using assms
    by (auto simp: disk_ok_def intro: touch_coherent touch_inv)
qed

lemma count_disk_ok [simp]:
  "disk_ok sha content K n (count_hit c) = disk_ok sha content K n c"
  "disk_ok sha content K n (count_miss c) = disk_ok sha content K n c"
  by (auto simp: disk_ok_def count_hit_def count_miss_def coherent_def cache_inv_def idx_inv_def)

lemma try_get_hit:
  "try_get sha env k c = (Some d, c') \<longleftrightarrow>
     map_of (entries c) k \<noteq> None \<and> fs_read env (files c) (cache_filename sha k) = Some d \<and>
     c' = count_hit (snd (touch_lru k c))"
  by (auto simp: try_get_def touch_lru_def Let_def split: option.splits)

lemma try_get_disk_ok:
  assumes "disk_ok sha content K (Suc n) c"
  shows "disk_ok sha content K n (snd (try_get sha env k c))"
  using touch_disk_ok [OF assms, of k] disk_ok_mono [OF assms, of n]
  by (auto simp: try_get_def touch_lru_def Let_def split: option.splits)

lemma try_get_range_hit:
  "0 < len \<Longrightarrow> try_get_range sha env k off len c = (Some d, c') \<longleftrightarrow>
     (\<exists>e f. map_of (entries c) k = Some e \<and> sat_add off len \<le> e_size e \<and>
        fs_read env (files c) (cache_filename sha k) = Some f \<and> read_exact_at f off len = Some d) \<and>
     c' = count_hit (snd (touch_lru k c))"
  by (auto simp: try_get_range_def touch_lru_def not_le Let_def split: option.splits)

lemma try_get_range_disk_ok:
  assumes "disk_ok sha content K (Suc n) c"
  shows "disk_ok sha content K n (snd (try_get_range sha env k off len c))"
  using touch_disk_ok [OF assms, of k] disk_ok_mono [OF assms, of n]
  by (auto simp: try_get_range_def touch_lru_def Let_def split: option.splits)

lemma insert_file_frame:
  "seq (snd (insert_file sha pid nanos fault key data c)) = seq c"
  "max_bytes (snd (insert_file sha pid nanos fault key data c)) = max_bytes c"
  "bytes_used (snd (insert_file sha pid nanos fault key data c)) = bytes_used c"
  "entries (snd (insert_file sha pid nanos fault key data c)) = entries c"
  "lru (snd (insert_file sha pid nanos fault key data c)) = lru c"
  by (simp_all add: insert_file_def Let_def split: insert_fault.splits)

lemma insert_chunk_cases:
  "insert_chunk sha env pid nanos fault key data c =
     (if fault = NoFault
      then (Inr (), insert_commit sha env key (length data) (snd (insert_file sha pid nanos fault key data c)))
      else (fst (insert_file sha pid nanos fault key data c), snd (insert_file sha pid nanos fault key data c)))"
  by (cases fault) (simp_all add: insert_chunk_def insert_file_def Let_def)

lemma insert_chunk_disk_ok:
  assumes "disk_ok sha content K (Suc n) c" "k \<in> K"
  shows "disk_ok sha content K n (snd (insert_chunk sha env pid nanos fault k (content k) c))"
proof -
  let ?f = "snd (insert_file sha pid nanos fault k (content k) c)"
  have f: "disk_ok sha content K (Suc n) ?f"
    using assms by (simp add: disk_ok_def insert_file_frame insert_file_coherent)
  have bound: "cache_inv ?f" "seq ?f + 1 < 2 ^ 64" "max_bytes ?f + length (content k) < 2 ^ 64"
    using f assms(2) by (auto simp: disk_ok_def)
  have "coherent sha content K (insert_commit sha env k (length (content k)) ?f)"
    using f assms(2) bound by (intro insert_commit_coherent) (auto simp: disk_ok_def cache_inv_def)
  then have "disk_ok sha content K n (insert_commit sha env k (length (content k)) ?f)"
    using f insert_commit_inv [OF bound, of sha env k] insert_commit_seq [OF bound, of sha env k]
    by (simp add: disk_ok_def)
  with disk_ok_mono [OF f, of n] show ?thesis by (auto simp: insert_chunk_cases)
qed

section \<open>Genuine files\<close>

text \<open>The part of coherence a reader depends on, which needs no bound on the recency clock: the
  file of a key of \<open>K\<close>, if any, holds that key's content.\<close>

definition genuine :: "hash_fn \<Rightarrow> (chunk_key \<Rightarrow> bytes) \<Rightarrow> chunk_key set \<Rightarrow> disk_cache \<Rightarrow> bool" where
  "genuine sha content K c \<longleftrightarrow> inj_on (cache_filename sha) K \<and> distinct (map fst (files c)) \<and>
     (\<forall>k \<in> K. \<forall>b. map_of (files c) (cache_filename sha k) = Some (File b) \<longrightarrow> b = content k)"

lemma genuine_files:
  assumes "genuine sha content K c" "distinct (map fst (files c'))"
    and "\<And>m x. map_of (files c') m = Some x \<Longrightarrow> map_of (files c) m = Some x"
  shows "genuine sha content K c'"
  using assms unfolding genuine_def by blast

lemma genuine_same: "genuine sha content K c \<Longrightarrow> files c' = files c \<Longrightarrow> genuine sha content K c'"
  by (simp add: genuine_def)

lemma fs_remove_subset:
  assumes "distinct (map fst fs)"
  shows "distinct (map fst (fst (fs_remove env n fs)))"
    "map_of (fst (fs_remove env n fs)) m = Some x \<Longrightarrow> map_of fs m = Some x"
proof -
  show "distinct (map fst (fst (fs_remove env n fs)))"
    using assms by (auto simp: fs_remove_def distinct_delete split: option.splits fnode.splits)
  have "map_of (AList.delete n fs) m = Some x \<Longrightarrow> map_of fs m = Some x"
    by (simp only: map_simps split: if_splits) simp
  then show "map_of (fst (fs_remove env n fs)) m = Some x \<Longrightarrow> map_of fs m = Some x"
    unfolding fs_remove_def by (cases "map_of fs n") (simp_all split: fnode.splits if_splits del: map_of_eq_Some_iff)
qed

lemma genuine_remove_file:
  "genuine sha content K c \<Longrightarrow> files c' = fst (fs_remove env n (files c)) \<Longrightarrow> genuine sha content K c'"
  by (rule genuine_files) (auto simp: genuine_def fs_remove_subset)

lemma touch_genuine [simp]: "genuine sha content K (snd (touch_lru k c)) = genuine sha content K c"
  by (auto simp: genuine_def touch_lru_def count_miss_def Let_def split: option.splits)

lemma count_genuine [simp]:
  "genuine sha content K (count_hit c) = genuine sha content K c"
  "genuine sha content K (count_miss c) = genuine sha content K c"
  by (simp_all add: genuine_def count_hit_def count_miss_def)

lemma genuine_read:
  "genuine sha content K c \<Longrightarrow> k \<in> K \<Longrightarrow> fs_read env (files c) (cache_filename sha k) = Some d \<Longrightarrow> d = content k"
  by (auto simp: genuine_def fs_read_def split: option.splits fnode.splits if_splits)

lemma try_get_genuine:
  "genuine sha content K c \<Longrightarrow> genuine sha content K (snd (try_get sha env k c))"
  "genuine sha content K c \<Longrightarrow> genuine sha content K (snd (try_get_range sha env k off len c))"
  by (auto simp: try_get_def try_get_range_def genuine_def touch_lru_def count_hit_def count_miss_def Let_def split: option.splits)

lemma evict_genuine: "genuine sha content K c \<Longrightarrow> genuine sha content K (evict_loop sha env c)"
proof (induction sha env c rule: evict_loop.induct)
  case (1 sha env c)
  show ?case
  proof (cases "bytes_used c \<le> max_bytes c \<or> lru c = []")
    case True
    with 1 show ?thesis by (auto simp: evict_loop.simps [of sha env c])
  next
    case False
    then obtain s key rest where l: "lru c = (s, key) # rest" by (metis neq_Nil_conv surj_pair)
    let ?c1 = "c\<lparr>lru := bt_remove s (lru c)\<rparr>"
    let ?c2 = "case map_of (entries ?c1) key of None \<Rightarrow> ?c1 | Some e \<Rightarrow>
        ?c1\<lparr>entries := AList.delete key (entries ?c1), files := fst (fs_remove env (cache_filename sha key) (files ?c1)),
           bytes_used := bytes_used ?c1 - e_size e, stats := (stats ?c1)\<lparr>evictions := u64_add (evictions (stats ?c1)) 1\<rparr>\<rparr>"
    have "genuine sha content K ?c2"
      using genuine_same [OF 1(2)] genuine_remove_file [OF 1(2)] by (auto split: option.splits)
    then have "genuine sha content K (evict_loop sha env ?c2)" using 1(1) [OF _ l refl refl] False by blast
    moreover have "evict_loop sha env c = evict_loop sha env ?c2"
      using False l by (cases "map_of (entries c) key") (simp_all add: evict_loop.simps [of sha env c] Let_def)
    ultimately show ?thesis by simp
  qed
qed

lemma insert_file_genuine:
  assumes "genuine sha content K c" "key \<in> K"
  shows "genuine sha content K (snd (insert_file sha pid nanos fault key (content key) c))"
proof -
  let ?c = "snd (insert_file sha pid nanos fault key (content key) c)"
  have "map_of (files ?c) (cache_filename sha k) = map_of (files c) (cache_filename sha k)
      \<or> k = key \<and> map_of (files ?c) (cache_filename sha k) = Some (File (content key))" if "k \<in> K" for k
  proof -
    have "cache_filename sha k = cache_filename sha key \<Longrightarrow> k = key"
      using assms that by (auto simp: genuine_def dest: inj_onD)
    moreover have "cache_filename sha k \<noteq> tmp_name pid nanos (tmp_seq c)" for k
      by (metis tmp_name_not_chunk)
    ultimately show ?thesis
      by (auto simp: insert_file_def map_simps Let_def split: insert_fault.splits)
  qed
  moreover have "distinct (map fst (files ?c))" using assms
    by (auto simp: genuine_def insert_file_def distinct_update distinct_delete Let_def split: insert_fault.splits)
  ultimately show ?thesis using assms unfolding genuine_def by fastforce
qed

lemma insert_chunk_genuine:
  assumes "genuine sha content K c" "k \<in> K"
  shows "genuine sha content K (snd (insert_chunk sha env pid nanos fault k (content k) c))"
proof -
  let ?f = "snd (insert_file sha pid nanos fault k (content k) c)"
  have g: "genuine sha content K (insert_entry k n ?f)" for n
    using insert_file_genuine [OF assms, of pid nanos fault] by (rule genuine_same) (simp add: insert_entry_def store_bytes_in_use_def Let_def split: option.splits)
  have "genuine sha content K (insert_commit sha env k n ?f)" for n
    unfolding insert_commit_def evict_if_needed_def Let_def
    by (rule genuine_same [OF evict_genuine [OF g]]) (simp add: store_bytes_in_use_def)
  with insert_file_genuine [OF assms] show ?thesis by (auto simp: insert_chunk_cases)
qed

lemma remove_chunk_genuine: "genuine sha content K c \<Longrightarrow> genuine sha content K (snd (remove_chunk sha env key c))"
  by (rule genuine_remove_file) (auto simp: remove_chunk_def remove_entry_def remove_file_def store_bytes_in_use_def Let_def split: option.splits)

lemma clear_keys_genuine: "genuine sha content K c \<Longrightarrow> genuine sha content K (fst (clear_keys sha env ks (c, a, b)))"
proof (induction ks arbitrary: c a b)
  case (Cons k ks)
  obtain fs ok where r: "fs_remove env (cache_filename sha k) (files c) = (fs, ok)" by force
  have "genuine sha content K (c\<lparr>entries := x, files := fs, lru := y\<rparr>)" for x y
    by (rule genuine_remove_file [OF Cons.prems, of _ env "cache_filename sha k"]) (simp add: r)
  with Cons r show ?case by (auto split: option.splits)
qed simp

lemma clear_all_genuine:
  assumes "genuine sha content K c"
  shows "genuine sha content K (snd (clear_all sha env dir_readable c))"
proof -
  have l: "genuine sha content K (snd (clear_locked sha env c))"
    using clear_keys_genuine [OF assms, of env "live_keys c" 0 0]
    by (auto simp: clear_locked_def store_bytes_in_use_def genuine_def split: prod.splits)
  have "genuine sha content K (sweep env c')" if "genuine sha content K c'" for c'
  proof (rule genuine_files [OF that])
    have d: "distinct (map fst (files c'))" using that by (simp add: genuine_def)
    then show "distinct (map fst (files (sweep env c')))" by (simp add: sweep_def distinct_map_filter)
    show "map_of (files c') m = Some x" if "map_of (files (sweep env c')) m = Some x" for m x
      using that d by (auto simp: sweep_def dest!: map_of_SomeD)
  qed
  with l show ?thesis by (auto simp: clear_all_def split: prod.splits)
qed

interpretation disk: chunk_store "try_get sha env" "\<lambda>k d c. snd (insert_chunk sha env pid nanos fault k d c)"
    "genuine sha"
  for sha env pid nanos fault
proof
  show "d = content k" if "genuine sha content K s" "k \<in> K" "try_get sha env k s = (Some d, s')"
    for content K s k d s'
    using that by (auto simp: try_get_hit dest: genuine_read)
qed (auto intro: try_get_genuine insert_chunk_genuine)

text \<open>A range read of a genuine file is the slice of the content.\<close>

lemma range_genuine:
  assumes "genuine sha content K c" "k \<in> K" "0 < len" "try_get_range sha env k off len c = (Some d, c')"
  shows "off + len \<le> length (content k) \<and> d = take len (drop off (content k))"
proof -
  from assms(3,4) obtain f where "fs_read env (files c) (cache_filename sha k) = Some f" "read_exact_at f off len = Some d"
    by (auto simp: try_get_range_hit)
  with genuine_read [OF assms(1,2)] show ?thesis by (auto simp: read_exact_at_def split: if_splits)
qed

text \<open>A chunk that fits the budget is tracked after its commit.\<close>

lemma insert_commit_tracks:
  assumes "idx_inv c" "seq c + 1 < 2 ^ 64" "bytes_used c + n < 2 ^ 64" "n \<le> max_bytes c"
  shows "entry_size key (insert_commit sha env key n c) = Some n"
proof -
  let ?c = "insert_commit sha env key n c"
  have inv: "idx_inv ?c"
    using evict_if_needed_inv [OF insert_entry_idx [OF assms(1-3)]] by (simp add: insert_commit_def cache_inv_def)
  have "(key, n) \<in> set (recency_of ?c)"
    unfolding insert_commit_refines [OF assms(1-3)] spec_insert_def by (rule spec_evict_last [OF assms(4)])
  moreover have "distinct (map fst (recency_of ?c))"
    using lru_keys_distinct inv by (simp add: fst_recency idx_inv_def)
  ultimately have "map_of (recency_of ?c) key = Some n" by (intro map_of_is_SomeI)
  then show ?thesis by (simp add: map_of_recency [OF inv] entry_size_def)
qed

section \<open>Properties\<close>

definition sample_env :: fs_env where
  "sample_env = \<lparr>can_read = (\<lambda>_. True), can_stat = (\<lambda>_. True), can_remove = (\<lambda>_. True)\<rparr>"

definition sample_key :: "nat \<Rightarrow> chunk_key" where
  "sample_key n = \<lparr>key_mount = ''m'', key_blob = ''b'', key_offset = n\<rparr>"

definition empty_cache :: "nat \<Rightarrow> disk_cache" where
  "empty_cache cap = \<lparr>max_bytes = cap, entries = [], lru = [], seq = 0, bytes_used = 0,
     stats = \<lparr>hits = 0, misses = 0, evictions = 0, bytes_in_use = 0, inserts = 0, reconcile_drops = 0\<rparr>,
     files = [], tmp_seq = 0\<rparr>"

lemma empty_cache_inv [simp]: "cache_inv (empty_cache cap)"
  by (simp add: empty_cache_def cache_inv_def idx_inv_def)

text \<open>C13: Accounting of the disk cache under concurrency. After any interleaving of fewer than
  \<open>2^64\<close> atomic sections of any threads (with any I/O outcomes and any outside change of the
  directory), the byte count equals the sum of the tracked sizes, the \<open>bytes_in_use\<close> gauge shows
  it, it never exceeds the configured maximum, and the recency map and the entry map describe the
  same keys with the same sequence numbers.\<close>
theorem cache_accounting:
  assumes "open_cache env cd rd dir tmp cap = Inr c0" "list_all (step_ok cap) steps" "length steps < 2 ^ 64"
    and "c = exec_all sha steps c0"
  shows "bytes_used c = (\<Sum>p\<leftarrow>entries c. e_size (snd p)) \<and> bytes_in_use (stats c) = bytes_used c
    \<and> bytes_used c \<le> cap \<and> distinct (live_keys c) \<and> distinct (map fst (lru c))
    \<and> (\<forall>t k. (t, k) \<in> set (lru c) \<longleftrightarrow> (\<exists>e. map_of (entries c) k = Some e \<and> e_seq e = t))"
proof -
  from open_inv [OF assms(1)] exec_all_inv [of c0 steps sha] assms(2-4)
  have inv: "cache_inv c" "max_bytes c = cap" by auto
  then have "idx (entries c) (lru c) (seq c) (bytes_used c)" by (simp add: cache_inv_def idx_inv_def)
  with inv show ?thesis
    by (auto simp: idx_def cache_inv_def live_keys_def map_weight_def case_prod_beta dest: bt_sorted_distinct)
qed

theorem cache_accounting_witness:
  "bytes_used (exec_all (\<lambda>b. b) [(sample_env, InsertCommit (sample_key 0) 6), (sample_env, InsertCommit (sample_key 1) 7)]
     (empty_cache 10)) \<le> 10" (is "bytes_used (exec_all _ ?steps _) \<le> _")
proof -
  have 1: "open_cache sample_env (Inr ()) (Inr ()) [] 0 10 = Inr (empty_cache 10)"
    by (simp add: open_cache_def scan_existing_def store_bytes_in_use_def empty_cache_def)
  have 2: "list_all (step_ok 10) ?steps" "length ?steps < 2 ^ 64" by simp_all
  show ?thesis using cache_accounting [OF 1 2 refl, of "\<lambda>b. b"] by blast
qed

text \<open>C2: The least-recently-used contract. The locked half of an insert puts the key at the most
  recent end and then keeps a suffix of the recency order: what it evicts is the oldest part, the
  survivors fit the budget, and no longer suffix would have fitted. A lookup moves its key to the
  recent end and a removal deletes exactly its key.\<close>
theorem lru_contract:
  assumes "cache_inv c" "seq c + 1 < 2 ^ 64" "max_bytes c + n < 2 ^ 64"
    and "r = filter (\<lambda>p. fst p \<noteq> key) (recency_of c) @ [(key, n)]"
    and "r' = recency_of (insert_commit sha env key n c)"
  shows "(\<exists>i. r' = drop i r) \<and> total r' \<le> max_bytes c
    \<and> (\<forall>j. total (drop j r) \<le> max_bytes c \<longrightarrow> length (drop j r) \<le> length r')
    \<and> recency_of (snd (touch_lru key c)) = spec_touch key (recency_of c)
    \<and> recency_of (remove_entry key c) = filter (\<lambda>p. fst p \<noteq> key) (recency_of c)"
proof -
  have inv: "idx_inv c" and small: "bytes_used c + n < 2 ^ 64" using assms(1,3) by (auto simp: cache_inv_def)
  have "r' = spec_evict (max_bytes c) r"
    using insert_commit_refines [OF inv assms(2) small] assms(4,5) by (simp add: spec_insert_def spec_drop_def)
  then show ?thesis
    using spec_evict_suffix spec_evict_fits spec_evict_longest touch_refines [OF inv assms(2)]
      remove_entry_refines [OF inv] by (simp add: spec_drop_def)
qed

theorem lru_contract_witness:
  "recency_of (snd (touch_lru (sample_key 0) (empty_cache 10))) = []
   \<and> total (recency_of (insert_commit (\<lambda>b. b) sample_env (sample_key 0) 6 (empty_cache 10))) \<le> 10"
  using lru_contract [of "empty_cache 10" 6 _ "sample_key 0" _ "\<lambda>b. b" sample_env, OF _ _ _ refl refl]
  by (simp add: empty_cache_def spec_touch_def recency_of_def cache_inv_def idx_inv_def)

text \<open>C30: An insert is readable. If the chunk fits the budget and no two tracked keys share a file
  name, a successful insert followed by a lookup returns the inserted bytes and counts a hit,
  whatever the insert had to evict.\<close>
theorem insert_then_get:
  assumes "cache_inv c" "seq c + 2 < 2 ^ 64" "max_bytes c + length data < 2 ^ 64" "length data \<le> max_bytes c"
    and "inj_on (cache_filename sha) (insert key (set (live_keys c)))"
    and "can_read env' (cache_filename sha key)"
    and "insert_chunk sha env pid nanos fault key data c = (Inr (), c')"
  shows "fst (try_get sha env' key c') = Some data
    \<and> hits (stats (snd (try_get sha env' key c'))) = u64_add (hits (stats c')) 1
    \<and> entry_size key c' = Some (length data)"
proof -
  have nf: "fault = NoFault"
    using assms(7) by (cases fault) (auto simp: insert_chunk_def insert_file_def Let_def)
  let ?f = "snd (insert_file sha pid nanos fault key data c)"
  let ?i = "insert_entry key (length data) ?f"
  have c': "c' = insert_commit sha env key (length data) ?f"
    using assms(7) nf by (simp add: insert_chunk_cases)
  have inv: "idx_inv ?i"
    using assms(1-3) by (intro insert_entry_idx) (auto simp: cache_inv_def idx_inv_def insert_file_frame)
  have size: "entry_size key c' = Some (length data)"
    unfolding c' using assms(1-4)
    by (intro insert_commit_tracks) (auto simp: cache_inv_def idx_inv_def insert_file_frame)
  have live: "set (live_keys ?i) \<subseteq> insert key (set (live_keys c))"
    by (auto simp: live_keys_def insert_entry_def store_bytes_in_use_def insert_file_frame Let_def
        dom_update split: option.splits)
  have "key \<in> set (live_keys (evict_loop sha env ?i))"
    using size by (auto simp: c' insert_commit_def evict_if_needed_def entry_size_def live_keys_def
        store_bytes_in_use_def Let_def dest: map_of_SomeD intro: rev_image_eqI)
  then have "map_of (files c') (cache_filename sha key) = map_of (files ?f) (cache_filename sha key)"
    using evict_keeps_files [OF inv inj_on_subset [OF assms(5) live], of env]
    by (simp add: c' insert_commit_def evict_if_needed_def store_bytes_in_use_def Let_def)
  also have "\<dots> = Some (File data)"
    using nf by (simp add: insert_file_def Let_def map_simps)
  finally show ?thesis
    using size assms(6) by (auto simp: try_get_def fs_read_def entry_size_def touch_lru_def count_hit_def Let_def)
qed

theorem insert_then_get_witness:
  "fst (try_get (\<lambda>b. b) sample_env (sample_key 0)
     (snd (insert_chunk (\<lambda>b. b) sample_env 1 1 NoFault (sample_key 0) [1, 2] (empty_cache 10)))) = Some [1, 2]"
proof -
  have "insert_chunk (\<lambda>b. b) sample_env 1 1 NoFault (sample_key 0) [1, 2] (empty_cache 10) =
      (Inr (), snd (insert_chunk (\<lambda>b. b) sample_env 1 1 NoFault (sample_key 0) [1, 2] (empty_cache 10)))"
    by (simp add: insert_chunk_cases)
  from insert_then_get [OF _ _ _ _ _ _ this, where env' = sample_env] show ?thesis
    by (simp add: empty_cache_def sample_env_def live_keys_def cache_inv_def idx_inv_def)
qed

text \<open>C31: Ranged reads agree with whole reads. When the tracked size is the file's length, a
  ranged read of a cached chunk returns exactly that slice of the whole chunk with the same effect
  on the cache, a range past the end is a miss, and the read into a caller-sized buffer fills it
  with the whole chunk.\<close>
theorem range_is_slice:
  assumes "try_get sha env key c = (Some f, c1)" "entry_size key c = Some (length f)"
    and "0 < len" "off + len < 2 ^ 64"
  shows "try_get_range sha env key off len c =
      (if off + len \<le> length f then (Some (take len (drop off f)), c1) else (None, count_miss c))
    \<and> try_get_into_slice sha env key (length f) c = (Some (length f, f), c1)"
  using assms
  by (auto simp: try_get_hit try_get_range_def try_get_into_slice_def entry_size_def sat_add_small
      read_exact_at_def touch_lru_def Let_def)

definition one_chunk :: disk_cache where
  "one_chunk = (empty_cache 10)\<lparr>entries := [(sample_key 0, \<lparr>e_size = 3, e_seq = 1\<rparr>)],
     lru := [(1, sample_key 0)], seq := 1, bytes_used := 3,
     files := [(cache_filename (\<lambda>b. b) (sample_key 0), File [7, 8, 9])]\<rparr>"

theorem range_is_slice_witness:
  "fst (try_get_range (\<lambda>b. b) sample_env (sample_key 0) 1 2 one_chunk) = Some [8, 9]"
proof -
  obtain c1 where "try_get (\<lambda>b. b) sample_env (sample_key 0) one_chunk = (Some [7, 8, 9], c1)"
    by (simp add: try_get_def one_chunk_def fs_read_def sample_env_def touch_lru_def Let_def)
  from range_is_slice [OF this, of 2 1] show ?thesis
    by (simp add: one_chunk_def entry_size_def)
qed

lemma delete_filter: "AList.delete k m = filter (\<lambda>p. fst p \<noteq> k) m"
  by (auto simp: AList.delete_eq intro!: filter_cong)

lemma reconcile_files: "cache_inv c \<Longrightarrow> files (snd (reconcile_with_disk sha env c)) = files c"
  by (simp add: reconcile_with_disk_def reconcile_drop_frame Let_def)

lemma drop_missing_effect:
  assumes "idx_inv c" "drop_missing ks (c, d, r) = (c', d', r')"
    and "d + length (entries c) < 2 ^ 64" "r + bytes_used c < 2 ^ 64"
  shows "entries c' = filter (\<lambda>p. fst p \<notin> set ks) (entries c) \<and> d' + length (entries c') = d + length (entries c)
    \<and> r' + bytes_used c' = r + bytes_used c"
  using assms
proof (induction ks arbitrary: c d r)
  case (Cons k ks)
  show ?case
  proof (cases "map_of (entries c) k")
    case None
    then have "fst p \<noteq> k" if "p \<in> set (entries c)" for p
      using that by (metis map_of_eq_None_iff imageI)
    then have "filter (\<lambda>p. fst p \<notin> set ks) (entries c) = filter (\<lambda>p. fst p \<notin> set (k # ks)) (entries c)"
      by (intro filter_cong) auto
    moreover have "drop_missing ks (c, d, r) = (c', d', r')" using Cons.prems(2) None by simp
    ultimately show ?thesis using Cons.IH [OF Cons.prems(1) _ Cons.prems(3,4)] by metis
  next
    case (Some e)
    let ?c = "c\<lparr>entries := AList.delete k (entries c), lru := bt_remove (e_seq e) (lru c),
      bytes_used := bytes_used c - e_size e\<rparr>"
    have inv: "idx_inv ?c" using idx_delete Cons.prems(1) Some by (simp add: idx_inv_def)
    have len: "length (entries c) = Suc (length (AList.delete k (entries c)))"
      using map_weight_delete [of "entries c" k e "\<lambda>_. 1"] Cons.prems(1) Some
      by (simp add: map_weight_def sum_list_triv idx_inv_def idx_def)
    have le: "e_size e \<le> bytes_used c"
      using idx_size_le Cons.prems(1) Some by (auto simp: idx_inv_def)
    have "drop_missing ks (?c, d + 1, r + e_size e) = (c', d', r')"
      using Cons.prems(2-4) Some len le by (simp add: u64_add_small sat_add_small)
    from Cons.IH [OF inv this] Cons.prems(3,4) len le show ?thesis
      by (auto simp: delete_filter)
  qed
qed simp

text \<open>C32: Reconciliation drops exactly the tracked chunks whose file is gone. Afterwards every
  tracked key has a file, the others are untouched and in order, and the two numbers returned are
  the entries dropped and the bytes they had been charged.\<close>
theorem reconcile_exact:
  assumes "cache_inv c" "length (entries c) < 2 ^ 64" "bytes_used c < 2 ^ 64"
    and "reconcile_with_disk sha env c = ((dropped, reclaimed), c')"
  shows "live_keys c' = filter (\<lambda>k. fs_exists env (files c') (cache_filename sha k)) (live_keys c)
    \<and> length (live_keys c) = length (live_keys c') + dropped \<and> bytes_used c = bytes_used c' + reclaimed
    \<and> cache_inv c'"
proof (cases "missing_keys sha env c = []")
  case True
  then have "c' = c" "dropped = 0" "reclaimed = 0" using assms(4) by (auto simp: reconcile_with_disk_def)
  with True assms(1) show ?thesis
    by (simp add: missing_keys_def filter_empty_conv filter_id_conv)
next
  case False
  let ?ks = "missing_keys sha env c"
  obtain c1 d r where run: "drop_missing ?ks (c, 0, 0) = (c1, d, r)" by (metis prod_cases3)
  have out: "reconcile_drop ?ks c = ((dropped, reclaimed), c')"
    using False assms(4) by (simp add: reconcile_with_disk_def)
  with run have r: "dropped = d" "reclaimed = r" "entries c' = entries c1" "bytes_used c' = bytes_used c1"
    by (auto simp: reconcile_drop_def store_bytes_in_use_def)
  have inv: "cache_inv c'" "files c' = files c"
    using reconcile_drop_inv [OF assms(1), of ?ks] reconcile_drop_frame [OF assms(1), of ?ks] out by auto
  have eff: "entries c1 = filter (\<lambda>p. fst p \<notin> set ?ks) (entries c)"
      "d + length (entries c1) = length (entries c)" "r + bytes_used c1 = bytes_used c"
    using drop_missing_effect [OF _ run] assms(1-3) by (auto simp: cache_inv_def)
  have "live_keys c' = filter (\<lambda>k. k \<notin> set ?ks) (live_keys c)"
    by (simp add: live_keys_def r eff filter_map comp_def)
  also have "\<dots> = filter (\<lambda>k. fs_exists env (files c') (cache_filename sha k)) (live_keys c)"
    by (intro filter_cong) (auto simp: missing_keys_def inv)
  finally have "live_keys c' = filter (\<lambda>k. fs_exists env (files c') (cache_filename sha k)) (live_keys c)" .
  moreover have "length (live_keys c) = length (live_keys c') + dropped"
    using eff(2) r by (simp add: live_keys_def)
  ultimately show ?thesis using eff(3) inv r by simp
qed

theorem reconcile_exact_witness:
  "live_keys (snd (reconcile_with_disk (\<lambda>b. b) sample_env (one_chunk\<lparr>files := [], stats := (stats one_chunk)\<lparr>bytes_in_use := 3\<rparr>\<rparr>))) = []"
  (is "live_keys (snd (reconcile_with_disk ?h ?e ?c)) = []")
proof -
  have inv: "cache_inv ?c"
    by (auto simp: one_chunk_def empty_cache_def cache_inv_def idx_inv_def idx_def bt_sorted_def)
  obtain d r c' where run: "reconcile_with_disk ?h ?e ?c = ((d, r), c')" by (metis prod.collapse)
  have "files c' = files ?c" using reconcile_files [OF inv, of ?h ?e] by (simp only: run) simp
  then have "files c' = []" by simp
  with reconcile_exact [OF inv _ _ run] have "live_keys c' = []"
    by (simp add: one_chunk_def fs_exists_def)
  then show ?thesis by (simp only: run) simp
qed

text \<open>Clearing returns the cache to its initial state: whatever it tracked and whatever files
  lay in its directory, \<open>clear_all\<close> leaves no entry, an empty recency map, zero bytes in use, and,
  when files can be inspected and removed, no regular file.\<close>
theorem clear_all_empties:
  assumes "\<And>n. can_stat env n \<and> can_remove env n"
  shows "let c' = snd (clear_all sha env True c) in
    entries c' = [] \<and> lru c' = [] \<and> bytes_used c' = 0 \<and> bytes_in_use (stats c') = 0
    \<and> list_all (\<lambda>p. snd p = NonFile) (files c')"
proof -
  obtain c1 a b where r: "clear_keys sha env (live_keys c) (c, 0, 0) = (c1, a, b)"
    by (metis prod_cases3)
  with clear_keys_entries [OF r] have "set (entries c1) = {}" by (auto simp: live_keys_def)
  with r assms show ?thesis
    by (auto simp: clear_all_def clear_locked_def sweep_def store_bytes_in_use_def list_all_iff)
qed

theorem clear_all_empties_witness:
  "entries (snd (clear_all (\<lambda>b. b) sample_env True one_chunk)) = []"
  using clear_all_empties [of sample_env "\<lambda>b. b" one_chunk] by (simp add: sample_env_def Let_def)

text \<open>C14: The cache never serves wrong bytes. As long as every insert writes a chunk's genuine
  content and no two chunk keys share a file name, every hit of a whole or ranged lookup returns the
  genuine content or the requested slice of it, whatever I/O errors, evictions and failed inserts
  came before: for any sequence of inserts (each with its own fault) from an opened cache.\<close>
theorem cache_serves_genuine:
  assumes "open_cache env cd rd [] tmp cap = Inr c0"
    and "inj_on (cache_filename sha) K" "\<forall>k \<in> K. cap + length (content k) < 2 ^ 64"
    and "\<forall>(k, fault, pid, nanos) \<in> set ins. k \<in> K" "length ins + 1 < 2 ^ 64"
    and "c = fold (\<lambda>(k, fault, pid, nanos) c. snd (insert_chunk sha env pid nanos fault k (content k) c)) ins c0"
    and "k \<in> K"
  shows "(\<forall>d c'. try_get sha env k c = (Some d, c') \<longrightarrow> d = content k)
    \<and> (\<forall>off len d c'. 0 < len \<longrightarrow> try_get_range sha env k off len c = (Some d, c') \<longrightarrow>
         d = take len (drop off (content k)) \<and> off + len \<le> length (content k))"
proof -
  have "disk_ok sha content K n0
      (fold (\<lambda>(k, fault, pid, nanos) c. snd (insert_chunk sha env pid nanos fault k (content k) c)) ins c)"
    if "disk_ok sha content K (n0 + length ins) c" "\<forall>(k, fault, pid, nanos) \<in> set ins. k \<in> K" for c n0 ins
    using that
  proof (induction ins arbitrary: c)
    case (Cons i ins)
    obtain k f p n where i: "i = (k, f, p, n)" by (metis prod_cases4)
    with Cons.prems have "disk_ok sha content K (n0 + length ins) (snd (insert_chunk sha env p n f k (content k) c))"
      by (auto intro: insert_chunk_disk_ok)
    with Cons i show ?case by simp
  qed simp
  moreover have "disk_ok sha content K (1 + length ins) c0"
    using open_inv [OF assms(1)] assms(1-3,5)
    by (auto simp: disk_ok_def coherent_def cache_inv_def open_cache_def scan_existing_def store_bytes_in_use_def rbind_Inr_iff)
  ultimately have "disk_ok sha content K 1 c" using assms(4,6) by auto
  then have co: "coherent sha content K c" by (simp add: disk_ok_def)
  show ?thesis
    using coherent_read [OF co assms(7)] assms(7)
    by (auto simp: try_get_hit try_get_range_hit read_exact_at_def split: if_splits)
qed

theorem cache_serves_genuine_witness:
  "fst (try_get (\<lambda>b. b) sample_env (sample_key 0)
     (snd (insert_chunk (\<lambda>b. b) sample_env 1 1 NoFault (sample_key 0) [5, 6] (empty_cache 10)))) \<noteq> Some [1]"
  (is "fst (?get ?c) \<noteq> _")
proof -
  have "open_cache sample_env (Inr ()) (Inr ()) [] 0 10 = Inr (empty_cache 10)"
    by (simp add: open_cache_def scan_existing_def store_bytes_in_use_def empty_cache_def)
  from cache_serves_genuine [OF this, of "\<lambda>b. b" "{sample_key 0}" "\<lambda>_. [5, 6]" "[(sample_key 0, NoFault, 1, 1)]" _ "sample_key 0", OF _ _ _ _ refl]
  have "\<forall>d c'. ?get ?c = (Some d, c') \<longrightarrow> d = [5, 6]" by simp
  then show ?thesis by (cases "?get ?c") auto
qed

end
