(* ===== verification/Cluster.thy ===== *)
theory Cluster
  imports Errors "HOL-Library.Product_Lexorder"
begin

text \<open>
  Gossip membership (\<open>src/cluster.rs\<close>): the member table and its merge rule, the failure
  detector's sweep, the HTTP handler of \<open>GossipServer\<close> and the client round \<open>gossip_with\<close>.
  The wall clock (\<open>unix_now\<close>) is the argument \<open>now\<close>; JSON and the network are arguments. A hook the
  code calls is an extra result: the peers to hand to it, in order.
\<close>

section \<open>Membership\<close>

datatype node_state = Alive | Suspect | Dead

fun rank :: "node_state \<Rightarrow> nat" where
  "rank Alive = 0"
| "rank Suspect = 1"
| "rank Dead = 2"

record node_info =
  n_id :: string
  transport_url :: string
  gossip_url :: string
  n_cluster_hash :: string
  ucx_worker_addr_b64 :: "string option"
  last_seen_unix :: nat
  n_state :: node_state
  incarnation :: nat
  bloom_version :: nat

record gossip_payload =
  g_from :: node_info
  g_members :: "node_info list"

record cluster_stats =
  joins :: nat
  failures :: nat
  config_mismatches :: nat
  gossip_rounds :: nat

record membership =
  me_id :: string
  me_template :: node_info
  me_incarnation :: nat
  me_bloom_version :: nat
  members :: "(string, node_info) hmap"
  cl_stats :: cluster_stats

definition HEARTBEAT_TIMEOUT_SECS :: nat where
  "HEARTBEAT_TIMEOUT_SECS = 30"

definition MAX_GOSSIP_BODY_BYTES :: nat where
  "MAX_GOSSIP_BODY_BYTES = 1024 * 1024"

definition membership_new :: "node_info \<Rightarrow> cluster_stats \<Rightarrow> membership" where
  "membership_new me st = \<lparr>me_id = n_id me, me_template = me, me_incarnation = max (incarnation me) 1,
     me_bloom_version = bloom_version me, members = [(n_id me, me)], cl_stats = st\<rparr>"

definition me_snapshot :: "nat \<Rightarrow> membership \<Rightarrow> node_info" where
  "me_snapshot now m = (me_template m)\<lparr>incarnation := me_incarnation m, bloom_version := me_bloom_version m,
     last_seen_unix := now, n_state := Alive\<rparr>"

definition set_bloom_version :: "nat \<Rightarrow> membership \<Rightarrow> membership" where
  "set_bloom_version v m = m\<lparr>me_bloom_version := v\<rparr>"

definition members_alive :: "membership \<Rightarrow> node_info list" where
  "members_alive m = filter (\<lambda>n. n_state n = Alive \<and> n_id n \<noteq> me_id m
     \<and> n_cluster_hash n = n_cluster_hash (me_template m)) (map snd (members m))"

definition members_all :: "membership \<Rightarrow> node_info list" where
  "members_all m = map snd (members m)"

definition count_mismatch :: "membership \<Rightarrow> membership" where
  "count_mismatch m = m\<lparr>cl_stats := (cl_stats m)\<lparr>config_mismatches := config_mismatches (cl_stats m) + 1\<rparr>\<rparr>"

text \<open>The \<open>should_update\<close> condition of \<open>merge\<close>.\<close>

definition should_update :: "node_info \<Rightarrow> node_info \<Rightarrow> bool" where
  "should_update n existing \<longleftrightarrow>
     incarnation n > incarnation existing
     \<or> (incarnation n = incarnation existing \<and> last_seen_unix n > last_seen_unix existing)
     \<or> (incarnation n = incarnation existing \<and> last_seen_unix n = last_seen_unix existing
        \<and> rank (n_state n) > rank (n_state existing))"

text \<open>One iteration of \<open>merge\<close>'s loop: an entry about this node (refuted by a higher
  incarnation), an entry of another cluster (dropped), an update, or a new peer.\<close>

definition refute_self :: "nat \<Rightarrow> node_info \<Rightarrow> membership \<Rightarrow> membership" where
  "refute_self now n m =
     (let our_inc = me_incarnation m;
          claims_we_are_down = (n_state n \<noteq> Alive);
          inc' = (if incarnation n > our_inc \<or> (incarnation n = our_inc \<and> claims_we_are_down)
                  then u64_add (max (incarnation n) our_inc) 1 else our_inc);
          me = (me_template m)\<lparr>incarnation := inc', last_seen_unix := now, n_state := Alive\<rparr> in
      m\<lparr>me_incarnation := inc', members := AList.update (me_id m) me (members m)\<rparr>)"

definition merge_one ::
  "nat \<Rightarrow> node_info \<Rightarrow> membership \<times> node_info list \<Rightarrow> membership \<times> node_info list"
where
  "merge_one now n acc = (case acc of (m, update_peers) \<Rightarrow>
     if n_id n = me_id m then (refute_self now n m, update_peers)
     else if n_cluster_hash n \<noteq> n_cluster_hash (me_template m) then (count_mismatch m, update_peers)
     else (case map_of (members m) (n_id n) of
        Some existing \<Rightarrow>
          if should_update n existing
          then (m\<lparr>members := AList.update (n_id n) n (members m)\<rparr>,
                if ucx_worker_addr_b64 existing \<noteq> ucx_worker_addr_b64 n then update_peers @ [n] else update_peers)
          else (m, update_peers)
      | None \<Rightarrow>
          (m\<lparr>members := AList.update (n_id n) n (members m),
             cl_stats := (cl_stats m)\<lparr>joins := joins (cl_stats m) + 1\<rparr>\<rparr>, update_peers @ [n])))"

definition merge :: "nat \<Rightarrow> node_info list \<Rightarrow> membership \<Rightarrow> membership \<times> node_info list" where
  "merge now incoming m = fold (merge_one now) incoming (m, [])"

definition touch_peer :: "nat \<Rightarrow> string \<Rightarrow> membership \<Rightarrow> membership" where
  "touch_peer now i m =
     (case map_of (members m) i of
        None \<Rightarrow> m
      | Some n \<Rightarrow> m\<lparr>members := AList.update i (n\<lparr>last_seen_unix := now, n_state := Alive\<rparr>) (members m)\<rparr>)"

definition state_for_age :: "nat \<Rightarrow> node_state" where
  "state_for_age age =
     (if age > HEARTBEAT_TIMEOUT_SECS * 2 then Dead
      else if age > HEARTBEAT_TIMEOUT_SECS then Suspect
      else Alive)"

fun sweep_members ::
  "nat \<Rightarrow> string \<Rightarrow> (string, node_info) hmap \<Rightarrow> (string, node_info) hmap \<times> string list"
where
  "sweep_members now me [] = ([], [])"
| "sweep_members now me ((i, n) # ms) =
     (let (ms', newly_dead) = sweep_members now me ms in
      if i = me then ((i, n) # ms', newly_dead)
      else let new_state = state_for_age (now - last_seen_unix n) in
        if new_state \<noteq> n_state n
        then ((i, n\<lparr>n_state := new_state\<rparr>) # ms',
              if new_state = Dead then i # newly_dead else newly_dead)
        else ((i, n) # ms', newly_dead))"

definition sweep_peers :: "nat \<Rightarrow> membership \<Rightarrow> membership \<times> string list" where
  "sweep_peers now m =
     (let (ms, newly_dead) = sweep_members now (me_id m) (members m) in
      (m\<lparr>members := ms, cl_stats := (cl_stats m)\<lparr>failures := failures (cl_stats m) + length newly_dead\<rparr>\<rparr>,
       newly_dead))"

section \<open>The gossip server and client\<close>

record http_response =
  r_status :: nat
  r_headers :: "(string \<times> string) list"
  r_body :: bytes

definition absorb :: "nat \<Rightarrow> gossip_payload \<Rightarrow> membership \<Rightarrow> membership \<times> node_info list" where
  "absorb now p m =
     (case merge now (g_members p @ [g_from p]) m of
        (m', ups) \<Rightarrow> (touch_peer now (n_id (g_from p)) m', ups))"

text \<open>The service function of \<open>GossipServer::serve\<close>: \<open>decode\<close> and \<open>encode\<close> are the JSON codec,
  \<open>body\<close> the collected request body (empty when collecting failed), \<open>snapshot\<close> the peer index's
  coherent version and filter when there is one.\<close>

definition gossip_serve ::
  "(bytes \<Rightarrow> string + gossip_payload) \<Rightarrow> (gossip_payload \<Rightarrow> bytes) \<Rightarrow> (nat \<times> bytes) option \<Rightarrow> nat \<Rightarrow>
   string \<Rightarrow> string \<Rightarrow> bytes \<Rightarrow> membership \<Rightarrow> http_response \<times> membership \<times> node_info list"
where
  "gossip_serve decode encode snapshot now meth path body m =
     (if meth = ''POST'' \<and> path = ''/cluster/sync'' then
        if length body > MAX_GOSSIP_BODY_BYTES
        then (\<lparr>r_status = 413, r_headers = [], r_body = as_bytes ''too large''\<rparr>, m, [])
        else (case decode body of
            Inr payload \<Rightarrow>
              if n_cluster_hash (g_from payload) \<noteq> n_cluster_hash (me_template m)
              then (\<lparr>r_status = 409, r_headers = [(''content-type'', ''application/json'')],
                     r_body = as_bytes ''{\"error\":\"cluster_hash mismatch\"}''\<rparr>, count_mismatch m, [])
              else (case absorb now payload m of
                (m', ups) \<Rightarrow>
                  (\<lparr>r_status = 200, r_headers = [(''content-type'', ''application/json'')],
                     r_body = encode \<lparr>g_from = me_snapshot now m', g_members = members_all m'\<rparr>\<rparr>, m', ups))
          | Inl e \<Rightarrow> (\<lparr>r_status = 400, r_headers = [], r_body = as_bytes (''bad: '' @ e)\<rparr>, m, []))
      else if meth = ''GET'' \<and> path = ''/cluster/bloom'' then
        (case snapshot of
           Some (v, b) \<Rightarrow>
             (\<lparr>r_status = 200, r_headers = [(''content-type'', ''application/octet-stream''),
                 (''x-blobcache-bloom-version'', show_dec v)], r_body = b\<rparr>, m, [])
         | None \<Rightarrow> (\<lparr>r_status = 404, r_headers = [], r_body = []\<rparr>, m, []))
      else (\<lparr>r_status = 404, r_headers = [], r_body = []\<rparr>, m, []))"

text \<open>\<open>gossip_with\<close>: \<open>post\<close> is the HTTP client, giving a transport error or a status and the
  outcome of reading the body; \<open>show_status\<close> is reqwest's display of a status.\<close>

definition gossip_with ::
  "(string \<Rightarrow> gossip_payload \<Rightarrow> string + nat \<times> (string + bytes)) \<Rightarrow> (nat \<Rightarrow> string) \<Rightarrow>
   (bytes \<Rightarrow> string + gossip_payload) \<Rightarrow> nat \<Rightarrow> string \<Rightarrow> membership \<Rightarrow>
   unit result \<times> membership \<times> node_info list"
where
  "gossip_with post show_status decode now peer_url m =
     (case post (trim_end_matches CHR ''/'' peer_url @ ''/cluster/sync'')
             \<lparr>g_from = me_snapshot now m, g_members = members_all m\<rparr> of
        Inl e \<Rightarrow> (Inl (Http e), m, [])
      | Inr (status, body) \<Rightarrow>
          if \<not> (200 \<le> status \<and> status < 300)
          then (Inl (bc_error.Cluster (''sync HTTP '' @ show_status status)), m, [])
          else (case body of
              Inl e \<Rightarrow> (Inl (Http e), m, [])
            | Inr b \<Rightarrow>
                (case decode b of
                   Inl e \<Rightarrow> (Inl (bc_error.Cluster (''decode reply: '' @ e)), m, [])
                 | Inr reply \<Rightarrow>
                     if n_cluster_hash (g_from reply) \<noteq> n_cluster_hash (me_template m)
                     then (Inl (bc_error.Cluster (''reply cluster_hash mismatch from '' @ n_id (g_from reply))),
                           count_mismatch m, [])
                     else (case absorb now reply m of
                       (m', ups) \<Rightarrow>
                         (Inr (), m'\<lparr>cl_stats := (cl_stats m')\<lparr>gossip_rounds := gossip_rounds (cl_stats m') + 1\<rparr>\<rparr>,
                          ups)))))"

text \<open>Target selection of \<open>run_gossip_loop\<close>, after the sweep; \<open>r\<close> is the random draw.\<close>

definition pick :: "nat \<Rightarrow> 'a list \<Rightarrow> 'a option" where
  "pick r xs = (if xs = [] then None else Some (xs ! (r mod length xs)))"

definition gossip_target :: "nat \<Rightarrow> string list \<Rightarrow> membership \<Rightarrow> string option" where
  "gossip_target r seeds m =
     (let alive = members_alive m in
      if alive = [] then pick r seeds else map_option gossip_url (pick r alive))"

definition gossip_tick ::
  "(string \<Rightarrow> gossip_payload \<Rightarrow> string + nat \<times> (string + bytes)) \<Rightarrow> (nat \<Rightarrow> string) \<Rightarrow>
   (bytes \<Rightarrow> string + gossip_payload) \<Rightarrow> nat \<Rightarrow> nat \<Rightarrow> string list \<Rightarrow> membership \<Rightarrow>
   membership \<times> string list \<times> node_info list"
where
  "gossip_tick post show_status decode now r seeds m =
     (case sweep_peers now m of (m1, newly_dead) \<Rightarrow>
        (case gossip_target r seeds m1 of
           None \<Rightarrow> (m1, newly_dead, [])
         | Some url \<Rightarrow>
             (case gossip_with post show_status decode now url m1 of
                (_, m2, ups) \<Rightarrow> (m2, newly_dead, ups))))"

text \<open>The start of \<open>run_gossip_loop\<close>: contact every seed in order, whatever the outcome.\<close>

fun contact_seeds ::
  "(string \<Rightarrow> gossip_payload \<Rightarrow> string + nat \<times> (string + bytes)) \<Rightarrow> (nat \<Rightarrow> string) \<Rightarrow>
   (bytes \<Rightarrow> string + gossip_payload) \<Rightarrow> nat \<Rightarrow> string list \<Rightarrow> membership \<Rightarrow> membership \<times> node_info list"
where
  "contact_seeds post show_status decode now [] m = (m, [])"
| "contact_seeds post show_status decode now (s # seeds) m =
     (case gossip_with post show_status decode now s m of
        (_, m1, ups) \<Rightarrow>
          (case contact_seeds post show_status decode now seeds m1 of (m2, ups') \<Rightarrow> (m2, ups @ ups')))"

end
