(* ===== verification/ClusterProps.thy ===== *)
theory ClusterProps
  imports Cluster
begin

text \<open>
  Properties of gossip membership (\<open>src/cluster.rs\<close>): only nodes of the same cluster hash are ever
  admitted and this node always lists itself as alive; merging computes, per peer, the newest record
  in the order (incarnation, last seen, severity), so the result does not depend on the order of
  arrival; a false suspicion is refuted; and the sweep grades peers by age.
\<close>

section \<open>The merge order\<close>

definition rank_key :: "node_info \<Rightarrow> nat \<times> nat \<times> nat" where
  "rank_key n = (incarnation n, last_seen_unix n, rank (n_state n))"

lemma should_update_order: "should_update n e \<longleftrightarrow> rank_key e < rank_key n"
  by (auto simp: should_update_def rank_key_def less_prod_simp)

text \<open>The contract of a merge by precedence: what a table keeps for a key under a stream of
  records is the record of greatest rank among those admitted.\<close>

locale newest_wins =
  fixes key :: "'r \<Rightarrow> 'k :: linorder"
    and put :: "'r \<Rightarrow> 'r option \<Rightarrow> 'r option"
    and admit :: "'r \<Rightarrow> bool"
  assumes put_rejected: "\<not> admit r \<Longrightarrow> put r cur = cur"
    and put_new: "admit r \<Longrightarrow> put r None = Some r"
    and put_old: "admit r \<Longrightarrow> put r (Some c) = Some (if key c < key r then r else c)"
begin

lemma fold_put:
  "map_option key (fold put rs cur) =
     (let ks = (case cur of None \<Rightarrow> {} | Some c \<Rightarrow> {key c}) \<union> key ` {r \<in> set rs. admit r} in
      if ks = {} then None else Some (Max ks))"
proof (induction rs arbitrary: cur)
  case Nil
  then show ?case by (cases cur) auto
next
  case (Cons r rs)
  show ?case
  proof (cases "admit r")
    case False
    then have "{x \<in> set (r # rs). admit x} = {x \<in> set rs. admit x}" by auto
    with Cons False show ?thesis by (simp add: put_rejected)
  next
    case True
    have "key (if key e < key r then r else e) = max (key e) (key r)" for e
      by (auto simp: max_def)
    with True obtain c where c: "put r cur = Some c" "key c = (case cur of None \<Rightarrow> key r | Some e \<Rightarrow> max (key e) (key r))"
      by (cases cur) (auto simp: put_new put_old)
    let ?A = "key ` {x \<in> set rs. admit x}"
    have "insert (key c) ?A \<noteq> {}" "finite ?A" by auto
    moreover have "key ` {x \<in> set (r # rs). admit x} = insert (key r) ?A" using True by auto
    moreover have "Max (insert (max x y) A) = Max (insert x (insert y A))" if "finite A" for x y and A :: "'k set"
      using that by (cases "A = {}") (simp_all add: max.assoc)
    ultimately show ?thesis using c Cons [of "Some c"]
      by (cases cur) (auto simp: Let_def insert_commute simp del: Max_insert)
  qed
qed

end

text \<open>The slot of one peer's id under \<open>merge_one\<close>.\<close>

definition put_record :: "string \<Rightarrow> string \<Rightarrow> node_info \<Rightarrow> node_info option \<Rightarrow> node_info option" where
  "put_record i hash n cur =
     (if n_id n = i \<and> n_cluster_hash n = hash
      then (case cur of None \<Rightarrow> Some n | Some e \<Rightarrow> Some (if should_update n e then n else e))
      else cur)"

interpretation slot: newest_wins rank_key "put_record i hash" "\<lambda>n. n_id n = i \<and> n_cluster_hash n = hash"
  for i hash
  by unfold_locales (auto simp: put_record_def should_update_order)

section \<open>Lemmas\<close>

lemma merge_one_frame [simp]:
  "me_id (fst (merge_one now n acc)) = me_id (fst acc)"
  "me_template (fst (merge_one now n acc)) = me_template (fst acc)"
  by (auto simp: merge_one_def refute_self_def count_mismatch_def Let_def split: prod.splits option.splits)

lemma fold_merge_frame [simp]:
  "me_id (fst (fold (merge_one now) ns acc)) = me_id (fst acc)"
  "me_template (fst (fold (merge_one now) ns acc)) = me_template (fst acc)"
  by (induction ns arbitrary: acc) auto

lemma merge_one_slot:
  assumes "i \<noteq> me_id (fst acc)"
  shows "map_of (members (fst (merge_one now n acc))) i =
     put_record i (n_cluster_hash (me_template (fst acc))) n (map_of (members (fst acc)) i)"
proof -
  obtain m ups where acc: "acc = (m, ups)" by force
  consider (self) "n_id n = me_id m" | (foreign) "n_id n \<noteq> me_id m" "n_cluster_hash n \<noteq> n_cluster_hash (me_template m)"
    | (peer) "n_id n \<noteq> me_id m" "n_cluster_hash n = n_cluster_hash (me_template m)" by blast
  then show ?thesis
  proof cases
    case self
    with assms acc show ?thesis by (simp add: merge_one_def refute_self_def put_record_def map_simps Let_def)
  next
    case foreign
    with acc show ?thesis by (simp add: merge_one_def put_record_def count_mismatch_def)
  next
    case peer
    with acc show ?thesis
      by (cases "map_of (members m) (n_id n)") (auto simp: merge_one_def put_record_def map_simps)
  qed
qed

lemma fold_merge_slot:
  "i \<noteq> me_id (fst acc) \<Longrightarrow>
   map_of (members (fst (fold (merge_one now) ns acc))) i =
     fold (put_record i (n_cluster_hash (me_template (fst acc)))) ns (map_of (members (fst acc)) i)"
  by (induction ns arbitrary: acc) (auto simp: merge_one_slot)

text \<open>The table's well-formedness: ids are the keys, every member has this cluster's hash, and this
  node is listed and alive.\<close>

definition membership_ok :: "membership \<Rightarrow> bool" where
  "membership_ok m \<longleftrightarrow> distinct (map fst (members m)) \<and> n_id (me_template m) = me_id m \<and>
     (\<forall>i n. map_of (members m) i = Some n \<longrightarrow> n_id n = i \<and> n_cluster_hash n = n_cluster_hash (me_template m)) \<and>
     (\<exists>n. map_of (members m) (me_id m) = Some n \<and> n_state n = Alive)"

lemma membership_ok_update:
  assumes "membership_ok m" "n_id n = i" "n_cluster_hash n = n_cluster_hash (me_template m)"
    "i = me_id m \<Longrightarrow> n_state n = Alive"
  shows "membership_ok (m\<lparr>members := AList.update i n (members m)\<rparr>)"
  using assms by (auto simp: membership_ok_def map_simps distinct_keys_update)

lemma membership_ok_cong:
  "members m' = members m \<Longrightarrow> me_id m' = me_id m \<Longrightarrow> me_template m' = me_template m \<Longrightarrow>
   membership_ok m' = membership_ok m"
  by (simp add: membership_ok_def)

lemma count_mismatch_ok [simp]: "membership_ok (count_mismatch m) = membership_ok m"
  by (simp add: count_mismatch_def membership_ok_def)

lemma refute_self_ok:
  assumes "membership_ok m"
  shows "membership_ok (refute_self now n m)"
proof -
  obtain me inc where r: "refute_self now n m = m\<lparr>me_incarnation := inc, members := AList.update (me_id m) me (members m)\<rparr>"
    and me: "n_id me = me_id m" "n_cluster_hash me = n_cluster_hash (me_template m)" "n_state me = Alive"
    using assms by (auto simp: refute_self_def Let_def membership_ok_def)
  have "membership_ok (m\<lparr>members := AList.update (me_id m) me (members m)\<rparr>)"
    using assms me by (intro membership_ok_update) auto
  then show ?thesis unfolding r by (subst membership_ok_cong) auto
qed

lemma merge_one_ok:
  assumes "membership_ok (fst acc)"
  shows "membership_ok (fst (merge_one now n acc))"
proof -
  obtain m ups where acc: "acc = (m, ups)" by force
  then have m: "membership_ok m" using assms by simp
  consider (self) "n_id n = me_id m" | (foreign) "n_id n \<noteq> me_id m" "n_cluster_hash n \<noteq> n_cluster_hash (me_template m)"
    | (peer) "n_id n \<noteq> me_id m" "n_cluster_hash n = n_cluster_hash (me_template m)" by blast
  then show ?thesis
  proof cases
    case self
    with acc m show ?thesis by (simp add: merge_one_def refute_self_ok)
  next
    case foreign
    with acc m show ?thesis by (simp add: merge_one_def)
  next
    case peer
    have "membership_ok (m\<lparr>members := AList.update (n_id n) n (members m)\<rparr>)"
      using m peer by (intro membership_ok_update) auto
    moreover have "membership_ok (m\<lparr>members := ms, cl_stats := st\<rparr>) = membership_ok (m\<lparr>members := ms\<rparr>)" for ms st
      by (rule membership_ok_cong) simp_all
    ultimately show ?thesis using acc m peer
      by (cases "map_of (members m) (n_id n)") (simp_all add: merge_one_def)
  qed
qed

lemma fold_merge_ok: "membership_ok (fst acc) \<Longrightarrow> membership_ok (fst (fold (merge_one now) ns acc))"
  by (induction ns arbitrary: acc) (simp_all add: merge_one_ok)

lemma membership_ok_lookup:
  "membership_ok m \<Longrightarrow> map_of (members m) i = Some n \<Longrightarrow>
   n_id n = i \<and> n_cluster_hash n = n_cluster_hash (me_template m)"
  unfolding membership_ok_def by blast

lemma touch_peer_ok:
  assumes "membership_ok m"
  shows "membership_ok (touch_peer now i m)"
proof (cases "map_of (members m) i")
  case (Some n)
  have "membership_ok (m\<lparr>members := AList.update i (n\<lparr>last_seen_unix := now, n_state := Alive\<rparr>) (members m)\<rparr>)"
    using membership_ok_lookup [OF assms Some] by (intro membership_ok_update assms) simp_all
  with Some show ?thesis by (simp add: touch_peer_def)
qed (simp add: touch_peer_def assms)

lemma map_of_sweep:
  "map_of (fst (sweep_members now me ms)) i =
     (case map_of ms i of
        None \<Rightarrow> None
      | Some n \<Rightarrow> Some (if i = me then n else n\<lparr>n_state := state_for_age (now - last_seen_unix n)\<rparr>))"
proof (induction ms)
  case (Cons p ms)
  obtain j n where p: "p = (j, n)" by force
  have same: "n\<lparr>n_state := n_state n\<rparr> = n" by simp
  from Cons p same show ?case by (auto simp: Let_def split: prod.splits option.splits)
qed simp

lemma keys_sweep: "map fst (fst (sweep_members now me ms)) = map fst ms"
  by (induction ms) (auto simp: Let_def split: prod.splits)

lemma newly_dead:
  "distinct (map fst ms) \<Longrightarrow>
   set (snd (sweep_members now me ms)) =
     {i. i \<noteq> me \<and> (\<exists>n. map_of ms i = Some n \<and> n_state n \<noteq> Dead \<and> state_for_age (now - last_seen_unix n) = Dead)}"
proof (induction ms)
  case (Cons p ms)
  obtain j n where p: "p = (j, n)" by force
  with Cons.prems have "map_of ms j = None" by (auto simp: map_of_eq_None_iff)
  with Cons p show ?case by (auto simp: Let_def split: prod.splits if_splits)
qed simp

lemma sweep_ok: "membership_ok m \<Longrightarrow> membership_ok (fst (sweep_peers now m))"
  by (auto simp: sweep_peers_def membership_ok_def keys_sweep map_of_sweep case_prod_beta split: option.splits)

lemma absorb_ok: "membership_ok m \<Longrightarrow> membership_ok (fst (absorb now p m))"
  using fold_merge_ok [of "(m, [])" now "g_members p @ [g_from p]"]
  by (auto simp: absorb_def merge_def intro!: touch_peer_ok split: prod.splits)

text \<open>One refutation: no overflow while every claimed incarnation is below the top.\<close>

lemma refute_self_inc:
  assumes "incarnation n < U64_MAX" "me_incarnation m \<le> U64_MAX"
  shows "me_incarnation m \<le> me_incarnation (refute_self now n m) \<and> incarnation n \<le> me_incarnation (refute_self now n m)
    \<and> (n_state n \<noteq> Alive \<longrightarrow> incarnation n < me_incarnation (refute_self now n m))
    \<and> me_incarnation (refute_self now n m) \<le> U64_MAX"
  using assms by (auto simp: refute_self_def Let_def u64_add_def U64_MAX_def max_def)

lemma merge_one_inc:
  assumes "n_id n = me_id (fst acc) \<Longrightarrow> incarnation n < U64_MAX" "me_incarnation (fst acc) \<le> U64_MAX"
  shows "me_incarnation (fst acc) \<le> me_incarnation (fst (merge_one now n acc))
    \<and> me_incarnation (fst (merge_one now n acc)) \<le> U64_MAX
    \<and> (n_id n = me_id (fst acc) \<longrightarrow> incarnation n \<le> me_incarnation (fst (merge_one now n acc)) \<and>
         (n_state n \<noteq> Alive \<longrightarrow> incarnation n < me_incarnation (fst (merge_one now n acc))))"
proof -
  obtain m ups where acc: "acc = (m, ups)" by force
  show ?thesis
  proof (cases "n_id n = me_id m")
    case True
    with acc assms refute_self_inc [of n m now] show ?thesis by (simp add: merge_one_def)
  next
    case False
    with acc assms show ?thesis
      by (cases "map_of (members m) (n_id n)") (simp_all add: merge_one_def count_mismatch_def)
  qed
qed

lemma fold_merge_inc:
  assumes "\<forall>n \<in> set ns. n_id n = me_id (fst acc) \<longrightarrow> incarnation n < U64_MAX" "me_incarnation (fst acc) \<le> U64_MAX"
  shows "me_incarnation (fst acc) \<le> me_incarnation (fst (fold (merge_one now) ns acc))
    \<and> (\<forall>n \<in> set ns. n_id n = me_id (fst acc) \<longrightarrow>
         incarnation n \<le> me_incarnation (fst (fold (merge_one now) ns acc)) \<and>
         (n_state n \<noteq> Alive \<longrightarrow> incarnation n < me_incarnation (fst (fold (merge_one now) ns acc))))"
  using assms
proof (induction ns arbitrary: acc)
  case (Cons n ns)
  have one: "me_incarnation (fst acc) \<le> me_incarnation (fst (merge_one now n acc))"
    "me_incarnation (fst (merge_one now n acc)) \<le> U64_MAX"
    "n_id n = me_id (fst acc) \<Longrightarrow> incarnation n \<le> me_incarnation (fst (merge_one now n acc)) \<and>
       (n_state n \<noteq> Alive \<longrightarrow> incarnation n < me_incarnation (fst (merge_one now n acc)))"
    using merge_one_inc [of n acc now] Cons.prems by auto
  from Cons.IH [of "merge_one now n acc"] Cons.prems(1) one
  show ?case by (auto intro: order_trans less_le_trans)
qed simp

lemma rank_pos: "0 < rank s \<longleftrightarrow> s \<noteq> Alive"
  by (cases s) auto

section \<open>Runs\<close>

text \<open>The transitions of a node's membership: a request served, a round of gossip as a client, a
  sweep, and a new Bloom version; codec, network, clock and data are arbitrary.\<close>

inductive cl_step :: "membership \<Rightarrow> membership \<Rightarrow> bool" where
  serve: "cl_step m (fst (snd (gossip_serve decode encode snapshot now meth path body m)))"
| client: "cl_step m (fst (snd (gossip_with post show_status decode now url m)))"
| tick: "cl_step m (fst (sweep_peers now m))"
| version: "cl_step m (set_bloom_version v m)"

lemma frames [simp]:
  "me_id (count_mismatch m) = me_id m" "me_template (count_mismatch m) = me_template m"
  "me_id (touch_peer now i m) = me_id m" "me_template (touch_peer now i m) = me_template m"
  by (simp_all add: count_mismatch_def touch_peer_def split: option.splits)

definition keeps :: "membership \<Rightarrow> membership \<Rightarrow> bool" where
  "keeps m m' \<longleftrightarrow> (membership_ok m \<longrightarrow> membership_ok m') \<and> me_id m' = me_id m \<and> me_template m' = me_template m"

lemma keeps_simps [simp]:
  "keeps m m" "keeps m (count_mismatch m)" "keeps m (m'\<lparr>cl_stats := st\<rparr>) = keeps m m'"
  "keeps m (set_bloom_version v m)" "keeps m (fst (sweep_peers now m))" "keeps m (fst (absorb now p m))"
proof -
  have "membership_ok (m'\<lparr>cl_stats := st\<rparr>) = membership_ok m'" by (rule membership_ok_cong) simp_all
  then show "keeps m (m'\<lparr>cl_stats := st\<rparr>) = keeps m m'" by (simp add: keeps_def)
  have "membership_ok (set_bloom_version v m) = membership_ok m"
    by (rule membership_ok_cong) (simp_all add: set_bloom_version_def)
  then show "keeps m (set_bloom_version v m)" by (simp add: keeps_def set_bloom_version_def)
  show "keeps m (fst (sweep_peers now m))"
    using sweep_ok [of m now] by (simp add: keeps_def sweep_peers_def case_prod_beta)
  show "keeps m (fst (absorb now p m))"
    using absorb_ok [of m now p] fold_merge_frame [of now "g_members p @ [g_from p]" "(m, [])"]
    by (simp add: keeps_def absorb_def merge_def case_prod_beta)
qed (simp_all add: keeps_def)

lemma serve_keeps: "keeps m (fst (snd (gossip_serve decode encode snapshot now meth path body m)))"
  by (simp add: gossip_serve_def case_prod_beta split: sum.splits option.splits)

lemma client_keeps: "keeps m (fst (snd (gossip_with post show_status decode now url m)))"
  by (simp add: gossip_with_def case_prod_beta split: sum.splits)

lemma cl_step_keeps: "cl_step m m' \<Longrightarrow> keeps m m'"
  by (induction rule: cl_step.induct) (simp_all add: serve_keeps client_keeps)

lemma cl_run_ok:
  "cl_step\<^sup>*\<^sup>* m m' \<Longrightarrow> membership_ok m \<Longrightarrow>
   membership_ok m' \<and> me_id m' = me_id m \<and> me_template m' = me_template m"
  by (induction rule: rtranclp_induct) (auto simp: keeps_def dest!: cl_step_keeps)

section \<open>Properties\<close>

text \<open>C26: Only the same cluster. Whatever payloads a node receives as server or as client, in any
  order and number, every member it lists has its own cluster hash, so the peers it will read from
  all have it; it never takes itself for a peer; and it always lists itself as alive.\<close>
theorem only_same_cluster:
  assumes "n_state me = Alive" "cl_step\<^sup>*\<^sup>* (membership_new me st) m"
  shows "list_all (\<lambda>n. n_cluster_hash n = n_cluster_hash me) (members_all m)
    \<and> list_all (\<lambda>n. n_id n \<noteq> n_id me \<and> n_cluster_hash n = n_cluster_hash me \<and> n_state n = Alive) (members_alive m)
    \<and> (\<exists>n. map_of (members m) (n_id me) = Some n \<and> n_state n = Alive)"
proof -
  have "membership_ok (membership_new me st)"
    using assms(1) by (simp add: membership_ok_def membership_new_def)
  with cl_run_ok [OF assms(2)] have ok: "membership_ok m" "me_id m = n_id me" "me_template m = me"
    by (auto simp: membership_new_def)
  have "n_cluster_hash n = n_cluster_hash me" if "(i, n) \<in> set (members m)" for i n
    using that ok membership_ok_lookup [OF ok(1), of i n] by (simp add: membership_ok_def)
  then show ?thesis
    using ok by (auto simp: list_all_iff members_all_def members_alive_def membership_ok_def)
qed

definition sample_node :: "string \<Rightarrow> string \<Rightarrow> nat \<Rightarrow> node_info" where
  "sample_node i h t = \<lparr>n_id = i, transport_url = ''t'', gossip_url = ''g'', n_cluster_hash = h,
     ucx_worker_addr_b64 = None, last_seen_unix = t, n_state = Alive, incarnation = 1, bloom_version = 0\<rparr>"

definition no_stats :: cluster_stats where
  "no_stats = \<lparr>joins = 0, failures = 0, config_mismatches = 0, gossip_rounds = 0\<rparr>"

theorem only_same_cluster_witness:
  "\<exists>n. map_of (members (fst (sweep_peers 99 (membership_new (sample_node ''a'' ''h'' 0) no_stats)))) ''a'' = Some n
     \<and> n_state n = Alive"
  using only_same_cluster [of "sample_node ''a'' ''h'' 0" no_stats, OF _ r_into_rtranclp [where r = cl_step, OF cl_step.tick [where now = 99]]]
  by (simp add: sample_node_def)



text \<open>C27: A false suspicion is refuted. After a merge, what this node says of itself is newer, in
  the merge order, than every claim in the payload that it was suspect or dead, so each peer that
  hears from it replaces the claim; its incarnation never goes down. (Claims of the highest 64-bit
  incarnation are excluded: the increment would wrap.)\<close>
theorem suspicion_refuted:
  assumes "list_all (\<lambda>n. n_id n = me_id m \<longrightarrow> incarnation n < U64_MAX) ns" "me_incarnation m \<le> U64_MAX"
    and "m' = fst (merge now ns m)" "n \<in> set ns" "n_id n = me_id m" "n_state n \<noteq> Alive"
  shows "should_update (me_snapshot now' m') n \<and> me_incarnation m \<le> me_incarnation m'"
  using fold_merge_inc [of ns "(m, [])" now] assms
  by (simp add: merge_def should_update_def me_snapshot_def list_all_iff)

theorem suspicion_refuted_witness:
  "should_update (me_snapshot 0 (fst (merge 9 [(sample_node ''a'' ''h'' 7)\<lparr>n_state := Dead, incarnation := 4\<rparr>]
     (membership_new (sample_node ''a'' ''h'' 0) no_stats)))) ((sample_node ''a'' ''h'' 7)\<lparr>n_state := Dead, incarnation := 4\<rparr>)"
  using suspicion_refuted [of "membership_new (sample_node ''a'' ''h'' 0) no_stats"
      "[(sample_node ''a'' ''h'' 7)\<lparr>n_state := Dead, incarnation := 4\<rparr>]" _ 9, OF _ _ refl]
  by (simp add: membership_new_def sample_node_def U64_MAX_def)

text \<open>The failure detector. A sweep leaves this node's own entry alone and grades every other
  member by the seconds since it was last seen: alive up to 30, suspect up to 60, dead beyond; the
  peers reported as newly dead, whose filters are dropped, are exactly those that were not dead
  before and are now.\<close>
theorem sweep_grades_by_age:
  assumes "distinct (map fst (members m))" "sweep_peers now m = (m', newly)"
  shows "map_of (members m') i =
      (case map_of (members m) i of
         None \<Rightarrow> None
       | Some n \<Rightarrow> Some (if i = me_id m then n else n\<lparr>n_state :=
           (if now - last_seen_unix n \<le> 30 then Alive else if now - last_seen_unix n \<le> 60 then Suspect else Dead)\<rparr>))
    \<and> (i \<in> set newly \<longleftrightarrow> i \<noteq> me_id m \<and>
        (\<exists>n. map_of (members m) i = Some n \<and> n_state n \<noteq> Dead \<and> 60 < now - last_seen_unix n))
    \<and> failures (cl_stats m') = failures (cl_stats m) + length newly"
proof -
  have grade: "state_for_age a = (if a \<le> 30 then Alive else if a \<le> 60 then Suspect else Dead)" for a
    by (simp add: state_for_age_def HEARTBEAT_TIMEOUT_SECS_def)
  have m': "members m' = fst (sweep_members now (me_id m) (members m))" "newly = snd (sweep_members now (me_id m) (members m))"
    "failures (cl_stats m') = failures (cl_stats m) + length newly"
    using assms(2) by (auto simp: sweep_peers_def split: prod.splits)
  have "state_for_age a = Dead \<longleftrightarrow> 60 < a" for a by (simp add: grade)
  then show ?thesis
    using newly_dead [OF assms(1), of now "me_id m"] m'
    by (cases "map_of (members m) i") (simp_all add: map_of_sweep grade)
qed

theorem sweep_grades_by_age_witness:
  "map_of (members (fst (sweep_peers 100 (fst (merge 9 [sample_node ''b'' ''h'' 50]
     (membership_new (sample_node ''a'' ''h'' 0) no_stats)))))) ''b'' =
   Some ((sample_node ''b'' ''h'' 50)\<lparr>n_state := Suspect\<rparr>)"
proof -
  let ?m = "fst (merge 9 [sample_node ''b'' ''h'' 50] (membership_new (sample_node ''a'' ''h'' 0) no_stats))"
  have m: "members ?m = [(''a'', sample_node ''a'' ''h'' 0), (''b'', sample_node ''b'' ''h'' 50)]" "me_id ?m = ''a''"
    by (simp_all add: merge_def merge_one_def membership_new_def sample_node_def)
  obtain m' d where s: "sweep_peers 100 ?m = (m', d)" by force
  from sweep_grades_by_age [OF _ s, of "''b''"] show ?thesis
    unfolding s by (simp add: m) (simp add: sample_node_def)
qed

text \<open>A gossip reply hides the responder's Bloom version. In a reply the responder's own member
  entry, rewritten from its start-up template while it merged the request, carries the same second
  as its \<open>from\<close> record; the requester merges it first, and the \<open>from\<close> record with the current Bloom
  version no longer supersedes it. So the requester ends up with the template's Bloom version.\<close>
theorem reply_hides_bloom_version:
  assumes "n_id (me_template a) \<noteq> me_id b" "n_id (me_template a) = me_id a"
    and "n_cluster_hash (me_template a) = n_cluster_hash (me_template b)"
    and self: "self = (me_template a)\<lparr>incarnation := me_incarnation a, last_seen_unix := now, n_state := Alive\<rparr>"
    and old: "map_of (members b) (me_id a) = Some old" "rank_key old < rank_key self"
  shows "map_of (members (fst (merge now' [self, me_snapshot now a] b))) (me_id a) = Some self
    \<and> bloom_version self = bloom_version (me_template a)
    \<and> bloom_version (me_snapshot now a) = me_bloom_version a"
proof -
  have "rank_key (me_snapshot now a) = rank_key self" by (simp add: self rank_key_def me_snapshot_def)
  moreover have "n_id self = me_id a" "n_id (me_snapshot now a) = me_id a"
    "n_cluster_hash self = n_cluster_hash (me_template b)" "n_cluster_hash (me_snapshot now a) = n_cluster_hash (me_template b)"
    using assms(2,3) by (simp_all add: self me_snapshot_def)
  ultimately show ?thesis
    using fold_merge_slot [of "me_id a" "(b, [])" now' "[self, me_snapshot now a]"] assms(1,2) old
    by (simp add: merge_def put_record_def should_update_order) (simp add: self me_snapshot_def)
qed

theorem reply_hides_bloom_version_witness:
  "map_option bloom_version (map_of (members (fst (merge 9
     [(sample_node ''a'' ''h'' 9), me_snapshot 9 (set_bloom_version 7 (membership_new (sample_node ''a'' ''h'' 0) no_stats))]
     (fst (merge 5 [sample_node ''a'' ''h'' 5] (membership_new (sample_node ''b'' ''h'' 0) no_stats)))))) ''a'') = Some 0"
proof -
  let ?a = "set_bloom_version 7 (membership_new (sample_node ''a'' ''h'' 0) no_stats)"
  let ?b = "fst (merge 5 [sample_node ''a'' ''h'' 5] (membership_new (sample_node ''b'' ''h'' 0) no_stats))"
  have b: "members ?b = [(''b'', sample_node ''b'' ''h'' 0), (''a'', sample_node ''a'' ''h'' 5)]" "me_id ?b = ''b''"
    "me_template ?b = sample_node ''b'' ''h'' 0"
    by (simp_all add: merge_def merge_one_def membership_new_def sample_node_def)
  have "sample_node ''a'' ''h'' 9 = (me_template ?a)\<lparr>incarnation := me_incarnation ?a, last_seen_unix := 9, n_state := Alive\<rparr>"
    by (simp add: sample_node_def set_bloom_version_def membership_new_def)
  from reply_hides_bloom_version [OF _ _ _ this, of ?b "sample_node ''a'' ''h'' 5" 9] b show ?thesis
    by (simp add: set_bloom_version_def membership_new_def sample_node_def rank_key_def)
qed

end
