(* ===== verification/Bloom.thy ===== *)
theory Bloom
  imports ChunkKey
begin

text \<open>
  The Bloom filter that summarises a node's cache for its peers (\<open>Bloom\<close> and \<open>bit_pos\<close> of
  \<open>src/peerindex.rs\<close>). The bit vector is a list of 64-bit words, indexed and masked as the code
  does; the wire form is the bit count and the words, little-endian. What its client relies on is
  the locale \<open>member_filter\<close>, interpreted below on these definitions.
\<close>

unbundle bit_operations_syntax

section \<open>Definitions\<close>

type_synonym u64 = "64 word"

definition BLOOM_K :: nat where
  "BLOOM_K = 4"

record bloom =
  bl_bits :: "u64 list"
  m_bits :: nat

definition bloom_new :: "nat \<Rightarrow> bloom" where
  "bloom_new bits = (let m = max bits 64 in \<lparr>bl_bits = replicate (div_ceil m 64) 0, m_bits = m\<rparr>)"

fun chunks_exact8 :: "bytes \<Rightarrow> bytes list" where
  "chunks_exact8 (a # b # c # d # e # f # g # h # rest) = [a, b, c, d, e, f, g, h] # chunks_exact8 rest"
| "chunks_exact8 _ = []"

definition word_of_le :: "bytes \<Rightarrow> u64" where
  "word_of_le bs = word_of_nat (from_le_bytes bs)"

definition le_of_word :: "u64 \<Rightarrow> bytes" where
  "le_of_word w = le_bytes 8 (unat w)"

definition from_bytes :: "bytes \<Rightarrow> bloom option" where
  "from_bytes b =
     (if length b < 8 then None
      else let m = from_le_bytes (take 8 b) in
        if m < 64 then None
        else let nwords = div_ceil m 64; payload = drop 8 b in
          if length payload \<noteq> nwords * 8 then None
          else Some \<lparr>bl_bits = map word_of_le (chunks_exact8 payload), m_bits = m\<rparr>)"

definition to_bytes :: "bloom \<Rightarrow> bytes" where
  "to_bytes bl = le_bytes 8 (m_bits bl) @ concat (map le_of_word (bl_bits bl))"

definition bit_pos :: "bytes \<Rightarrow> nat \<Rightarrow> nat \<Rightarrow> nat" where
  "bit_pos d i m =
     (let h1 = from_le_bytes (take 8 d);
          h2 = from_le_bytes (take 8 (drop 8 d));
          h = u64_add h1 (u64_mul i h2) in
      h mod m)"

definition set_pos :: "nat \<Rightarrow> bloom \<Rightarrow> bloom" where
  "set_pos pos bl = bl\<lparr>bl_bits :=
     (bl_bits bl)[pos div 64 := (bl_bits bl ! (pos div 64)) OR push_bit (pos mod 64) 1]\<rparr>"

definition test_pos :: "nat \<Rightarrow> bloom \<Rightarrow> bool" where
  "test_pos pos bl \<longleftrightarrow> (bl_bits bl ! (pos div 64)) AND push_bit (pos mod 64) 1 \<noteq> 0"

definition bloom_insert :: "bytes \<Rightarrow> bloom \<Rightarrow> bloom" where
  "bloom_insert digest bl = fold (\<lambda>i bl. set_pos (bit_pos digest i (m_bits bl)) bl) [0..<BLOOM_K] bl"

definition bloom_contains :: "bytes \<Rightarrow> bloom \<Rightarrow> bool" where
  "bloom_contains digest bl = list_all (\<lambda>i. test_pos (bit_pos digest i (m_bits bl)) bl) [0..<BLOOM_K]"

definition byte_len :: "bloom \<Rightarrow> nat" where
  "byte_len bl = 8 + length (bl_bits bl) * 8"

definition bloom_ok :: "bloom \<Rightarrow> bool" where
  "bloom_ok bl \<longleftrightarrow> 64 \<le> m_bits bl \<and> length (bl_bits bl) = div_ceil (m_bits bl) 64"

section \<open>Lemmas\<close>

lemma bloom_ok_new [simp]: "bloom_ok (bloom_new n)"
  by (simp add: bloom_ok_def bloom_new_def Let_def)

text \<open>Every bit position falls inside the vector, so the indexing never goes out of range.\<close>

lemma pos_in_range:
  assumes "bloom_ok bl"
  shows "bit_pos d i (m_bits bl) div 64 < length (bl_bits bl)"
proof -
  have "0 < m_bits bl" using assms by (simp add: bloom_ok_def)
  then have "bit_pos d i (m_bits bl) < m_bits bl" by (simp add: bit_pos_def Let_def)
  then have "bit_pos d i (m_bits bl) < div_ceil (m_bits bl) 64 * 64"
    using div_ceil_le [of 64 "m_bits bl"] by simp
  then show ?thesis using assms by (simp add: bloom_ok_def less_mult_imp_div_less)
qed

lemma test_pos_bit:
  "test_pos pos bl = bit (bl_bits bl ! (pos div 64)) (pos mod 64)"
  by (simp add: test_pos_def push_bit_of_1 and_exp_eq_0_iff_not_bit)

lemma set_pos_ok [simp]: "m_bits (set_pos pos bl) = m_bits bl" "bloom_ok (set_pos pos bl) = bloom_ok bl"
  by (simp_all add: set_pos_def bloom_ok_def)

lemma test_set_pos:
  assumes "pos div 64 < length (bl_bits bl)"
  shows "test_pos pos' (set_pos pos bl) \<longleftrightarrow> pos' = pos \<or> test_pos pos' bl"
proof (cases "pos' div 64 = pos div 64")
  case True
  have "pos' mod 64 = pos mod 64 \<longleftrightarrow> pos' = pos" using True by (metis div_mult_mod_eq)
  with True assms show ?thesis
    by (auto simp: test_pos_bit set_pos_def bit_simps)
next
  case False
  then have "pos' \<noteq> pos" by auto
  with False show ?thesis by (simp add: test_pos_bit set_pos_def)
qed

lemma fold_set_pos:
  assumes "bloom_ok bl"
  shows "m_bits (fold (\<lambda>i bl. set_pos (bit_pos d i (m_bits bl)) bl) is bl) = m_bits bl \<and>
    bloom_ok (fold (\<lambda>i bl. set_pos (bit_pos d i (m_bits bl)) bl) is bl) \<and>
    (test_pos pos (fold (\<lambda>i bl. set_pos (bit_pos d i (m_bits bl)) bl) is bl) \<longleftrightarrow>
       pos \<in> (\<lambda>i. bit_pos d i (m_bits bl)) ` set is \<or> test_pos pos bl)"
  using assms
proof (induction "is" arbitrary: bl)
  case (Cons i "is")
  then show ?case by (auto simp: test_set_pos pos_in_range)
qed simp

lemma bloom_insert_frame [simp]:
  "bloom_ok bl \<Longrightarrow> m_bits (bloom_insert d bl) = m_bits bl"
  "bloom_ok bl \<Longrightarrow> bloom_ok (bloom_insert d bl)"
  using fold_set_pos [of bl d "[0..<BLOOM_K]"] by (auto simp: bloom_insert_def)

lemma bloom_insert_test:
  "bloom_ok bl \<Longrightarrow> test_pos pos (bloom_insert d bl) \<longleftrightarrow>
     pos \<in> (\<lambda>i. bit_pos d i (m_bits bl)) ` {0..<BLOOM_K} \<or> test_pos pos bl"
  using fold_set_pos [of bl d "[0..<BLOOM_K]" pos] by (simp add: bloom_insert_def)

lemma bloom_contains_insert: "bloom_ok bl \<Longrightarrow> bloom_contains d (bloom_insert d bl)"
  by (simp add: bloom_contains_def bloom_insert_test list_all_iff)

lemma bloom_contains_mono: "bloom_ok bl \<Longrightarrow> bloom_contains d bl \<Longrightarrow> bloom_contains d (bloom_insert d' bl)"
  by (simp add: bloom_contains_def bloom_insert_test list_all_iff)

section \<open>The contract of a membership filter\<close>

text \<open>What the peer index needs of a filter: an insertion is never forgotten. The client's
  lemma is that building a filter from any list of digests on top of another contains them all.\<close>

locale member_filter =
  fixes fins :: "'d \<Rightarrow> 'f \<Rightarrow> 'f"
    and has :: "'d \<Rightarrow> 'f \<Rightarrow> bool"
    and good :: "'f \<Rightarrow> bool"
  assumes good_ins: "good f \<Longrightarrow> good (fins d f)"
    and has_ins: "good f \<Longrightarrow> has d (fins d f)"
    and has_mono: "good f \<Longrightarrow> has d f \<Longrightarrow> has d (fins d' f)"
begin

lemma good_fold: "good f \<Longrightarrow> good (fold fins ds f)"
  by (induction ds arbitrary: f) (auto intro: good_ins)

lemma has_fold_mono: "good f \<Longrightarrow> has d f \<Longrightarrow> has d (fold fins ds f)"
  by (induction ds arbitrary: f) (auto intro: good_ins has_mono)

lemma has_fold: "good f \<Longrightarrow> d \<in> set ds \<Longrightarrow> has d (fold fins ds f)"
proof (induction ds arbitrary: f)
  case (Cons d' ds)
  then show ?case by (auto intro: good_ins has_ins has_fold_mono)
qed simp

end

interpretation bf: member_filter bloom_insert bloom_contains bloom_ok
  by unfold_locales (auto intro: bloom_contains_insert bloom_contains_mono)

section \<open>Wire form\<close>

lemma chunks_exact8_words:
  "chunks_exact8 (concat (map le_of_word ws)) = map le_of_word ws"
proof (induction ws)
  case (Cons w ws)
  have "length (le_of_word w) = 8" by (simp add: le_of_word_def)
  then obtain a b c d e f g h where "le_of_word w = [a, b, c, d, e, f, g, h]"
    by (auto simp: numeral_eq_Suc length_Suc_conv)
  with Cons show ?case by simp
qed simp

lemma word_of_le_of_word [simp]: "word_of_le (le_of_word w) = w"
proof -
  have "unat w < 256 ^ 8" using unsigned_less [of w] by simp
  then show ?thesis by (simp add: word_of_le_def le_of_word_def from_le_le_bytes)
qed

lemma length_words: "length (concat (map le_of_word ws)) = length ws * 8"
  by (induction ws) (auto simp: le_of_word_def)

lemma length_chunks: "length b = n * 8 \<Longrightarrow> length (chunks_exact8 b) = n"
proof (induction n arbitrary: b)
  case (Suc n)
  then obtain a1 a2 a3 a4 a5 a6 a7 a8 r where "b = a1 # a2 # a3 # a4 # a5 # a6 # a7 # a8 # r"
    by (auto simp: numeral_eq_Suc length_Suc_conv)
  with Suc show ?case by simp
qed simp

section \<open>Properties\<close>

text \<open>C34: No false negatives. However a filter was built, once a digest has been inserted every
  later lookup of it answers yes, whatever else is inserted afterwards; and every bit access of
  insert and lookup is in range of the vector.\<close>
theorem bloom_no_false_negative:
  "bloom_contains d (fold bloom_insert later (bloom_insert d (fold bloom_insert earlier (bloom_new n))))
   \<and> (\<forall>i. bit_pos d i (max n 64) div 64 < length (bl_bits (fold bloom_insert earlier (bloom_new n))))"
proof -
  let ?f = "fold bloom_insert earlier (bloom_new n)"
  have ok: "bloom_ok ?f" by (rule bf.good_fold) simp
  have "bloom_ok f \<Longrightarrow> m_bits (fold bloom_insert ds f) = m_bits f" for ds f
    by (induction ds arbitrary: f) auto
  from this [OF bloom_ok_new] have "m_bits ?f = max n 64" by (simp add: bloom_new_def Let_def)
  then have "bit_pos d i (max n 64) div 64 < length (bl_bits ?f)" for i
    using pos_in_range [OF ok] by metis
  moreover have "bloom_contains d (fold bloom_insert later (bloom_insert d ?f))"
    using ok by (intro bf.has_fold_mono bloom_contains_insert) simp_all
  ultimately show ?thesis by blast
qed

text \<open>The wire form of a filter round-trips and is checked. A well-formed filter with a 64-bit
  size decodes from its own encoding, whose length is \<open>byte_len\<close>; and anything that decodes at all
  is a well-formed filter, so a lookup in a filter received from a peer never indexes out of range.\<close>
theorem bloom_wire_roundtrip:
  assumes "bloom_ok bl" "m_bits bl < 2 ^ 64"
  shows "from_bytes (to_bytes bl) = Some bl \<and> length (to_bytes bl) = byte_len bl
    \<and> (\<forall>b f. from_bytes b = Some f \<longrightarrow> bloom_ok f \<and> length b = byte_len f)"
proof -
  have "from_le_bytes (take 8 (to_bytes bl)) = m_bits bl"
    using assms(2) by (simp add: to_bytes_def from_le_le_bytes)
  then have "from_bytes (to_bytes bl) = Some bl"
    using assms by (simp add: from_bytes_def to_bytes_def length_words chunks_exact8_words bloom_ok_def Let_def comp_def)
  moreover have "bloom_ok f \<and> length b = byte_len f" if "from_bytes b = Some f" for b f
    using that by (auto simp: from_bytes_def bloom_ok_def byte_len_def length_chunks Let_def split: if_splits)
  ultimately show ?thesis by (simp add: to_bytes_def byte_len_def length_words)
qed

theorem bloom_wire_roundtrip_witness:
  "from_bytes (to_bytes (bloom_insert [1, 2, 3, 4, 5, 6, 7, 8] (bloom_new 64))) =
     Some (bloom_insert [1, 2, 3, 4, 5, 6, 7, 8] (bloom_new 64))"
proof -
  have "bloom_ok (bloom_insert [1, 2, 3, 4, 5, 6, 7, 8] (bloom_new 64))" by simp
  moreover have "m_bits (bloom_insert [1, 2, 3, 4, 5, 6, 7, 8] (bloom_new 64)) < 2 ^ 64"
    by simp (simp add: bloom_new_def Let_def)
  ultimately show ?thesis using bloom_wire_roundtrip by blast
qed

end
