(* ===== verification/PeerIndex.thy ===== *)
theory PeerIndex
  imports Bloom Cluster
begin

text \<open>
  The peer index (\<open>src/peerindex.rs\<close>): the local Bloom filter with its version and the overlay of
  digests inserted during a rebuild, the filters pulled from peers, rendezvous hashing and the
  ranking of candidate peers. Each operation that takes locks is split at its lock boundaries
  (\<open>note_push\<close>, \<open>note_apply\<close>, \<open>rebuild_swap\<close>), so that \<open>advert_step\<close> can interleave them.
\<close>

section \<open>Definitions\<close>

record remote_bloom =
  rb_version :: nat
  rb_bloom :: bloom

record peer_index =
  pi_me_id :: string
  pi_bloom_bits :: nat
  pi_version :: nat
  pi_bloom :: bloom
  pi_pending :: "bytes list"
  pi_remote :: "(string, remote_bloom) hmap"

definition peer_index_new :: "string \<Rightarrow> nat \<Rightarrow> peer_index" where
  "peer_index_new me bits = \<lparr>pi_me_id = me, pi_bloom_bits = bits, pi_version = 1, pi_bloom = bloom_new bits,
     pi_pending = [], pi_remote = []\<rparr>"

definition note_push :: "bytes \<Rightarrow> peer_index \<Rightarrow> peer_index" where
  "note_push digest p = p\<lparr>pi_pending := pi_pending p @ [digest]\<rparr>"

definition note_apply :: "bytes \<Rightarrow> peer_index \<Rightarrow> peer_index" where
  "note_apply digest p = p\<lparr>pi_bloom := bloom_insert digest (pi_bloom p), pi_version := sat_add (pi_version p) 1\<rparr>"

text \<open>The second component is the version handed to the \<open>on_version_change\<close> hook.\<close>

definition note_local_insert :: "bytes \<Rightarrow> peer_index \<Rightarrow> peer_index \<times> nat" where
  "note_local_insert digest p = (let p' = note_apply digest (note_push digest p) in (p', pi_version p'))"

definition rebuild_build :: "hash_fn \<Rightarrow> nat \<Rightarrow> chunk_key list \<Rightarrow> bloom" where
  "rebuild_build sha bits ks = fold (\<lambda>k. bloom_insert (key_digest sha k)) ks (bloom_new bits)"

definition rebuild_swap :: "bloom \<Rightarrow> peer_index \<Rightarrow> peer_index" where
  "rebuild_swap new p = p\<lparr>pi_bloom := fold bloom_insert (pi_pending p) new, pi_pending := [],
     pi_version := sat_add (pi_version p) 1\<rparr>"

definition rebuild_local_from_cache :: "hash_fn \<Rightarrow> chunk_key list \<Rightarrow> peer_index \<Rightarrow> peer_index \<times> nat" where
  "rebuild_local_from_cache sha live p =
     (let p' = rebuild_swap (rebuild_build sha (pi_bloom_bits p) live) p in (p', pi_version p'))"

definition local_version :: "peer_index \<Rightarrow> nat" where
  "local_version p = pi_version p"

definition local_snapshot :: "peer_index \<Rightarrow> nat \<times> bytes" where
  "local_snapshot p = (pi_version p, to_bytes (pi_bloom p))"

definition ingest_remote :: "string \<Rightarrow> nat \<Rightarrow> bytes \<Rightarrow> peer_index \<Rightarrow> bool \<times> peer_index" where
  "ingest_remote peer v b p =
     (case from_bytes b of
        Some bl \<Rightarrow> (True, p\<lparr>pi_remote := AList.update peer \<lparr>rb_version = v, rb_bloom = bl\<rparr> (pi_remote p)\<rparr>)
      | None \<Rightarrow> (False, p))"

definition remote_version :: "string \<Rightarrow> peer_index \<Rightarrow> nat option" where
  "remote_version peer p = map_option rb_version (map_of (pi_remote p) peer)"

definition drop_remote :: "string \<Rightarrow> peer_index \<Rightarrow> peer_index" where
  "drop_remote peer p = p\<lparr>pi_remote := AList.delete peer (pi_remote p)\<rparr>"

definition hrw_score :: "hash_fn \<Rightarrow> string \<Rightarrow> bytes \<Rightarrow> nat" where
  "hrw_score sha peer digest = from_le_bytes (take 8 (sha (as_bytes peer @ digest)))"

fun hrw_loop :: "(string \<Rightarrow> nat) \<Rightarrow> node_info list \<Rightarrow> string \<times> nat \<Rightarrow> string \<times> nat" where
  "hrw_loop score [] best = best"
| "hrw_loop score (n # alive) (best_id, best_score) =
     (let s = score (n_id n) in
      if s > best_score then hrw_loop score alive (n_id n, s) else hrw_loop score alive (best_id, best_score))"

definition hrw_top_id :: "hash_fn \<Rightarrow> chunk_key \<Rightarrow> node_info list \<Rightarrow> peer_index \<Rightarrow> string" where
  "hrw_top_id sha key alive p =
     (let digest = key_digest sha key; score = (\<lambda>i. hrw_score sha i digest) in
      fst (hrw_loop score alive (pi_me_id p, score (pi_me_id p))))"

record candidate_set =
  cand_yes :: "node_info list"
  cand_maybe :: "node_info list"

fun rank_loop ::
  "(string, remote_bloom) hmap \<Rightarrow> bytes \<Rightarrow> nat \<Rightarrow> nat \<Rightarrow> node_info list \<Rightarrow> candidate_set \<Rightarrow> candidate_set"
where
  "rank_loop remote digest max_yes max_maybe [] acc = acc"
| "rank_loop remote digest max_yes max_maybe (n # ns) acc =
     rank_loop remote digest max_yes max_maybe ns
       (case map_of remote (n_id n) of
          Some r \<Rightarrow>
            if bloom_contains digest (rb_bloom r) \<and> length (cand_yes acc) < max_yes
            then acc\<lparr>cand_yes := cand_yes acc @ [n]\<rparr> else acc
        | None \<Rightarrow>
            if length (cand_maybe acc) < max_maybe then acc\<lparr>cand_maybe := cand_maybe acc @ [n]\<rparr> else acc)"

text \<open>\<open>sort_by_key\<close> with \<open>Reverse\<close>: a stable sort by decreasing score.\<close>

definition rank_candidates ::
  "hash_fn \<Rightarrow> chunk_key \<Rightarrow> node_info list \<Rightarrow> nat \<Rightarrow> nat \<Rightarrow> peer_index \<Rightarrow> candidate_set"
where
  "rank_candidates sha key alive max_yes max_maybe p =
     (let digest = key_digest sha key;
          scored = sort_key (\<lambda>sn. - int (fst sn)) (map (\<lambda>n. (hrw_score sha (n_id n) digest, n)) alive) in
      rank_loop (pi_remote p) digest max_yes max_maybe (map snd scored) \<lparr>cand_yes = [], cand_maybe = []\<rparr>)"

section \<open>Interleaved inserts, evictions and rebuilds\<close>

text \<open>
  A node's advertising state: the keys its cache tracks, its peer index, the inserts in flight
  (thread, key and whether its digest has been pushed) and the snapshots of the rebuilds in
  progress. A thread's insert is \<open>Commit\<close> (the cache tracks the key), \<open>Push\<close>, \<open>Apply\<close>; a
  rebuild is \<open>Snapshot\<close>, \<open>Swap\<close>; \<open>Evict\<close> drops keys from the cache.
\<close>

record advert =
  ad_live :: "chunk_key list"
  ad_index :: peer_index
  ad_flight :: "(nat, chunk_key \<times> bool) hmap"
  ad_builds :: "(nat, chunk_key list) hmap"

inductive advert_step :: "hash_fn \<Rightarrow> nat \<Rightarrow> advert \<Rightarrow> advert \<Rightarrow> bool" for sha :: hash_fn and max_builds :: nat where
  Commit: "map_of (ad_flight a) t = None \<Longrightarrow>
     advert_step sha max_builds a
       (a\<lparr>ad_live := List.insert k (ad_live a), ad_flight := AList.update t (k, False) (ad_flight a)\<rparr>)"
| Push: "map_of (ad_flight a) t = Some (k, False) \<Longrightarrow>
     advert_step sha max_builds a
       (a\<lparr>ad_index := note_push (key_digest sha k) (ad_index a), ad_flight := AList.update t (k, True) (ad_flight a)\<rparr>)"
| Apply: "map_of (ad_flight a) t = Some (k, True) \<Longrightarrow>
     advert_step sha max_builds a
       (a\<lparr>ad_index := note_apply (key_digest sha k) (ad_index a), ad_flight := AList.delete t (ad_flight a)\<rparr>)"
| Evict: "advert_step sha max_builds a (a\<lparr>ad_live := filter P (ad_live a)\<rparr>)"
| Snapshot: "length (ad_builds a) < max_builds \<Longrightarrow> map_of (ad_builds a) r = None \<Longrightarrow>
     advert_step sha max_builds a (a\<lparr>ad_builds := AList.update r (ad_live a) (ad_builds a)\<rparr>)"
| Swap: "map_of (ad_builds a) r = Some ks \<Longrightarrow>
     advert_step sha max_builds a
       (a\<lparr>ad_index := rebuild_swap (rebuild_build sha (pi_bloom_bits (ad_index a)) ks) (ad_index a),
          ad_builds := AList.delete r (ad_builds a)\<rparr>)"

definition advert_init :: "string \<Rightarrow> nat \<Rightarrow> advert" where
  "advert_init me bits = \<lparr>ad_live = [], ad_index = peer_index_new me bits, ad_flight = [], ad_builds = []\<rparr>"

text \<open>The keys a peer must find advertised: tracked, with no insert of theirs under way.\<close>

definition flying :: "(nat, chunk_key \<times> bool) hmap \<Rightarrow> chunk_key \<Rightarrow> bool \<Rightarrow> bool" where
  "flying m k b \<longleftrightarrow> (\<exists>t. map_of m t = Some (k, b))"

definition settled :: "advert \<Rightarrow> chunk_key \<Rightarrow> bool" where
  "settled a k \<longleftrightarrow> k \<in> set (ad_live a) \<and> \<not> flying (ad_flight a) k False \<and> \<not> flying (ad_flight a) k True"

section \<open>Lemmas\<close>

lemma fold_insert_keys:
  "fold (\<lambda>k. bloom_insert (key_digest sha k)) ks f = fold bloom_insert (map (key_digest sha) ks) f"
  by (simp add: fold_map comp_def)

lemma rebuild_build_ok [simp]: "bloom_ok (rebuild_build sha bits ks)"
  unfolding rebuild_build_def fold_insert_keys by (rule bf.good_fold) simp

lemma rebuild_build_has: "k \<in> set ks \<Longrightarrow> bloom_contains (key_digest sha k) (rebuild_build sha bits ks)"
  unfolding rebuild_build_def fold_insert_keys by (rule bf.has_fold) auto

lemma rebuild_swap_ok: "bloom_ok (pi_bloom (rebuild_swap (rebuild_build sha bits ks) p))"
  by (simp add: rebuild_swap_def bf.good_fold)

lemma rebuild_swap_has:
  "k \<in> set ks \<or> key_digest sha k \<in> set (pi_pending p) \<Longrightarrow>
   bloom_contains (key_digest sha k) (pi_bloom (rebuild_swap (rebuild_build sha bits ks) p))"
  by (auto simp: rebuild_swap_def intro: bf.has_fold bf.has_fold_mono rebuild_build_has)

text \<open>The invariant behind the overlay, for one rebuild at a time.\<close>

definition advert_inv :: "hash_fn \<Rightarrow> advert \<Rightarrow> bool" where
  "advert_inv sha a \<longleftrightarrow>
     bloom_ok (pi_bloom (ad_index a)) \<and> length (ad_builds a) \<le> 1 \<and>
     (\<forall>k. settled a k \<longrightarrow> bloom_contains (key_digest sha k) (pi_bloom (ad_index a))) \<and>
     (\<forall>r ks k. map_of (ad_builds a) r = Some ks \<longrightarrow> k \<in> set (ad_live a) \<longrightarrow>
        \<not> flying (ad_flight a) k False \<longrightarrow>
        k \<in> set ks \<or> key_digest sha k \<in> set (pi_pending (ad_index a)))"

lemma single_build:
  "length m \<le> 1 \<Longrightarrow> map_of m r = Some x \<Longrightarrow> m = [(r, x)]"
  by (cases m) (auto split: if_splits)

lemma flying_commit:
  assumes "map_of m t = None"
  shows "flying (AList.update t (k, c) m) k' b \<longleftrightarrow> (k' = k \<and> b = c) \<or> flying m k' b"
proof
  assume "flying (AList.update t (k, c) m) k' b"
  then show "(k' = k \<and> b = c) \<or> flying m k' b"
    by (auto simp: flying_def map_of_update split: if_splits)
next
  assume "(k' = k \<and> b = c) \<or> flying m k' b"
  then show "flying (AList.update t (k, c) m) k' b"
  proof
    assume "k' = k \<and> b = c"
    then show ?thesis by (auto simp: flying_def map_of_update)
  next
    assume "flying m k' b"
    then obtain u where "map_of m u = Some (k', b)" by (auto simp: flying_def)
    moreover from this assms have "u \<noteq> t" by auto
    ultimately show ?thesis by (auto simp: flying_def map_of_update intro!: exI [of _ u])
  qed
qed

lemma flying_push:
  assumes "map_of m t = Some (k, False)"
  shows "flying (AList.update t (k, True) m) k True"
    and "flying m k' b \<Longrightarrow> flying (AList.update t (k, True) m) k' b \<or> (k' = k \<and> \<not> b)"
proof -
  show "flying (AList.update t (k, True) m) k True" by (auto simp: flying_def map_of_update)
  assume "flying m k' b"
  then obtain u where u: "map_of m u = Some (k', b)" by (auto simp: flying_def)
  show "flying (AList.update t (k, True) m) k' b \<or> (k' = k \<and> \<not> b)"
  proof (cases "u = t")
    case True
    with u assms show ?thesis by simp
  next
    case False
    with u show ?thesis by (auto simp: flying_def map_of_update intro!: exI [of _ u])
  qed
qed

lemma flying_apply:
  assumes "map_of m t = Some (k, True)" "flying m k' b"
  shows "flying (AList.delete t m) k' b \<or> (k' = k \<and> b)"
proof -
  obtain u where u: "map_of m u = Some (k', b)" using assms(2) by (auto simp: flying_def)
  show ?thesis
  proof (cases "u = t")
    case True
    with u assms(1) show ?thesis by simp
  next
    case False
    with u show ?thesis by (auto simp: flying_def map_of_delete intro!: exI [of _ u])
  qed
qed

lemma advert_inv_init: "advert_inv sha (advert_init me bits)"
  by (simp add: advert_inv_def advert_init_def settled_def peer_index_new_def)

lemma advert_invI:
  assumes "bloom_ok (pi_bloom (ad_index a))" "length (ad_builds a) \<le> 1"
    and "\<And>k. k \<in> set (ad_live a) \<Longrightarrow> \<not> flying (ad_flight a) k False \<Longrightarrow> \<not> flying (ad_flight a) k True \<Longrightarrow>
      bloom_contains (key_digest sha k) (pi_bloom (ad_index a))"
    and "\<And>r ks k. map_of (ad_builds a) r = Some ks \<Longrightarrow> k \<in> set (ad_live a) \<Longrightarrow> \<not> flying (ad_flight a) k False \<Longrightarrow>
      k \<in> set ks \<or> key_digest sha k \<in> set (pi_pending (ad_index a))"
  shows "advert_inv sha a"
  using assms unfolding advert_inv_def settled_def by blast

lemma advert_invD:
  assumes "advert_inv sha a"
  shows "bloom_ok (pi_bloom (ad_index a))" "length (ad_builds a) \<le> 1"
    and "k \<in> set (ad_live a) \<Longrightarrow> \<not> flying (ad_flight a) k False \<Longrightarrow> \<not> flying (ad_flight a) k True \<Longrightarrow>
      bloom_contains (key_digest sha k) (pi_bloom (ad_index a))"
    and "map_of (ad_builds a) r = Some ks \<Longrightarrow> k \<in> set (ad_live a) \<Longrightarrow> \<not> flying (ad_flight a) k False \<Longrightarrow>
      k \<in> set ks \<or> key_digest sha k \<in> set (pi_pending (ad_index a))"
  using assms unfolding advert_inv_def settled_def by blast+

lemma advert_inv_step:
  assumes "advert_step sha 1 a a'" "advert_inv sha a"
  shows "advert_inv sha a'"
  using assms
proof (induction rule: advert_step.induct)
  case (Commit a t k)
  note inv = advert_invD [OF Commit(2)]
  show ?case
    by (rule advert_invI) (use inv in \<open>auto simp: flying_commit [OF Commit(1)]\<close>)
next
  case (Push a t k)
  note inv = advert_invD [OF Push(2)] and fl = flying_push [OF Push(1)]
  show ?case
  proof (rule advert_invI, goal_cases)
    case (3 k')
    then show ?case using inv(3) [of k'] fl by (auto simp: note_push_def)
  next
    case (4 r ks k')
    then show ?case using inv(4) [of r ks k'] fl by (auto simp: note_push_def)
  qed (use inv in \<open>simp_all add: note_push_def\<close>)
next
  case (Apply a t k)
  note inv = advert_invD [OF Apply(2)] and fl = flying_apply [OF Apply(1)]
  show ?case
  proof (rule advert_invI, goal_cases)
    case (3 k')
    then show ?case using inv(3) [of k'] fl [of k'] bloom_contains_insert [OF inv(1)] bloom_contains_mono [OF inv(1)]
      by (auto simp: note_apply_def)
  next
    case (4 r ks k')
    then show ?case using inv(4) [of r ks k'] fl [of k' False] by (auto simp: note_apply_def)
  qed (use inv in \<open>simp_all add: note_apply_def\<close>)
next
  case (Evict a P)
  show ?case by (rule advert_invI) (use advert_invD [OF Evict] in auto)
next
  case (Snapshot a r)
  then have "ad_builds a = []" by simp
  then show ?case
    by (intro advert_invI) (use advert_invD [OF Snapshot(3)] in \<open>auto split: if_splits\<close>)
next
  case (Swap a r ks)
  note inv = advert_invD [OF Swap(2)]
  have "ad_builds a = [(r, ks)]" using inv(2) Swap(1) by (rule single_build)
  then show ?case
    by (intro advert_invI) (use inv(4) [OF Swap(1)] in \<open>auto simp: rebuild_swap_ok intro: rebuild_swap_has\<close>)
qed

lemma advert_run_inv: "(advert_step sha 1)\<^sup>*\<^sup>* a a' \<Longrightarrow> advert_inv sha a \<Longrightarrow> advert_inv sha a'"
  by (induction rule: rtranclp_induct) (auto intro: advert_inv_step)

text \<open>The rendezvous loop returns the first id of greatest score.\<close>

lemma hrw_loop_max:
  "best_score = score best_id \<Longrightarrow>
   score (fst (hrw_loop score alive (best_id, best_score))) = Max (insert (score best_id) ((\<lambda>n. score (n_id n)) ` set alive))
   \<and> fst (hrw_loop score alive (best_id, best_score)) \<in> insert best_id (n_id ` set alive)"
proof (induction alive arbitrary: best_id best_score)
  case (Cons n alive)
  have "Max (insert x (insert y A)) = max x (Max (insert y A))" if "finite A" for x y :: nat and A
    using that by simp
  have m: "Max (insert x (insert y A)) = (if x < y then Max (insert y A) else Max (insert x A))"
    if "finite A" for x y :: nat and A
    using that by (cases "A = {}") (auto simp: max_def)
  from Cons.IH [of "score (n_id n)" "n_id n"] Cons.IH [of best_score best_id] Cons.prems show ?case
    by (auto simp: Let_def m simp del: Max_insert)
qed simp

lemma rank_loop_spec:
  "rank_loop remote digest max_yes max_maybe ns acc =
     \<lparr>cand_yes = cand_yes acc @ take (max_yes - length (cand_yes acc))
        (filter (\<lambda>n. case map_of remote (n_id n) of Some r \<Rightarrow> bloom_contains digest (rb_bloom r) | None \<Rightarrow> False) ns),
      cand_maybe = cand_maybe acc @ take (max_maybe - length (cand_maybe acc))
        (filter (\<lambda>n. map_of remote (n_id n) = None) ns)\<rparr>"
proof (induction ns arbitrary: acc)
  case (Cons n ns)
  have room: "take (m - l) (x # xs) = (if l < m then x # take (m - Suc l) xs else [])" for m l and x :: node_info and xs
    by (cases "m - l") (auto dest: arg_cong [where f = "\<lambda>x. x - 1"])
  show ?case
    by (cases "map_of remote (n_id n)") (simp_all add: Cons room)
qed simp

lemma bloom_new_empty: "\<not> bloom_contains d (bloom_new n)"
proof -
  have "bit_pos d 0 (max n 64) div 64 < length (bl_bits (bloom_new n))"
    using pos_in_range [OF bloom_ok_new, of d 0 n] by (simp add: bloom_new_def Let_def)
  then have "\<not> test_pos (bit_pos d 0 (m_bits (bloom_new n))) (bloom_new n)"
    by (simp add: test_pos_bit bloom_new_def Let_def)
  then show ?thesis by (auto simp: bloom_contains_def BLOOM_K_def list_all_iff)
qed

lemma map_snd_scored:
  "map snd (sort_key (\<lambda>sn. - int (fst sn)) (map (\<lambda>n. (f n, n)) xs)) = sort_key (\<lambda>n. - int (f n)) xs"
proof -
  have ins: "map snd (insort_key (\<lambda>sn. - int (fst sn)) (f x, x) (map (\<lambda>n. (f n, n)) ys)) =
      insort_key (\<lambda>n. - int (f n)) x ys" for x and ys :: "'a list"
    by (induction ys) (auto simp: comp_def)
  have pairs: "sort_key (\<lambda>sn. - int (fst sn)) (map (\<lambda>n. (f n, n)) xs) =
      map (\<lambda>n. (f n, n)) (sort_key (\<lambda>n. - int (f n)) xs)"
  proof (induction xs)
    case (Cons x xs)
    have "insort_key (\<lambda>sn. - int (fst sn)) (f x, x) (map (\<lambda>n. (f n, n)) ys) =
        map (\<lambda>n. (f n, n)) (insort_key (\<lambda>n. - int (f n)) x ys)" for ys
      by (induction ys) auto
    with Cons show ?case by simp
  qed simp
  show ?thesis by (simp add: pairs comp_def)
qed

lemma rank_candidates_eq:
  "rank_candidates sha key alive max_yes max_maybe p =
     (let ranked = sort_key (\<lambda>n. - int (hrw_score sha (n_id n) (key_digest sha key))) alive in
      \<lparr>cand_yes = take max_yes (filter (\<lambda>n. case map_of (pi_remote p) (n_id n) of
           Some r \<Rightarrow> bloom_contains (key_digest sha key) (rb_bloom r) | None \<Rightarrow> False) ranked),
       cand_maybe = take max_maybe (filter (\<lambda>n. map_of (pi_remote p) (n_id n) = None) ranked)\<rparr>)"
  by (simp add: rank_candidates_def rank_loop_spec map_snd_scored Let_def)

lemma sorted_take_filter: "sorted (map f xs) \<Longrightarrow> sorted (map f (take n (filter P xs)))"
  by (metis sorted_wrt_take take_map sorted_filter)

section \<open>Properties\<close>

text \<open>C4: No lost advertisement. However inserts (commit to the cache, push to the overlay, apply to
  the filter), evictions and a rebuild (snapshot of the live keys, later swap) interleave, with one
  rebuild at a time, the published filter contains every tracked key none of whose inserts is still
  under way: the overlay covers the window between a rebuild's snapshot and its swap.\<close>
theorem no_lost_advertisement:
  assumes "(advert_step sha 1)\<^sup>*\<^sup>* (advert_init me bits) a" "settled a k"
  shows "bloom_contains (key_digest sha k) (pi_bloom (ad_index a))"
  using advert_run_inv [OF assms(1) advert_inv_init] assms(2) by (simp add: advert_inv_def)

definition a_key :: chunk_key where
  "a_key = \<lparr>key_mount = ''m'', key_blob = ''b'', key_offset = 0\<rparr>"

definition advert_after :: "hash_fn \<Rightarrow> advert \<Rightarrow> advert" where
  "advert_after sha a = a\<lparr>ad_live := [a_key], ad_index := note_apply (key_digest sha a_key) (note_push (key_digest sha a_key) (ad_index a))\<rparr>"

lemma insert_run:
  assumes "ad_live a = []" "ad_flight a = []"
  shows "(advert_step sha b)\<^sup>*\<^sup>* a (advert_after sha a)"
proof -
  let ?a1 = "a\<lparr>ad_live := List.insert a_key (ad_live a), ad_flight := AList.update 0 (a_key, False) (ad_flight a)\<rparr>"
  let ?a2 = "?a1\<lparr>ad_index := note_push (key_digest sha a_key) (ad_index ?a1), ad_flight := AList.update 0 (a_key, True) (ad_flight ?a1)\<rparr>"
  let ?a3 = "?a2\<lparr>ad_index := note_apply (key_digest sha a_key) (ad_index ?a2), ad_flight := AList.delete 0 (ad_flight ?a2)\<rparr>"
  have "advert_step sha b a ?a1" using assms by (intro Commit) simp
  moreover have "advert_step sha b ?a1 ?a2" using assms by (intro Push) simp
  moreover have "advert_step sha b ?a2 ?a3" using assms by (intro Apply) simp
  moreover have "?a3 = advert_after sha a" using assms by (simp add: advert_after_def)
  ultimately show ?thesis by (metis (no_types, lifting) converse_rtranclp_into_rtranclp rtranclp.rtrancl_refl)
qed

theorem no_lost_advertisement_witness:
  "bloom_contains (key_digest (\<lambda>b. b) a_key) (pi_bloom (ad_index (advert_after (\<lambda>b. b) (advert_init ''n'' 64))))"
proof (rule no_lost_advertisement)
  show "(advert_step (\<lambda>b. b) 1)\<^sup>*\<^sup>* (advert_init ''n'' 64) (advert_after (\<lambda>b. b) (advert_init ''n'' 64))"
    by (rule insert_run) (simp_all add: advert_init_def)
  show "settled (advert_after (\<lambda>b. b) (advert_init ''n'' 64)) a_key"
    by (simp add: settled_def flying_def advert_after_def advert_init_def)
qed

text \<open>Two rebuilds at once can lose an advertisement. The periodic rebuild and the one that
  clearing a node starts may overlap; then the first swap drains the overlay and the second installs
  a filter built from a snapshot taken before the insert, so a tracked chunk whose insert completed is
  missing from the published filter until the next rebuild.\<close>
theorem overlapping_rebuilds_lose:
  "\<exists>a. (advert_step sha 2)\<^sup>*\<^sup>* (advert_init me bits) a \<and> settled a a_key
     \<and> \<not> bloom_contains (key_digest sha a_key) (pi_bloom (ad_index a))"
proof -
  let ?S = "advert_step sha 2"
  let ?i = "advert_init me bits"
  let ?b1 = "?i\<lparr>ad_builds := AList.update 0 (ad_live ?i) (ad_builds ?i)\<rparr>"
  let ?b2 = "?b1\<lparr>ad_builds := AList.update 1 (ad_live ?b1) (ad_builds ?b1)\<rparr>"
  let ?c = "advert_after sha ?b2"
  let ?s1 = "?c\<lparr>ad_index := rebuild_swap (rebuild_build sha (pi_bloom_bits (ad_index ?c)) []) (ad_index ?c),
       ad_builds := AList.delete 0 (ad_builds ?c)\<rparr>"
  let ?s2 = "?s1\<lparr>ad_index := rebuild_swap (rebuild_build sha (pi_bloom_bits (ad_index ?s1)) []) (ad_index ?s1),
       ad_builds := AList.delete 1 (ad_builds ?s1)\<rparr>"
  have "?S ?i ?b1" by (rule Snapshot) (simp_all add: advert_init_def)
  moreover have "?S ?b1 ?b2" by (rule Snapshot) (simp_all add: advert_init_def)
  moreover have "?S\<^sup>*\<^sup>* ?b2 ?c" by (rule insert_run) (simp_all add: advert_init_def)
  moreover have "?S ?c ?s1" by (rule Swap) (simp add: advert_after_def advert_init_def)
  moreover have "?S ?s1 ?s2" by (rule Swap) (simp add: advert_after_def advert_init_def)
  ultimately have "?S\<^sup>*\<^sup>* ?i ?s2"
    by (meson converse_rtranclp_into_rtranclp rtranclp.rtrancl_into_rtrancl)
  moreover have "settled ?s2 a_key"
    by (simp add: settled_def flying_def advert_after_def advert_init_def)
  moreover have "pi_bloom (ad_index ?s2) = bloom_new bits"
    by (simp add: rebuild_swap_def rebuild_build_def advert_after_def advert_init_def note_apply_def note_push_def
        peer_index_new_def)
  then have "\<not> bloom_contains (key_digest sha a_key) (pi_bloom (ad_index ?s2))"
    using bloom_new_empty by metis
  ultimately show ?thesis by blast
qed

text \<open>C28: Every node elects the same stampede leader. Two nodes that see the same set of node ids
  (each counting itself) compute the same rendezvous leader for a chunk, whatever the order of their
  member tables, as long as the scores of those ids for that chunk differ; the leader has the greatest
  score.\<close>
theorem hrw_agreement:
  assumes "insert (pi_me_id p) (n_id ` set alive) = insert (pi_me_id q) (n_id ` set alive')"
    and "inj_on (\<lambda>i. hrw_score sha i (key_digest sha key)) (insert (pi_me_id p) (n_id ` set alive))"
  shows "hrw_top_id sha key alive p = hrw_top_id sha key alive' q
    \<and> hrw_top_id sha key alive p \<in> insert (pi_me_id p) (n_id ` set alive)
    \<and> hrw_score sha (hrw_top_id sha key alive p) (key_digest sha key) =
        Max ((\<lambda>i. hrw_score sha i (key_digest sha key)) ` insert (pi_me_id p) (n_id ` set alive))"
proof -
  let ?f = "\<lambda>i. hrw_score sha i (key_digest sha key)"
  have top: "?f (hrw_top_id sha key xs r) = Max (?f ` insert (pi_me_id r) (n_id ` set xs))
      \<and> hrw_top_id sha key xs r \<in> insert (pi_me_id r) (n_id ` set xs)" for xs r
    using hrw_loop_max [of "?f (pi_me_id r)" ?f "pi_me_id r" xs] by (simp add: hrw_top_id_def Let_def image_image)
  have "?f (hrw_top_id sha key alive p) = ?f (hrw_top_id sha key alive' q)"
    unfolding conjunct1 [OF top] assms(1) ..
  then have "hrw_top_id sha key alive p = hrw_top_id sha key alive' q"
    by (rule inj_onD [OF assms(2)]) (use top [of alive p] top [of alive' q] assms(1) in simp_all)
  with top [of alive p] show ?thesis by blast
qed

theorem hrw_agreement_witness:
  "hrw_top_id (\<lambda>b. b) a_key [] (peer_index_new ''a'' 64) = hrw_top_id (\<lambda>b. b) a_key [] (peer_index_new ''a'' 128)"
  using hrw_agreement [of "peer_index_new ''a'' 64" "[]" "peer_index_new ''a'' 128" "[]"]
  by (simp add: peer_index_new_def)

text \<open>Candidate ranking. The peers to ask are alive peers in order of decreasing rendezvous
  score: the yes-list holds those whose pulled filter contains the chunk, the maybe-list those whose
  filter is unknown, each within its own budget; a peer whose known filter excludes the chunk is never
  asked, and while a budget is not used up no eligible peer is left out.\<close>
theorem ranking_spec:
  assumes "score = (\<lambda>n. hrw_score sha (n_id n) (key_digest sha key))"
    and "c = rank_candidates sha key alive max_yes max_maybe p"
  shows "set (cand_yes c) \<subseteq> {n \<in> set alive. \<exists>r. map_of (pi_remote p) (n_id n) = Some r \<and> bloom_contains (key_digest sha key) (rb_bloom r)}
    \<and> set (cand_maybe c) \<subseteq> {n \<in> set alive. map_of (pi_remote p) (n_id n) = None}
    \<and> length (cand_yes c) \<le> max_yes \<and> length (cand_maybe c) \<le> max_maybe
    \<and> sorted (map (\<lambda>n. - int (score n)) (cand_yes c)) \<and> sorted (map (\<lambda>n. - int (score n)) (cand_maybe c))
    \<and> (length (cand_yes c) = max_yes \<or> set (cand_yes c) =
        {n \<in> set alive. \<exists>r. map_of (pi_remote p) (n_id n) = Some r \<and> bloom_contains (key_digest sha key) (rb_bloom r)})
    \<and> (length (cand_maybe c) = max_maybe \<or> set (cand_maybe c) = {n \<in> set alive. map_of (pi_remote p) (n_id n) = None})"
proof -
  let ?r = "sort_key (\<lambda>n. - int (score n)) alive"
  let ?P = "\<lambda>n. case map_of (pi_remote p) (n_id n) of Some r \<Rightarrow> bloom_contains (key_digest sha key) (rb_bloom r) | None \<Rightarrow> False"
  let ?Q = "\<lambda>n. map_of (pi_remote p) (n_id n) = None"
  have c: "cand_yes c = take max_yes (filter ?P ?r)" "cand_maybe c = take max_maybe (filter ?Q ?r)"
    by (simp_all add: assms rank_candidates_eq Let_def)
  have P: "?P n \<longleftrightarrow> (\<exists>r. map_of (pi_remote p) (n_id n) = Some r \<and> bloom_contains (key_digest sha key) (rb_bloom r))" for n
    by (cases "map_of (pi_remote p) (n_id n)") auto
  have take: "set (take m (filter R ?r)) \<subseteq> {n \<in> set alive. R n}
      \<and> length (take m (filter R ?r)) \<le> m \<and> sorted (map (\<lambda>n. - int (score n)) (take m (filter R ?r)))
      \<and> (length (take m (filter R ?r)) = m \<or> set (take m (filter R ?r)) = {n \<in> set alive. R n})" for m R
    by (auto dest: in_set_takeD simp: sorted_take_filter)
  from take [of max_yes ?P] take [of max_maybe ?Q] show ?thesis unfolding c P by blast
qed

theorem ranking_spec_witness:
  "length (cand_maybe (rank_candidates (\<lambda>b. b) a_key [] 2 2 (peer_index_new ''a'' 64))) \<le> 2"
  using ranking_spec [OF refl refl, where sha = "\<lambda>b. b" and key = a_key and alive = "[]" and max_yes = 2 and max_maybe = 2
      and p = "peer_index_new ''a'' 64"] by blast

end
