(* ===== verification/Wire.thy ===== *)
theory Wire
  imports ChunkKey
begin

text \<open>
  The peer wire protocol over UCX (\<open>encode_request\<close> to \<open>read_be_u64\<close> of
  \<open>src/transport_ucx.rs\<close>): requests with big-endian length-prefixed fields, responses with a
  little-endian status and length. The readers thread the index as the code does. \<open>uerr\<close> is the
  displayed text of a UTF-8 error.
\<close>

section \<open>Definitions\<close>

definition MAGIC :: nat where
  "MAGIC = 0xBC10C001"

definition STATUS_OK :: nat where
  "STATUS_OK = 0"

definition STATUS_MISS :: nat where
  "STATUS_MISS = 1"

definition STATUS_ERR :: nat where
  "STATUS_ERR = 2"

definition MAX_RESPONSE_BYTES :: nat where
  "MAX_RESPONSE_BYTES = 64 * 1024 * 1024"

record chunk_request =
  rq_key :: chunk_key
  rq_length :: nat
  rq_requester :: string
  rq_wait_ms :: nat
  rq_id :: string

definition encode_request :: "chunk_key \<Rightarrow> nat \<Rightarrow> string \<Rightarrow> nat \<Rightarrow> string \<Rightarrow> bytes result" where
  "encode_request key len requester wait_ms rid =
     (if length (key_mount key) > 255 then Inl (Peer ''mount name too long'')
      else if length (key_blob key) > 65535 then Inl (Peer ''blob name too long'')
      else if length requester > 65535 then Inl (Peer ''requester peer id too long'')
      else if length rid > 128 then Inl (Peer ''request id too long'')
      else Inr (be_bytes 4 MAGIC @ be_bytes 1 (length (key_mount key)) @ as_bytes (key_mount key) @
        be_bytes 2 (length (key_blob key)) @ as_bytes (key_blob key) @ be_bytes 8 (key_offset key) @
        be_bytes 4 len @ be_bytes 2 (length requester) @ as_bytes requester @ be_bytes 4 wait_ms @
        be_bytes 2 (length rid) @ as_bytes rid))"

definition read_u8 :: "bytes \<Rightarrow> nat \<Rightarrow> (nat \<times> nat) result" where
  "read_u8 data i =
     (if i \<ge> length data then Inl (Peer ''unexpected end of request'') else Inr (unat (data ! i), i + 1))"

definition read_slice :: "bytes \<Rightarrow> nat \<Rightarrow> nat \<Rightarrow> (bytes \<times> nat) result" where
  "read_slice data i len =
     (if length data - i < len then Inl (Peer ''unexpected end of request'')
      else Inr (take len (drop i data), i + len))"

definition read_utf8 :: "(bytes \<Rightarrow> string) \<Rightarrow> bytes \<Rightarrow> nat \<Rightarrow> nat \<Rightarrow> string \<Rightarrow> (string \<times> nat) result" where
  "read_utf8 uerr data i len field =
     rbind (read_slice data i len) (\<lambda>(b, i').
       case from_utf8 b of Some s \<Rightarrow> Inr (s, i') | None \<Rightarrow> Inl (Peer (field @ '' utf8: '' @ uerr b)))"

definition read_be :: "nat \<Rightarrow> bytes \<Rightarrow> nat \<Rightarrow> (nat \<times> nat) result" where
  "read_be w data i = rbind (read_slice data i w) (\<lambda>(b, i'). Inr (from_be_bytes b, i'))"

definition pad8 :: "string \<Rightarrow> string" where
  "pad8 s = replicate (8 - length s) CHR ''0'' @ s"

definition rid_char :: "char \<Rightarrow> bool" where
  "rid_char c \<longleftrightarrow> is_ascii_alphanumeric c \<or> c = CHR ''-''"

definition read_wait_ms :: "bytes \<Rightarrow> nat \<Rightarrow> (nat \<times> nat) result" where
  "read_wait_ms data i = (if i + 4 \<le> length data then read_be 4 data i else Inr (0, i))"

definition read_request_id :: "(bytes \<Rightarrow> string) \<Rightarrow> bytes \<Rightarrow> nat \<Rightarrow> (string \<times> nat) result" where
  "read_request_id uerr data i =
     (if i + 2 \<le> length data
      then rbind (read_be 2 data i) (\<lambda>(n, i1).
        if n > 128 then Inl (Peer ''request id too long'')
        else rbind (read_utf8 uerr data i1 n ''request_id'') (\<lambda>(s, i2).
          if \<not> list_all rid_char s then Inl (Peer ''request id has invalid chars'') else Inr (s, i2)))
      else Inr ([], i))"

definition decode_request :: "(bytes \<Rightarrow> string) \<Rightarrow> bytes \<Rightarrow> chunk_request result" where
  "decode_request uerr data =
     rbind (read_be 4 data 0) (\<lambda>(magic, i1).
     if magic \<noteq> MAGIC then Inl (Peer (''bad magic 0x'' @ pad8 (show_hex magic))) else
     rbind (read_u8 data i1) (\<lambda>(mount_len, i2).
     rbind (read_utf8 uerr data i2 mount_len ''mount'') (\<lambda>(mount, i3).
     rbind (read_be 2 data i3) (\<lambda>(blob_len, i4).
     rbind (read_utf8 uerr data i4 blob_len ''blob'') (\<lambda>(blob, i5).
     rbind (read_be 8 data i5) (\<lambda>(offset, i6).
     rbind (read_be 4 data i6) (\<lambda>(len, i7).
     rbind (read_be 2 data i7) (\<lambda>(requester_len, i8).
     rbind (read_utf8 uerr data i8 requester_len ''requester_peer_id'') (\<lambda>(requester, i9).
     rbind (read_wait_ms data i9) (\<lambda>(wait_ms, i10).
     rbind (read_request_id uerr data i10) (\<lambda>(rid, i11).
     if i11 \<noteq> length data then Inl (Peer ''trailing bytes in request'')
     else Inr \<lparr>rq_key = \<lparr>key_mount = mount, key_blob = blob, key_offset = offset\<rparr>, rq_length = len,
            rq_requester = requester, rq_wait_ms = wait_ms, rq_id = rid\<rparr>)))))))))))"

definition encode_response :: "nat \<Rightarrow> bytes \<Rightarrow> bytes result" where
  "encode_response status payload =
     (if length payload > MAX_RESPONSE_BYTES
      then Inl (Peer (''response too large: '' @ show_dec (length payload) @ '' bytes''))
      else Inr (le_bytes 4 status @ le_bytes 4 (length payload) @ payload))"

definition decode_response :: "bytes \<Rightarrow> nat \<Rightarrow> bytes result" where
  "decode_response data expected_len =
     (if length data < 8 then Inl (Peer (''short UCX response: '' @ show_dec (length data) @ '' bytes''))
      else let status = from_le_bytes (take 4 data);
               payload_len = from_le_bytes (take 4 (drop 4 data));
               payload = drop 8 data in
        if payload_len \<noteq> length payload
        then Inl (Peer (''UCX response length mismatch: header '' @ show_dec payload_len @ '' body '' @ show_dec (length payload)))
        else if status = STATUS_OK then
          if payload_len = 0 \<or> payload_len > MAX_RESPONSE_BYTES
          then Inl (Peer (''bad resp len '' @ show_dec payload_len))
          else if payload_len > expected_len
          then Inl (Peer (''response larger than requested: got '' @ show_dec payload_len @ '', expected '' @ show_dec expected_len))
          else Inr payload
        else if status = STATUS_MISS then Inl (NotFound ''peer miss'')
        else if status = STATUS_ERR then Inl (Peer ''ucx peer returned error'')
        else Inl (Peer (''ucx peer status '' @ show_dec status)))"

definition should_mark_endpoint_broken :: "'a result \<Rightarrow> bool" where
  "should_mark_endpoint_broken r =
     (case r of Inr _ \<Rightarrow> False | Inl (NotFound _) \<Rightarrow> False | Inl _ \<Rightarrow> True)"

section \<open>Readers\<close>

text \<open>The contract of a reader of one field at an index: it succeeds on \<open>enc v\<close> followed by
  anything, and when it succeeds the bytes it passed over are \<open>enc\<close> of what it returned.\<close>

locale field_reader =
  fixes rd :: "bytes \<Rightarrow> nat \<Rightarrow> ('v \<times> nat) result"
    and enc :: "'v \<Rightarrow> bytes"
    and fits :: "'v \<Rightarrow> bool"
  assumes rd_enc: "fits v \<Longrightarrow> i \<le> length data \<Longrightarrow> drop i data = enc v @ rest \<Longrightarrow> rd data i = Inr (v, i + length (enc v))"
    and rd_sound: "i \<le> length data \<Longrightarrow> rd data i = Inr (v, i') \<Longrightarrow>
      fits v \<and> i' = i + length (enc v) \<and> i' \<le> length data \<and> drop i data = enc v @ drop i' data"
begin

text \<open>Reading moves the index past exactly the field, leaving the rest.\<close>

lemma rd_rest:
  assumes "fits v" "i \<le> length data" "drop i data = enc v @ rest"
  shows "rd data i = Inr (v, i + length (enc v)) \<and> i + length (enc v) \<le> length data
    \<and> drop (i + length (enc v)) data = rest"
proof -
  have "drop (i + length (enc v)) data = drop (length (enc v)) (drop i data)" by (simp add: add.commute)
  then have "drop (i + length (enc v)) data = rest" using assms(3) by simp
  moreover have "length (drop i data) = length (enc v) + length rest" using assms(3) by simp
  ultimately show ?thesis using rd_enc [OF assms] assms(2) by simp
qed

end

lemma read_slice_sound:
  assumes "i \<le> length data" "read_slice data i n = Inr (b, i')"
  shows "length b = n \<and> i' = i + n \<and> i' \<le> length data \<and> drop i data = b @ drop i' data"
proof -
  from assms(2) have n: "n \<le> length data - i" "b = take n (drop i data)" "i' = i + n"
    by (auto simp: read_slice_def split: if_splits)
  have "drop i data = take n (drop i data) @ drop n (drop i data)" by (rule append_take_drop_id [symmetric])
  moreover have "drop n (drop i data) = drop (i + n) data" by (simp add: add.commute)
  ultimately show ?thesis using n assms(1) by simp
qed

lemma read_slice_enc:
  "drop i data = b @ rest \<Longrightarrow> length b = n \<Longrightarrow> read_slice data i n = Inr (b, i + n)"
proof -
  assume d: "drop i data = b @ rest" "length b = n"
  then have "length (drop i data) = n + length rest" by simp
  then have "\<not> length data - i < n" by simp
  with d show ?thesis by (simp add: read_slice_def)
qed

lemma be_bytes_from_be: "be_bytes (length bs) (from_be_bytes bs) = bs"
  using le_bytes_from_le [of "rev bs"] by (simp add: be_bytes_def from_be_bytes_def)

lemma from_be_bytes_less: "from_be_bytes bs < 256 ^ length bs"
  using from_le_bytes_less [of "rev bs"] by (simp add: from_be_bytes_def)

interpretation be: field_reader "read_be w" "be_bytes w" "\<lambda>n. n < 256 ^ w" for w
proof
  show "read_be w data i = Inr (v, i + length (be_bytes w v))"
    if "v < 256 ^ w" "i \<le> length data" "drop i data = be_bytes w v @ rest" for v i data rest
    using that read_slice_enc [OF that(3), of w] by (simp add: read_be_def from_be_be_bytes)
  show "v < 256 ^ w \<and> i' = i + length (be_bytes w v) \<and> i' \<le> length data \<and> drop i data = be_bytes w v @ drop i' data"
    if "i \<le> length data" "read_be w data i = Inr (v, i')" for i data v i'
  proof -
    from that(2) obtain b where b: "read_slice data i w = Inr (b, i')" "v = from_be_bytes b"
      by (auto simp: read_be_def rbind_Inr_iff)
    from read_slice_sound [OF that(1) b(1)] b(2) from_be_bytes_less [of b] be_bytes_from_be [of b]
    show ?thesis by auto
  qed
qed

lemma from_utf8_Some: "from_utf8 b = Some s \<longleftrightarrow> b = as_bytes s \<and> is_utf8 s"
  by (auto simp: from_utf8_def Let_def)

interpretation utf8: field_reader "\<lambda>data i. read_utf8 uerr data i n field" as_bytes "\<lambda>s. is_utf8 s \<and> length s = n"
  for uerr n field
proof
  show "read_utf8 uerr data i n field = Inr (v, i + length (as_bytes v))"
    if "is_utf8 v \<and> length v = n" "i \<le> length data" "drop i data = as_bytes v @ rest" for v i data rest
    using that read_slice_enc [OF that(3), of n] by (simp add: read_utf8_def from_utf8_as_bytes)
  show "(is_utf8 v \<and> length v = n) \<and> i' = i + length (as_bytes v) \<and> i' \<le> length data \<and> drop i data = as_bytes v @ drop i' data"
    if "i \<le> length data" "read_utf8 uerr data i n field = Inr (v, i')" for i data v i'
  proof -
    from that(2) obtain b where b: "read_slice data i n = Inr (b, i')" "from_utf8 b = Some v"
      by (auto simp: read_utf8_def rbind_Inr_iff split: option.splits)
    from read_slice_sound [OF that(1) b(1)] b(2) show ?thesis by (auto simp: from_utf8_Some)
  qed
qed

lemma be_bytes_one: "be_bytes (Suc 0) n = [word_of_nat n]"
  by (simp add: be_bytes_def)

lemma word8_of_unat: "(word_of_nat (unat (b :: u8)) :: u8) = b"
  by simp

interpretation u8r: field_reader read_u8 "be_bytes 1" "\<lambda>n. n < 256"
proof
  show "read_u8 data i = Inr (v, i + length (be_bytes 1 v))"
    if "v < 256" "i \<le> length data" "drop i data = be_bytes 1 v @ rest" for v i data rest
  proof -
    from that(3) have d: "drop i data = word_of_nat v # rest" by (simp add: be_bytes_one)
    then have "i < length data" by (metis drop_all list.distinct(1) not_le)
    moreover from this have "data ! i = word_of_nat v" using d by (metis Cons_nth_drop_Suc list.inject)
    ultimately show ?thesis using that(1) by (simp add: read_u8_def unat_word_of_nat8)
  qed
  show "v < 256 \<and> i' = i + length (be_bytes 1 v) \<and> i' \<le> length data \<and> drop i data = be_bytes 1 v @ drop i' data"
    if "i \<le> length data" "read_u8 data i = Inr (v, i')" for i data v i'
  proof -
    from that(2) have v: "i < length data" "v = unat (data ! i)" "i' = Suc i"
      by (auto simp: read_u8_def split: if_splits)
    with Cons_nth_drop_Suc [of i data] unat8_less [of "data ! i"] show ?thesis
      by (simp add: be_bytes_one)
  qed
qed

section \<open>Requests\<close>

definition request_ok :: "chunk_request \<Rightarrow> bool" where
  "request_ok r \<longleftrightarrow>
     is_utf8 (key_mount (rq_key r)) \<and> length (key_mount (rq_key r)) < 256 \<and>
     is_utf8 (key_blob (rq_key r)) \<and> length (key_blob (rq_key r)) < 65536 \<and>
     key_offset (rq_key r) < 2 ^ 64 \<and> rq_length r < 2 ^ 32 \<and>
     is_utf8 (rq_requester r) \<and> length (rq_requester r) < 65536 \<and> rq_wait_ms r < 2 ^ 32 \<and>
     is_utf8 (rq_id r) \<and> length (rq_id r) \<le> 128 \<and> list_all rid_char (rq_id r)"

text \<open>The fields up to the requester, and the two trailing ones.\<close>

definition enc_head :: "chunk_request \<Rightarrow> bytes" where
  "enc_head r = be_bytes 4 MAGIC @ be_bytes 1 (length (key_mount (rq_key r))) @ as_bytes (key_mount (rq_key r)) @
     be_bytes 2 (length (key_blob (rq_key r))) @ as_bytes (key_blob (rq_key r)) @ be_bytes 8 (key_offset (rq_key r)) @
     be_bytes 4 (rq_length r) @ be_bytes 2 (length (rq_requester r)) @ as_bytes (rq_requester r)"

definition enc_id :: "chunk_request \<Rightarrow> bytes" where
  "enc_id r = be_bytes 2 (length (rq_id r)) @ as_bytes (rq_id r)"

lemma encode_request_ok:
  "request_ok r \<Longrightarrow> encode_request (rq_key r) (rq_length r) (rq_requester r) (rq_wait_ms r) (rq_id r) =
     Inr (enc_head r @ be_bytes 4 (rq_wait_ms r) @ enc_id r)"
  by (simp add: encode_request_def request_ok_def enc_head_def enc_id_def)

text \<open>Decoding the head leaves the index at the trailing fields.\<close>

definition decode_tail :: "(bytes \<Rightarrow> string) \<Rightarrow> bytes \<Rightarrow> nat \<Rightarrow> (nat \<times> string) result" where
  "decode_tail uerr data i =
     rbind (read_wait_ms data i) (\<lambda>(wait_ms, i10).
     rbind (read_request_id uerr data i10) (\<lambda>(rid, i11).
       if i11 \<noteq> length data then Inl (Peer ''trailing bytes in request'') else Inr (wait_ms, rid)))"

lemma decode_request_head:
  assumes "request_ok r" "data = enc_head r @ rest"
  shows "decode_request uerr data =
    rbind (decode_tail uerr data (length (enc_head r))) (\<lambda>(w, s). Inr (r\<lparr>rq_wait_ms := w, rq_id := s\<rparr>))"
proof -
  note ok = assms(1) [unfolded request_ok_def]
  let ?m = "key_mount (rq_key r)" and ?b = "key_blob (rq_key r)" and ?o = "key_offset (rq_key r)"
    and ?l = "rq_length r" and ?q = "rq_requester r"
  let ?r6 = "be_bytes 2 (length ?q) @ as_bytes ?q @ rest"
  let ?r5 = "be_bytes 8 ?o @ be_bytes 4 ?l @ ?r6"
  let ?r3 = "be_bytes 2 (length ?b) @ as_bytes ?b @ ?r5"
  have d0: "drop 0 data = be_bytes 4 MAGIC @ be_bytes 1 (length ?m) @ as_bytes ?m @ ?r3"
    by (simp add: assms(2) enc_head_def)
  have s1: "read_be 4 data 0 = Inr (MAGIC, 4) \<and> 4 \<le> length data \<and> drop 4 data = be_bytes 1 (length ?m) @ as_bytes ?m @ ?r3"
    using be.rd_rest [OF _ _ d0] by (simp add: MAGIC_def)
  let ?i2 = "4 + 1"
  have s2: "read_u8 data 4 = Inr (length ?m, ?i2) \<and> ?i2 \<le> length data \<and> drop ?i2 data = as_bytes ?m @ ?r3"
    using u8r.rd_rest [of "length ?m" 4 data "as_bytes ?m @ ?r3"] s1 ok by simp
  let ?i3 = "?i2 + length ?m"
  have s3: "read_utf8 uerr data ?i2 (length ?m) ''mount'' = Inr (?m, ?i3) \<and> ?i3 \<le> length data \<and> drop ?i3 data = ?r3"
    using utf8.rd_rest [of ?m "length ?m" ?i2 data ?r3 uerr "''mount''"] s2 ok by simp
  let ?i4 = "?i3 + 2"
  have s4: "read_be 2 data ?i3 = Inr (length ?b, ?i4) \<and> ?i4 \<le> length data \<and> drop ?i4 data = as_bytes ?b @ ?r5"
    using be.rd_rest [of "length ?b" 2 ?i3 data "as_bytes ?b @ ?r5"] s3 ok by simp
  let ?i5 = "?i4 + length ?b"
  have s5: "read_utf8 uerr data ?i4 (length ?b) ''blob'' = Inr (?b, ?i5) \<and> ?i5 \<le> length data \<and> drop ?i5 data = ?r5"
    using utf8.rd_rest [of ?b "length ?b" ?i4 data ?r5 uerr "''blob''"] s4 ok by simp
  let ?i6 = "?i5 + 8"
  have s6: "read_be 8 data ?i5 = Inr (?o, ?i6) \<and> ?i6 \<le> length data \<and> drop ?i6 data = be_bytes 4 ?l @ ?r6"
    using be.rd_rest [of ?o 8 ?i5 data "be_bytes 4 ?l @ ?r6"] s5 ok by simp
  let ?i7 = "?i6 + 4"
  have s7: "read_be 4 data ?i6 = Inr (?l, ?i7) \<and> ?i7 \<le> length data \<and> drop ?i7 data = ?r6"
    using be.rd_rest [of ?l 4 ?i6 data ?r6] s6 ok by simp
  let ?i8 = "?i7 + 2"
  have s8: "read_be 2 data ?i7 = Inr (length ?q, ?i8) \<and> ?i8 \<le> length data \<and> drop ?i8 data = as_bytes ?q @ rest"
    using be.rd_rest [of "length ?q" 2 ?i7 data "as_bytes ?q @ rest"] s7 ok by simp
  let ?i9 = "?i8 + length ?q"
  have s9: "read_utf8 uerr data ?i8 (length ?q) ''requester_peer_id'' = Inr (?q, ?i9)"
    using utf8.rd_rest [of ?q "length ?q" ?i8 data rest uerr "''requester_peer_id''"] s8 ok by simp
  have i9: "?i9 = length (enc_head r)" by (simp add: enc_head_def)
  have upd: "r\<lparr>rq_wait_ms := w, rq_id := s\<rparr> = \<lparr>rq_key = \<lparr>key_mount = ?m, key_blob = ?b, key_offset = ?o\<rparr>,
      rq_length = ?l, rq_requester = ?q, rq_wait_ms = w, rq_id = s\<rparr>" for w s
    by (cases r) simp
  show ?thesis
    unfolding decode_request_def decode_tail_def i9 [symmetric] upd
    using s1 s2 s3 s4 s5 s6 s7 s8 s9
    by (auto simp: rbind_def split: sum.splits if_splits prod.splits)
qed

lemma decode_head_sound:
  assumes "decode_request uerr data = Inr r"
  obtains i where "i \<le> length data" "data = enc_head r @ drop i data" "i = length (enc_head r)"
    "decode_tail uerr data i = Inr (rq_wait_ms r, rq_id r)"
    "is_utf8 (key_mount (rq_key r))" "length (key_mount (rq_key r)) < 256"
    "is_utf8 (key_blob (rq_key r))" "length (key_blob (rq_key r)) < 65536"
    "key_offset (rq_key r) < 2 ^ 64" "rq_length r < 2 ^ 32"
    "is_utf8 (rq_requester r)" "length (rq_requester r) < 65536"
proof -
  from assms obtain i1 ml i2 m i3 bl i4 b i5 off i6 l i7 ql i8 q i9 w i10 rid where
    s1: "read_be 4 data 0 = Inr (MAGIC, i1)" and s2: "read_u8 data i1 = Inr (ml, i2)"
    and s3: "read_utf8 uerr data i2 ml ''mount'' = Inr (m, i3)" and s4: "read_be 2 data i3 = Inr (bl, i4)"
    and s5: "read_utf8 uerr data i4 bl ''blob'' = Inr (b, i5)" and s6: "read_be 8 data i5 = Inr (off, i6)"
    and s7: "read_be 4 data i6 = Inr (l, i7)" and s8: "read_be 2 data i7 = Inr (ql, i8)"
    and s9: "read_utf8 uerr data i8 ql ''requester_peer_id'' = Inr (q, i9)"
    and s10: "read_wait_ms data i9 = Inr (w, i10)" and s11: "read_request_id uerr data i10 = Inr (rid, length data)"
    and r: "r = \<lparr>rq_key = \<lparr>key_mount = m, key_blob = b, key_offset = off\<rparr>, rq_length = l, rq_requester = q,
        rq_wait_ms = w, rq_id = rid\<rparr>"
    unfolding decode_request_def rbind_Inr_iff
    by (auto split: if_splits) (auto simp: rbind_Inr_iff split: if_splits)
  note f1 = be.rd_sound [OF _ s1, simplified]
  note f2 = u8r.rd_sound [OF _ s2] and f3 = utf8.rd_sound [OF _ s3] and f4 = be.rd_sound [OF _ s4]
    and f5 = utf8.rd_sound [OF _ s5] and f6 = be.rd_sound [OF _ s6] and f7 = be.rd_sound [OF _ s7]
    and f8 = be.rd_sound [OF _ s8] and f9 = utf8.rd_sound [OF _ s9]
  have g1: "i1 \<le> length data" "data = be_bytes 4 MAGIC @ drop i1 data" "i1 = 4" using f1 by auto
  note g2 = f2 [OF g1(1)]
  note g3 = f3 [OF conjunct1 [OF conjunct2 [OF conjunct2 [OF g2]]]]
  note g4 = f4 [OF conjunct1 [OF conjunct2 [OF conjunct2 [OF g3]]]]
  note g5 = f5 [OF conjunct1 [OF conjunct2 [OF conjunct2 [OF g4]]]]
  note g6 = f6 [OF conjunct1 [OF conjunct2 [OF conjunct2 [OF g5]]]]
  note g7 = f7 [OF conjunct1 [OF conjunct2 [OF conjunct2 [OF g6]]]]
  note g8 = f8 [OF conjunct1 [OF conjunct2 [OF conjunct2 [OF g7]]]]
  note g9 = f9 [OF conjunct1 [OF conjunct2 [OF conjunct2 [OF g8]]]]
  have "data = enc_head r @ drop i9 data"
    using g1 g2 g3 g4 g5 g6 g7 g8 g9 by (simp add: enc_head_def r)
  moreover have "i9 = length (enc_head r)"
    using g1 g2 g3 g4 g5 g6 g7 g8 g9 by (simp add: enc_head_def r)
  moreover have "decode_tail uerr data i9 = Inr (rq_wait_ms r, rq_id r)"
    by (simp add: decode_tail_def s10 s11 r)
  ultimately show ?thesis
    using g1 g2 g3 g4 g5 g6 g7 g8 g9 by (intro that [of i9]) (simp_all add: r)
qed

lemma decode_tail_full:
  assumes "request_ok r" "i \<le> length data" "drop i data = be_bytes 4 (rq_wait_ms r) @ enc_id r"
  shows "decode_tail uerr data i = Inr (rq_wait_ms r, rq_id r)"
proof -
  note ok = assms(1) [unfolded request_ok_def]
  have len: "length data = i + 6 + length (rq_id r)"
    using arg_cong [OF assms(3), of length] assms(2) by (simp add: enc_id_def)
  have w: "read_be 4 data i = Inr (rq_wait_ms r, i + 4) \<and> i + 4 \<le> length data \<and> drop (i + 4) data = enc_id r"
    using be.rd_rest [OF _ assms(2,3)] ok by simp
  then have n: "read_be 2 data (i + 4) = Inr (length (rq_id r), i + 6) \<and> i + 6 \<le> length data \<and> drop (i + 6) data = as_bytes (rq_id r) @ []"
    using be.rd_rest [of "length (rq_id r)" 2 "i + 4" data "as_bytes (rq_id r)"] ok by (simp add: enc_id_def algebra_simps)
  then have "read_utf8 uerr data (i + 6) (length (rq_id r)) ''request_id'' = Inr (rq_id r, length data)"
    using utf8.rd_rest [of "rq_id r" "length (rq_id r)" "i + 6" data "[]"] ok len by simp
  with w n len ok show ?thesis
    by (simp add: decode_tail_def read_wait_ms_def read_request_id_def)
qed

text \<open>What the trailing fields can be when they are accepted: both, only the wait time, neither, or
  (from 2 or 3 left-over bytes) a request id of at most one character without a wait time.\<close>

lemma decode_tail_sound:
  assumes "decode_tail uerr data i = Inr (w, s)" "i \<le> length data"
  shows "w < 2 ^ 32 \<and> is_utf8 s \<and> length s \<le> 128 \<and> list_all rid_char s \<and>
    (drop i data = be_bytes 4 w @ be_bytes 2 (length s) @ as_bytes s
     \<or> (s = [] \<and> drop i data = be_bytes 4 w)
     \<or> (w = 0 \<and> s = [] \<and> drop i data = [])
     \<or> (w = 0 \<and> length s \<le> 1 \<and> drop i data = be_bytes 2 (length s) @ as_bytes s))"
proof -
  from assms(1) obtain i1 where w: "read_wait_ms data i = Inr (w, i1)" and s: "read_request_id uerr data i1 = Inr (s, length data)"
    by (auto simp: decode_tail_def rbind_Inr_iff split: if_splits)
  have w': "w < 2 ^ 32 \<and> i1 \<le> length data \<and> (drop i data = be_bytes 4 w @ drop i1 data \<or> (w = 0 \<and> i1 = i \<and> length data < i + 4))"
    using w assms(2) be.rd_sound [of i data 4 w i1] by (auto simp: read_wait_ms_def split: if_splits)
  have s': "is_utf8 s \<and> length s \<le> 128 \<and> list_all rid_char s \<and>
      (drop i1 data = be_bytes 2 (length s) @ as_bytes s \<or> (s = [] \<and> drop i1 data = []))"
  proof (cases "i1 + 2 \<le> length data")
    case True
    with s obtain n i2 where n: "read_be 2 data i1 = Inr (n, i2)" "n \<le> 128"
      and t: "read_utf8 uerr data i2 n ''request_id'' = Inr (s, length data)" "list_all rid_char s"
      by (auto simp: read_request_id_def rbind_Inr_iff split: if_splits)
    from be.rd_sound [OF _ n(1)] w' have "i2 \<le> length data" "drop i1 data = be_bytes 2 n @ drop i2 data" by auto
    with utf8.rd_sound [OF _ t(1)] n t show ?thesis by auto
  next
    case False
    with s have "i1 = length data" "s = []" by (auto simp: read_request_id_def split: if_splits)
    then show ?thesis by (simp add: is_utf8_def)
  qed
  show ?thesis
  proof (cases "w = 0 \<and> i1 = i \<and> length data < i + 4")
    case True
    then have "length (drop i data) \<le> 3" unfolding length_drop by linarith
    moreover have "s = [] \<or> length (drop i data) = 2 + length s"
      using s' True by (metis length_append length_as_bytes length_be_bytes)
    ultimately have "length s \<le> 1" by auto
    with s' True show ?thesis by auto
  next
    case False
    with w' s' show ?thesis by auto
  qed
qed

lemma decode_encoded:
  assumes "request_ok r"
  shows "decode_request uerr (enc_head r @ be_bytes 4 (rq_wait_ms r) @ enc_id r) = Inr r"
proof -
  have "decode_tail uerr (enc_head r @ be_bytes 4 (rq_wait_ms r) @ enc_id r) (length (enc_head r)) = Inr (rq_wait_ms r, rq_id r)"
    by (rule decode_tail_full [OF assms]) simp_all
  then show ?thesis
    using decode_request_head [OF assms refl, of uerr "be_bytes 4 (rq_wait_ms r) @ enc_id r"] by simp
qed

lemma decode_ok_response:
  "0 < length p \<Longrightarrow> length p \<le> n \<Longrightarrow> length p \<le> MAX_RESPONSE_BYTES \<Longrightarrow>
   decode_response (le_bytes 4 STATUS_OK @ le_bytes 4 (length p) @ p) n = Inr p"
  by (simp add: decode_response_def from_le_le_bytes MAX_RESPONSE_BYTES_def STATUS_OK_def Let_def)

lemma decode_miss_response: "encode_response STATUS_MISS [] = Inr resp \<Longrightarrow> decode_response resp n = Inl (NotFound ''peer miss'')"
  by (auto simp: encode_response_def decode_response_def from_le_le_bytes STATUS_OK_def STATUS_MISS_def Let_def)

section \<open>Properties\<close>


definition sample_request :: chunk_request where
  "sample_request = \<lparr>rq_key = \<lparr>key_mount = ''m'', key_blob = ''dir/f'', key_offset = 4096\<rparr>, rq_length = 4096,
     rq_requester = ''node-1'', rq_wait_ms = 5000, rq_id = ''ab-12''\<rparr>"


text \<open>C38: Nothing else is accepted as a request. Whatever bytes arrive, if they decode to a request
  then the request is well-formed and the bytes are its encoding, possibly without the request id or
  without both trailing fields, or with an id of at most one character in place of both: truncated,
  padded or corrupted frames are errors.\<close>
theorem request_decode_exact:
  assumes "decode_request uerr data = Inr r"
  shows "request_ok r \<and>
    (data = enc_head r @ be_bytes 4 (rq_wait_ms r) @ enc_id r
     \<or> (rq_id r = [] \<and> data = enc_head r @ be_bytes 4 (rq_wait_ms r))
     \<or> (rq_id r = [] \<and> rq_wait_ms r = 0 \<and> data = enc_head r)
     \<or> (length (rq_id r) \<le> 1 \<and> rq_wait_ms r = 0 \<and> data = enc_head r @ enc_id r))"
proof -
  from assms obtain i where i: "i \<le> length data" "data = enc_head r @ drop i data"
    and tail: "decode_tail uerr data i = Inr (rq_wait_ms r, rq_id r)"
    and ok: "is_utf8 (key_mount (rq_key r))" "length (key_mount (rq_key r)) < 256"
    "is_utf8 (key_blob (rq_key r))" "length (key_blob (rq_key r)) < 65536"
    "key_offset (rq_key r) < 2 ^ 64" "rq_length r < 2 ^ 32"
    "is_utf8 (rq_requester r)" "length (rq_requester r) < 65536"
    by (rule decode_head_sound)
  note t = decode_tail_sound [OF tail i(1)]
  have "request_ok r" using ok t by (simp add: request_ok_def)
  moreover have "drop i data = be_bytes 4 (rq_wait_ms r) @ enc_id r
      \<or> (rq_id r = [] \<and> drop i data = be_bytes 4 (rq_wait_ms r))
      \<or> (rq_wait_ms r = 0 \<and> rq_id r = [] \<and> drop i data = [])
      \<or> (rq_wait_ms r = 0 \<and> length (rq_id r) \<le> 1 \<and> drop i data = enc_id r)"
    using t by (simp add: enc_id_def)
  ultimately show ?thesis using i(2) by auto
qed

theorem request_decode_exact_witness:
  "request_ok (sample_request\<lparr>rq_wait_ms := 0, rq_id := []\<rparr>)"
proof -
  have ok: "request_ok sample_request"
    by (simp add: sample_request_def request_ok_def is_utf8_def rid_char_def is_ascii_alphanumeric_def in_range_def)
  have "decode_tail (\<lambda>_. []) (enc_head sample_request) (length (enc_head sample_request)) = Inr (0, [])"
    by (simp add: decode_tail_def read_wait_ms_def read_request_id_def)
  then have "decode_request (\<lambda>_. []) (enc_head sample_request) = Inr (sample_request\<lparr>rq_wait_ms := 0, rq_id := []\<rparr>)"
    using decode_request_head [OF ok, of "enc_head sample_request" "[]" "\<lambda>_. []"] by simp
  from request_decode_exact [OF this] show ?thesis by blast
qed

text \<open>C39: Responses. A chunk of at most 64 MiB is encoded with status OK and decoded to itself by a
  requester that asked for at least that much; a miss becomes \<open>NotFound\<close>, which alone does not mark the
  endpoint broken; and whatever bytes arrive, a payload is handed out only if they are the encoding of a
  non-empty OK response no longer than requested.\<close>
theorem response_roundtrip:
  "(0 < length p \<and> length p \<le> min n MAX_RESPONSE_BYTES \<longrightarrow>
      rbind (encode_response STATUS_OK p) (\<lambda>b. decode_response b n) = Inr p)
   \<and> rbind (encode_response STATUS_MISS []) (\<lambda>b. decode_response b n) = Inl (NotFound ''peer miss'')
   \<and> \<not> should_mark_endpoint_broken (rbind (encode_response STATUS_MISS []) (\<lambda>b. decode_response b n))
   \<and> should_mark_endpoint_broken (rbind (encode_response STATUS_ERR []) (\<lambda>b. decode_response b n))
   \<and> (decode_response data n = Inr p \<longrightarrow>
        0 < length p \<and> length p \<le> min n MAX_RESPONSE_BYTES \<and> encode_response STATUS_OK p = Inr data)"
proof -
  have "encode_response STATUS_OK p = Inr data" "0 < length p" "length p \<le> min n MAX_RESPONSE_BYTES"
    if dec: "decode_response data n = Inr p"
  proof -
    from dec have len: "8 \<le> length data" and st: "from_le_bytes (take 4 data) = 0"
      and pl: "from_le_bytes (take 4 (drop 4 data)) = length (drop 8 data)" and p: "p = drop 8 data"
      and b: "0 < length p" "length p \<le> MAX_RESPONSE_BYTES" "length p \<le> n"
      by (auto simp: decode_response_def STATUS_OK_def Let_def split: if_splits)
    have "le_bytes 4 0 = take 4 data" using le_bytes_from_le [of "take 4 data"] st len by simp
    moreover have "le_bytes 4 (length p) = take 4 (drop 4 data)"
      using le_bytes_from_le [of "take 4 (drop 4 data)"] pl len p by simp
    moreover have "data = take 4 data @ take 4 (drop 4 data) @ drop 8 data"
      by (metis append_take_drop_id drop_drop numeral_Bit0 add.commute)
    ultimately show "encode_response STATUS_OK p = Inr data"
      using b p by (simp add: encode_response_def STATUS_OK_def)
    show "0 < length p" "length p \<le> min n MAX_RESPONSE_BYTES" using b by auto
  qed
  then show ?thesis
    by (auto simp: encode_response_def decode_response_def from_le_le_bytes MAX_RESPONSE_BYTES_def STATUS_OK_def
        STATUS_MISS_def STATUS_ERR_def should_mark_endpoint_broken_def Let_def)
qed

theorem response_roundtrip_witness:
  "rbind (encode_response STATUS_OK [1, 2, 3]) (\<lambda>b. decode_response b 4) = Inr [1, 2, 3]"
  using response_roundtrip [of "[1, 2, 3]" 4 "[]"] by (simp add: MAX_RESPONSE_BYTES_def)

end
