(* ===== verification/UcxRuntime.thy ===== *)
theory UcxRuntime
  imports Wire CacheProps
begin

text \<open>
  The UCX runtime thread (\<open>src/transport_ucx.rs\<close>): the endpoint table with its in-flight counts, the
  pool of registered receive slots, request futures over recycled handles, and the client and server
  halves of a chunk exchange. UCX itself is a parameter: the outcome of creating an endpoint, of a send
  and of a receive are arguments, an endpoint handle is a number drawn from \<open>next_ep\<close>. Tasks of the
  thread interleave only at \<open>await\<close> points; \<open>ucx_step\<close> is the resulting transition relation.
\<close>

unbundle bit_operations_syntax

section \<open>The endpoint table\<close>

record ep_slot =
  es_ep :: nat
  es_broken :: bool
  es_addr :: bytes
  es_in_flight :: nat

record runtime_state =
  rs_local_peer_id :: string
  rs_eps :: "(string, ep_slot) hmap"
  rs_addrs :: "(string, bytes) hmap"
  rs_lane_verified :: bool
  rs_next_ep :: nat

record checked_out =
  co_peer :: string
  co_ep :: nat

definition runtime_new :: "string \<Rightarrow> runtime_state" where
  "runtime_new me = \<lparr>rs_local_peer_id = me, rs_eps = [], rs_addrs = [], rs_lane_verified = False, rs_next_ep = 0\<rparr>"

text \<open>A removed endpoint is its handle and its broken flag, which selects a forced close.\<close>

type_synonym removed_ep = "nat \<times> bool"

definition from_slot :: "ep_slot \<Rightarrow> removed_ep" where
  "from_slot s = (es_ep s, es_broken s)"

definition update_peer_addr_blob :: "string \<Rightarrow> bytes \<Rightarrow> runtime_state \<Rightarrow> removed_ep option \<times> runtime_state" where
  "update_peer_addr_blob peer addr rs =
     (let rs1 = rs\<lparr>rs_addrs := AList.update peer addr (rs_addrs rs)\<rparr> in
      case map_of (rs_eps rs1) peer of
        None \<Rightarrow> (None, rs1)
      | Some s \<Rightarrow>
          if es_addr s \<noteq> addr \<and> es_in_flight s = 0
          then (Some (from_slot s), rs1\<lparr>rs_eps := AList.delete peer (rs_eps rs1)\<rparr>)
          else if es_addr s \<noteq> addr
          then (None, rs1\<lparr>rs_eps := AList.update peer (s\<lparr>es_broken := True\<rparr>) (rs_eps rs1)\<rparr>)
          else (None, rs1))"

text \<open>\<open>create\<close> is the outcome of \<open>ucp_ep_create\<close>: an error, or a fresh handle.\<close>

definition checkout_endpoint ::
  "unit result \<Rightarrow> string \<Rightarrow> bytes \<Rightarrow> runtime_state \<Rightarrow> checked_out result \<times> runtime_state"
where
  "checkout_endpoint create peer addr rs =
     (case map_of (rs_eps rs) peer of
        Some s \<Rightarrow>
          if es_broken s
          then (Inl (Peer (''UCX endpoint is broken for peer '' @ peer)), rs)
          else if es_addr s \<noteq> addr
          then (Inl (Peer (''UCX endpoint address update still in flight for peer '' @ peer)), rs)
          else (Inr \<lparr>co_peer = peer, co_ep = es_ep s\<rparr>,
                rs\<lparr>rs_eps := AList.update peer (s\<lparr>es_in_flight := es_in_flight s + 1\<rparr>) (rs_eps rs)\<rparr>)
      | None \<Rightarrow>
          (case create of
             Inl e \<Rightarrow> (Inl e, rs)
           | Inr _ \<Rightarrow>
               let ep = rs_next_ep rs in
               (Inr \<lparr>co_peer = peer, co_ep = ep\<rparr>,
                rs\<lparr>rs_eps := AList.update peer \<lparr>es_ep = ep, es_broken = False, es_addr = addr, es_in_flight = 1\<rparr> (rs_eps rs),
                   rs_next_ep := ep + 1, rs_lane_verified := True\<rparr>)))"

definition release_endpoint :: "checked_out \<Rightarrow> runtime_state \<Rightarrow> removed_ep option \<times> runtime_state" where
  "release_endpoint co rs =
     (case map_of (rs_eps rs) (co_peer co) of
        None \<Rightarrow> (None, rs)
      | Some s \<Rightarrow>
          let s' = s\<lparr>es_in_flight := es_in_flight s - 1\<rparr> in
          if es_in_flight s' = 0 \<and> es_broken s'
          then (Some (from_slot s'), rs\<lparr>rs_eps := AList.delete (co_peer co) (rs_eps rs)\<rparr>)
          else (None, rs\<lparr>rs_eps := AList.update (co_peer co) s' (rs_eps rs)\<rparr>))"

definition mark_peer_ep_broken :: "string \<Rightarrow> runtime_state \<Rightarrow> runtime_state" where
  "mark_peer_ep_broken peer rs =
     (case map_of (rs_eps rs) peer of
        None \<Rightarrow> rs
      | Some s \<Rightarrow> rs\<lparr>rs_eps := AList.update peer (s\<lparr>es_broken := True\<rparr>) (rs_eps rs)\<rparr>)"

definition reapable :: "ep_slot \<Rightarrow> bool" where
  "reapable s \<longleftrightarrow> es_in_flight s = 0 \<and> es_broken s"

definition take_broken_peer_eps :: "runtime_state \<Rightarrow> removed_ep list \<times> runtime_state" where
  "take_broken_peer_eps rs =
     (map (from_slot \<circ> snd) (filter (reapable \<circ> snd) (rs_eps rs)),
      rs\<lparr>rs_eps := filter (\<lambda>p. \<not> reapable (snd p)) (rs_eps rs)\<rparr>)"

definition take_all_peer_eps :: "runtime_state \<Rightarrow> removed_ep list \<times> runtime_state" where
  "take_all_peer_eps rs = (map (from_slot \<circ> snd) (rs_eps rs), rs\<lparr>rs_eps := []\<rparr>)"

text \<open>The block every exchange starts with: record the address, then check out. The \<open>?\<close> after
  \<open>checkout_endpoint\<close> returns before the removed endpoint is closed, so on an error it is not in the
  result.\<close>

definition begin_exchange ::
  "unit result \<Rightarrow> string \<Rightarrow> bytes \<Rightarrow> runtime_state \<Rightarrow> (checked_out \<times> removed_ep option) result \<times> runtime_state"
where
  "begin_exchange create peer addr rs =
     (case update_peer_addr_blob peer addr rs of
        (removed_before, rs1) \<Rightarrow>
          (case checkout_endpoint create peer addr rs1 of
             (Inl e, rs2) \<Rightarrow> (Inl e, rs2)
           | (Inr co, rs2) \<Rightarrow> (Inr (co, removed_before), rs2)))"

definition end_exchange :: "bool \<Rightarrow> checked_out \<Rightarrow> runtime_state \<Rightarrow> removed_ep option \<times> runtime_state" where
  "end_exchange broke co rs = release_endpoint co (if broke then mark_peer_ep_broken (co_peer co) rs else rs)"

section \<open>Receive slots\<close>

text \<open>\<open>RecvSlab\<close>: the free list, popped from its end, and the semaphore permits. A checkout that
  finds no permit waits (\<open>None\<close>).\<close>

record recv_slab =
  sl_slot_size :: nat
  sl_n_slots :: nat
  sl_free :: "nat list"
  sl_permits :: nat

definition slab_new :: "nat \<Rightarrow> nat \<Rightarrow> recv_slab result" where
  "slab_new n_slots slot_size =
     (if n_slots * slot_size \<ge> 2 ^ 64 then Inl (Peer ''RecvSlab size overflow'')
      else Inr \<lparr>sl_slot_size = slot_size, sl_n_slots = n_slots, sl_free = rev [0..<n_slots], sl_permits = n_slots\<rparr>)"

definition slab_checkout :: "recv_slab \<Rightarrow> (nat result \<times> recv_slab) option" where
  "slab_checkout sl =
     (if sl_permits sl = 0 then None
      else let sl1 = sl\<lparr>sl_permits := sl_permits sl - 1\<rparr> in
        if sl_free sl1 = [] then Some (Inl (Peer ''RecvSlab free list empty (semaphore desync)''), sl1\<lparr>sl_permits := sl_permits sl\<rparr>)
        else Some (Inr (last (sl_free sl1)), sl1\<lparr>sl_free := butlast (sl_free sl1)\<rparr>))"

definition slot_drop :: "nat \<Rightarrow> recv_slab \<Rightarrow> recv_slab" where
  "slot_drop i sl = sl\<lparr>sl_free := sl_free sl @ [i], sl_permits := sl_permits sl + 1\<rparr>"

text \<open>The byte range of the backing buffer that \<open>as_mut_slice\<close> exposes.\<close>

definition slot_range :: "recv_slab \<Rightarrow> nat \<Rightarrow> nat \<Rightarrow> nat set" where
  "slot_range sl i len = {i * sl_slot_size sl ..< i * sl_slot_size sl + len}"

section \<open>Request futures\<close>

record request_state =
  rq_done :: bool
  rq_status :: "string option"
  rq_len :: nat

text \<open>What UCX returned for a posted operation: done at once, an error, or a handle whose (possibly
  recycled) state is given.\<close>

datatype posted = Inline nat | Failed string | Handle request_state

datatype ucx_request = Ready "nat result" | Waiting request_state | Spent

definition status_error :: "string \<Rightarrow> string \<Rightarrow> bc_error" where
  "status_error action name = Peer (action @ '' failed: '' @ name)"

fun request_from_status_ptr :: "string \<Rightarrow> posted \<Rightarrow> ucx_request" where
  "request_from_status_ptr action (Inline n) = Ready (Inr n)"
| "request_from_status_ptr action (Failed st) = Ready (Inl (status_error action st))"
| "request_from_status_ptr action (Handle s) = Waiting (s\<lparr>rq_done := False, rq_status := None, rq_len := 0\<rparr>)"

text \<open>\<open>complete_request\<close>, called by UCX: status \<open>None\<close> is \<open>UCS_OK\<close>.\<close>

fun complete_request :: "string option \<Rightarrow> nat \<Rightarrow> ucx_request \<Rightarrow> ucx_request" where
  "complete_request st n (Waiting s) = Waiting (s\<lparr>rq_done := True, rq_status := st, rq_len := n\<rparr>)"
| "complete_request st n r = r"

fun poll :: "string \<Rightarrow> ucx_request \<Rightarrow> nat result option \<times> ucx_request" where
  "poll action (Ready r) = (Some r, Spent)"
| "poll action Spent = (Some (Inl (Peer (action @ '' polled after completion''))), Spent)"
| "poll action (Waiting s) =
     (if rq_done s
      then (Some (case rq_status s of None \<Rightarrow> Inr (rq_len s) | Some st \<Rightarrow> Inl (status_error action st)), Spent)
      else (None, Waiting s))"

section \<open>An exchange\<close>

definition TAG_ID_MASK :: "64 word" where
  "TAG_ID_MASK = 0x0000FFFFFFFFFFFF"

definition TAG_CLASS_MASK :: "64 word" where
  "TAG_CLASS_MASK = 0xFFFF000000000000"

definition TAG_REQ_BASE :: "64 word" where
  "TAG_REQ_BASE = 0xBC01000000000000"

definition TAG_RESP_BASE :: "64 word" where
  "TAG_RESP_BASE = 0xBC02000000000000"

text \<open>\<open>client_fetch_inner\<close> after a slot was obtained: \<open>rid_no\<close> is the request number drawn from \<open>REQ_ID\<close>;
  \<open>send\<close> and \<open>recv\<close> are the outcomes of the two operations on their tags, given the request sent, and
  \<open>None\<close> is a receive that never completes. \<open>join!\<close> waits for both, so then the whole exchange never
  completes.\<close>

definition client_fetch_inner ::
  "(64 word \<Rightarrow> bytes \<Rightarrow> unit result) \<Rightarrow> (64 word \<Rightarrow> bytes \<Rightarrow> bytes result option) \<Rightarrow> 64 word \<Rightarrow> chunk_key \<Rightarrow> nat \<Rightarrow> nat \<Rightarrow>
   string \<Rightarrow> string \<Rightarrow> bytes result option"
where
  "client_fetch_inner send recv rid_no key len wait_ms requester rid =
     (case encode_request key len requester wait_ms rid of
        Inl e \<Rightarrow> Some (Inl e)
      | Inr req \<Rightarrow>
          (case recv (TAG_RESP_BASE OR rid_no) req of
             None \<Rightarrow> None
           | Some recv_res \<Rightarrow>
               (case send (TAG_REQ_BASE OR rid_no) req of
                  Inl e \<Rightarrow> Some (Inl e)
                | Inr _ \<Rightarrow> Some (rbind recv_res (\<lambda>b. decode_response b len)))))"

text \<open>The server's answer to a decoded request (\<open>handle_inbound_request\<close>): nothing for an invalid
  length, the cached chunk when it fits, else what the chunk provider returns when the requester is
  willing to wait, else a miss; an error when the blocking cache read panicked. \<open>provider\<close> is
  \<open>None\<close> before it is wired.\<close>

definition ok_frame :: "bytes \<Rightarrow> bytes" where
  "ok_frame b = le_bytes 4 STATUS_OK @ le_bytes 4 (length b) @ b"

definition serve_cached ::
  "hash_fn \<Rightarrow> fs_env \<Rightarrow> chunk_key \<Rightarrow> nat \<Rightarrow> disk_cache \<Rightarrow> bytes option \<times> disk_cache"
where
  "serve_cached sha env key req_len c =
     (case entry_size key c of
        None \<Rightarrow> (None, c)
      | Some n \<Rightarrow>
          if n > req_len then (None, c)
          else (case try_get_into_slice sha env key n c of
                  (None, c') \<Rightarrow> (None, c')
                | (Some (_, b), c') \<Rightarrow> (Some b, c')))"

definition handle_inbound_request ::
  "(bytes \<Rightarrow> string) \<Rightarrow> hash_fn \<Rightarrow> fs_env \<Rightarrow> (chunk_key \<Rightarrow> nat \<Rightarrow> nat \<Rightarrow> bytes option) option \<Rightarrow> bool \<Rightarrow> bytes \<Rightarrow> 64 word \<Rightarrow>
   disk_cache \<Rightarrow> (string \<times> 64 word \<times> bytes) option result \<times> disk_cache"
where
  "handle_inbound_request uerr sha env provider panicked buf sender_tag c =
     (case decode_request uerr buf of
        Inl e \<Rightarrow> (Inl e, c)
      | Inr request \<Rightarrow>
          let resp_tag = TAG_RESP_BASE OR (sender_tag AND TAG_ID_MASK); req_len = rq_length request in
          if req_len = 0 \<or> req_len > MAX_RESPONSE_BYTES then (Inr None, c)
          else if panicked
          then (rbind (encode_response STATUS_ERR []) (\<lambda>resp. Inr (Some (rq_requester request, resp_tag, resp))), c)
          else (case serve_cached sha env (rq_key request) req_len c of
              (Some b, c') \<Rightarrow> (Inr (Some (rq_requester request, resp_tag, ok_frame b)), c')
            | (None, c') \<Rightarrow>
                let provider_resp = (if rq_wait_ms request > 0
                      then (case provider of Some p \<Rightarrow> p (rq_key request) req_len (rq_wait_ms request) | None \<Rightarrow> None)
                      else None) in
                (rbind (case provider_resp of
                   Some b \<Rightarrow> if length b > req_len then encode_response STATUS_MISS [] else Inr (ok_frame b)
                 | None \<Rightarrow> encode_response STATUS_MISS [])
                 (\<lambda>resp. Inr (Some (rq_requester request, resp_tag, resp))), c')))"

text \<open>\<open>client_fetch\<close> without interference by other tasks: the result, the endpoints it closes and the
  table afterwards; no result when the exchange never completes.\<close>

definition client_fetch ::
  "unit result \<Rightarrow> (nat \<Rightarrow> 64 word \<Rightarrow> bytes \<Rightarrow> unit result) \<Rightarrow> (nat \<Rightarrow> 64 word \<Rightarrow> bytes \<Rightarrow> bytes result option) \<Rightarrow> 64 word \<Rightarrow>
   string \<Rightarrow> bytes \<Rightarrow> chunk_key \<Rightarrow> nat \<Rightarrow> nat \<Rightarrow> string \<Rightarrow> runtime_state \<Rightarrow> (bytes result option \<times> removed_ep list) \<times> runtime_state"
where
  "client_fetch create send recv rid_no peer addr key len wait_ms rid rs =
     (if len = 0 \<or> len > MAX_RESPONSE_BYTES
      then ((Some (Inl (Peer (''bad chunk length '' @ show_dec len))), []), rs)
      else (case begin_exchange create peer addr rs of
          (Inl e, rs1) \<Rightarrow> ((Some (Inl e), []), rs1)
        | (Inr (co, removed_before), rs1) \<Rightarrow>
            (case client_fetch_inner (send (co_ep co)) (recv (co_ep co)) rid_no key len wait_ms (rs_local_peer_id rs1) rid of
               None \<Rightarrow> ((None, case removed_before of None \<Rightarrow> [] | Some x \<Rightarrow> [x]), rs1)
             | Some r \<Rightarrow>
                 (case end_exchange (should_mark_endpoint_broken r) co rs1 of
                    (removed_after, rs2) \<Rightarrow>
                      ((Some r, (case removed_before of None \<Rightarrow> [] | Some x \<Rightarrow> [x]) @
                                (case removed_after of None \<Rightarrow> [] | Some x \<Rightarrow> [x])), rs2)))))"

definition client_health ::
  "unit result \<Rightarrow> string \<Rightarrow> bytes \<Rightarrow> runtime_state \<Rightarrow> (unit result \<times> removed_ep list) \<times> runtime_state"
where
  "client_health create peer addr rs =
     (case begin_exchange create peer addr rs of
        (Inl e, rs1) \<Rightarrow> ((Inl e, []), rs1)
      | (Inr (co, removed_before), rs1) \<Rightarrow>
          (case release_endpoint co rs1 of
             (removed_after, rs2) \<Rightarrow>
               ((Inr (), (case removed_before of None \<Rightarrow> [] | Some x \<Rightarrow> [x]) @
                         (case removed_after of None \<Rightarrow> [] | Some x \<Rightarrow> [x])), rs2)))"

definition server_send_response ::
  "unit result \<Rightarrow> (nat \<Rightarrow> 64 word \<Rightarrow> bytes \<Rightarrow> unit result) \<Rightarrow> string \<Rightarrow> 64 word \<Rightarrow> bytes \<Rightarrow> runtime_state \<Rightarrow>
   (unit result \<times> removed_ep list) \<times> runtime_state"
where
  "server_send_response create send peer tag response rs =
     (case map_of (rs_addrs rs) peer of
        None \<Rightarrow> ((Inr (), []), rs)
      | Some addr \<Rightarrow>
          (case begin_exchange create peer addr rs of
             (Inl e, rs1) \<Rightarrow> ((Inl e, []), rs1)
           | (Inr (co, removed_before), rs1) \<Rightarrow>
               let r = send (co_ep co) tag response in
               (case end_exchange (\<not> is_ok r) co rs1 of
                  (removed_after, rs2) \<Rightarrow>
                    ((r, (case removed_before of None \<Rightarrow> [] | Some x \<Rightarrow> [x]) @
                         (case removed_after of None \<Rightarrow> [] | Some x \<Rightarrow> [x])), rs2))))"

end
