(* ===== verification/UcxProps.thy ===== *)
theory UcxProps
  imports UcxRuntime "HOL-Library.Multiset"
begin

text \<open>
  Properties of the UCX runtime (\<open>src/transport_ucx.rs\<close>): no endpoint is closed while a task has it
  checked out or closed twice, under every interleaving of the thread's tasks; receive slots are never
  shared; a recycled request handle never reports a stale completion; and a client that talks to a server
  with a sound cache gets the genuine chunk or a miss.
\<close>

section \<open>Interleaved exchanges\<close>

text \<open>The table, the endpoints currently checked out by some task, and the endpoints handed to
  \<open>close_removed_endpoint\<close> so far.\<close>

record ucx_sys =
  us_rs :: runtime_state
  us_out :: "checked_out list"
  us_gone :: "nat list"

definition rem_list :: "removed_ep option \<Rightarrow> nat list" where
  "rem_list r = (case r of None \<Rightarrow> [] | Some (ep, _) \<Rightarrow> [ep])"

inductive ucx_step :: "ucx_sys \<Rightarrow> ucx_sys \<Rightarrow> bool" where
  Begin: "begin_exchange create peer addr (us_rs s) = (Inr (co, removed), rs') \<Longrightarrow>
    ucx_step s (s\<lparr>us_rs := rs', us_out := co # us_out s, us_gone := rem_list removed @ us_gone s\<rparr>)"
| BeginFails: "begin_exchange create peer addr (us_rs s) = (Inl e, rs') \<Longrightarrow> ucx_step s (s\<lparr>us_rs := rs'\<rparr>)"
| End: "co \<in> set (us_out s) \<Longrightarrow> end_exchange broke co (us_rs s) = (removed, rs') \<Longrightarrow>
    ucx_step s (s\<lparr>us_rs := rs', us_out := remove1 co (us_out s), us_gone := rem_list removed @ us_gone s\<rparr>)"
| UpdatePeer: "update_peer_addr_blob peer addr (us_rs s) = (removed, rs') \<Longrightarrow>
    ucx_step s (s\<lparr>us_rs := rs', us_gone := rem_list removed @ us_gone s\<rparr>)"
| ErrorCallback: "ucx_step s (s\<lparr>us_rs := mark_peer_ep_broken peer (us_rs s)\<rparr>)"
| Reap: "take_broken_peer_eps (us_rs s) = (removed, rs') \<Longrightarrow>
    ucx_step s (s\<lparr>us_rs := rs', us_gone := map fst removed @ us_gone s\<rparr>)"

definition ucx_init :: "string \<Rightarrow> ucx_sys" where
  "ucx_init me = \<lparr>us_rs = runtime_new me, us_out = [], us_gone = []\<rparr>"

definition held :: "checked_out list \<Rightarrow> string \<Rightarrow> nat" where
  "held out peer = length (filter (\<lambda>co. co_peer co = peer) out)"

text \<open>The ownership invariant, over the table, the handles issued, the checkouts and the closed ones.\<close>

definition own :: "(string, ep_slot) hmap \<Rightarrow> nat \<Rightarrow> checked_out list \<Rightarrow> nat list \<Rightarrow> bool" where
  "own eps next out gone \<longleftrightarrow>
     distinct (map fst eps) \<and> distinct (map (es_ep \<circ> snd) eps @ gone) \<and>
     (\<forall>ep \<in> set (map (es_ep \<circ> snd) eps @ gone). ep < next) \<and>
     (\<forall>peer s. map_of eps peer = Some s \<longrightarrow> es_in_flight s = held out peer) \<and>
     (\<forall>co \<in> set out. \<exists>s. map_of eps (co_peer co) = Some s \<and> es_ep s = co_ep co)"

definition ucx_inv :: "ucx_sys \<Rightarrow> bool" where
  "ucx_inv s = own (rs_eps (us_rs s)) (rs_next_ep (us_rs s)) (us_out s) (us_gone s)"

lemma ownD:
  assumes "own eps next out gone"
  shows "distinct (map fst eps)" "distinct (map (es_ep \<circ> snd) eps)" "distinct gone"
    "set (map (es_ep \<circ> snd) eps) \<inter> set gone = {}"
    "ep \<in> set (map (es_ep \<circ> snd) eps) \<union> set gone \<Longrightarrow> ep < next"
    "map_of eps peer = Some s \<Longrightarrow> es_in_flight s = held out peer"
    "co \<in> set out \<Longrightarrow> \<exists>s. map_of eps (co_peer co) = Some s \<and> es_ep s = co_ep co"
  using assms unfolding own_def by auto

lemma ownI:
  assumes "distinct (map fst eps)" "distinct (map (es_ep \<circ> snd) eps)" "distinct gone"
    "set (map (es_ep \<circ> snd) eps) \<inter> set gone = {}"
    "\<And>ep. ep \<in> set (map (es_ep \<circ> snd) eps) \<union> set gone \<Longrightarrow> ep < next"
    "\<And>peer s. map_of eps peer = Some s \<Longrightarrow> es_in_flight s = held out peer"
    "\<And>co. co \<in> set out \<Longrightarrow> \<exists>s. map_of eps (co_peer co) = Some s \<and> es_ep s = co_ep co"
  shows "own eps next out gone"
  using assms unfolding own_def by auto

lemma own_not_gone:
  assumes "own eps next out gone" "co \<in> set out"
  shows "co_ep co \<notin> set gone"
proof -
  from ownD(7) [OF assms] obtain t where t: "map_of eps (co_peer co) = Some t" "es_ep t = co_ep co" by blast
  then have "co_ep co \<in> set (map (es_ep \<circ> snd) eps)" by (force dest: map_of_SomeD)
  with ownD(4) [OF assms(1)] show ?thesis by blast
qed

lemma held_zero: "held out peer = 0 \<longleftrightarrow> (\<forall>co \<in> set out. co_peer co \<noteq> peer)"
  by (auto simp: held_def filter_empty_conv)

lemma map_update_existing:
  "distinct (map fst m) \<Longrightarrow> map_of m k = Some v \<Longrightarrow> f v' = f v \<Longrightarrow>
   map (f \<circ> snd) (AList.update k v' m) = map (f \<circ> snd) m"
  by (induction m) (auto split: if_splits)

lemma map_update_new:
  "map_of m k = None \<Longrightarrow> map (f \<circ> snd) (AList.update k v m) = map (f \<circ> snd) m @ [f v]"
  by (induction m) (auto split: if_splits)

lemma map_delete_set:
  assumes "distinct (map fst m)" "distinct (map (f \<circ> snd) m)" "map_of m k = Some v"
  shows "set (map (f \<circ> snd) (AList.delete k m)) = set (map (f \<circ> snd) m) - {f v} \<and> distinct (map (f \<circ> snd) (AList.delete k m))"
  using assms
proof (induction m)
  case (Cons p m)
  obtain a b where p: "p = (a, b)" by force
  show ?case
  proof (cases "a = k")
    case True
    with Cons.prems p have "k \<notin> fst ` set m" "b = v" by auto
    then have "AList.delete k m = m" by (simp add: delete_idem)
    with True p \<open>b = v\<close> Cons.prems show ?thesis by auto
  next
    case False
    with Cons p have IH: "set (map (f \<circ> snd) (AList.delete k m)) = set (map (f \<circ> snd) m) - {f v}"
      "distinct (map (f \<circ> snd) (AList.delete k m))" by (auto simp: comp_def)
    have "(k, v) \<in> set m" using False Cons.prems(3) p by (auto dest: map_of_SomeD)
    then have "f v \<in> (\<lambda>a. f (snd a)) ` set m" by force
    moreover have "f b \<notin> (\<lambda>a. f (snd a)) ` set m" using Cons.prems(2) p by (auto simp: comp_def)
    ultimately have "f b \<noteq> f v" by metis
    with IH show ?thesis using False p Cons.prems by (auto simp: comp_def)
  qed
qed simp

text \<open>The four ways the table changes keep ownership.\<close>

lemma own_flag:
  assumes "own eps next out gone" "map_of eps peer = Some s" "es_ep s' = es_ep s" "es_in_flight s' = es_in_flight s"
  shows "own (AList.update peer s' eps) next out gone"
proof -
  note o = ownD [OF assms(1)]
  have "map (es_ep \<circ> snd) (AList.update peer s' eps) = map (es_ep \<circ> snd) eps"
    using o(1) assms(2,3) by (rule map_update_existing)
  then show ?thesis using assms o(6) [OF assms(2)]
    by (auto simp: own_def map_simps distinct_keys_update)
qed

lemma own_remove:
  assumes "own eps next out gone" "map_of eps peer = Some s" "held out peer = 0"
  shows "own (AList.delete peer eps) next out (es_ep s # gone)"
proof -
  note o = ownD [OF assms(1)]
  note d = map_delete_set [OF o(1,2) assms(2)]
  have "es_ep s \<in> set (map (es_ep \<circ> snd) eps)" using assms(2) by (force dest: map_of_SomeD)
  with d o assms show ?thesis unfolding own_def held_zero
    by (auto simp: map_simps distinct_keys_delete)
qed

lemma own_checkout:
  assumes "own eps next out gone" "map_of eps peer = Some s"
  shows "own (AList.update peer (s\<lparr>es_in_flight := es_in_flight s + 1\<rparr>) eps) next (\<lparr>co_peer = peer, co_ep = es_ep s\<rparr> # out) gone"
proof -
  note o = ownD [OF assms(1)]
  have "map (es_ep \<circ> snd) (AList.update peer (s\<lparr>es_in_flight := es_in_flight s + 1\<rparr>) eps) = map (es_ep \<circ> snd) eps"
    using o(1) assms(2) by (rule map_update_existing) simp
  then show ?thesis using assms o(6) [OF assms(2)]
    by (auto simp: own_def map_simps distinct_keys_update held_def)
qed

lemma own_create:
  assumes "own eps next out gone" "map_of eps peer = None"
  shows "own (AList.update peer \<lparr>es_ep = next, es_broken = b, es_addr = a, es_in_flight = 1\<rparr> eps) (next + 1)
    (\<lparr>co_peer = peer, co_ep = next\<rparr> # out) gone"
proof -
  note o = ownD [OF assms(1)]
  have "\<forall>co \<in> set out. co_peer co \<noteq> peer" using o(7) assms(2) by fastforce
  then have "held out peer = 0" by (simp add: held_zero)
  moreover have "next \<notin> set (map (es_ep \<circ> snd) eps) \<union> set gone" using o(5) by blast
  moreover have "ep < next + 1" if "ep \<in> set (map (es_ep \<circ> snd) eps) \<union> set gone" for ep using o(5) [OF that] by simp
  ultimately show ?thesis
    using assms o by (auto simp: own_def map_simps distinct_keys_update held_def map_update_new)
qed

lemma own_release:
  assumes "own eps next out gone" "co \<in> set out" "map_of eps (co_peer co) = Some s"
    and "s' = s\<lparr>es_in_flight := es_in_flight s - 1\<rparr>"
  shows "own (AList.update (co_peer co) s' eps) next (remove1 co out) gone \<and> es_in_flight s' = held (remove1 co out) (co_peer co)"
proof -
  note o = ownD [OF assms(1)]
  have held: "held (remove1 co out) p = held out p - (if p = co_peer co then 1 else 0)" for p
  proof -
    have "filter Q (remove1 co out) = (if Q co then remove1 co (filter Q out) else filter Q out)" for Q
      by (simp add: filter_remove1 remove1_idem)
    then show ?thesis using assms(2) by (simp add: held_def length_remove1)
  qed
  have "map (es_ep \<circ> snd) (AList.update (co_peer co) s' eps) = map (es_ep \<circ> snd) eps"
    using o(1) assms(3) by (rule map_update_existing) (simp add: assms(4))
  moreover have "\<exists>x. map_of (AList.update (co_peer co) s' eps) (co_peer c) = Some x \<and> es_ep x = co_ep c"
    if "c \<in> set (remove1 co out)" for c
  proof -
    have "c \<in> set out" using notin_set_remove1 that by metis
    with o(7) [of c] assms(3,4) show ?thesis by (auto simp: map_simps)
  qed
  ultimately show ?thesis
    using assms(1) o(6) held o(6) [OF assms(3)] assms(4)
    by (auto simp: own_def map_simps distinct_keys_update)
qed

section \<open>Preservation\<close>

lemma update_peer_own:
  assumes "own (rs_eps rs) (rs_next_ep rs) out gone" "update_peer_addr_blob peer addr rs = (removed, rs')"
  shows "own (rs_eps rs') (rs_next_ep rs') out (rem_list removed @ gone)"
proof (cases "map_of (rs_eps rs) peer")
  case None
  with assms show ?thesis by (auto simp: update_peer_addr_blob_def rem_list_def Let_def)
next
  case (Some s)
  note flight = ownD(6) [OF assms(1) Some]
  consider (drop) "es_addr s \<noteq> addr" "es_in_flight s = 0" | (stale) "es_addr s \<noteq> addr" "es_in_flight s \<noteq> 0"
    | (same) "es_addr s = addr" by blast
  then show ?thesis
  proof cases
    case drop
    with own_remove [OF assms(1) Some] flight assms(2) Some show ?thesis
      by (auto simp: update_peer_addr_blob_def rem_list_def from_slot_def Let_def)
  next
    case stale
    with own_flag [OF assms(1) Some, of "s\<lparr>es_broken := True\<rparr>"] assms(2) Some show ?thesis
      by (auto simp: update_peer_addr_blob_def rem_list_def Let_def)
  next
    case same
    with assms Some show ?thesis by (auto simp: update_peer_addr_blob_def rem_list_def Let_def)
  qed
qed

lemma mark_broken_own:
  assumes "own (rs_eps rs) (rs_next_ep rs) out gone"
  shows "own (rs_eps (mark_peer_ep_broken peer rs)) (rs_next_ep (mark_peer_ep_broken peer rs)) out gone"
  using own_flag [OF assms, of peer _ "_\<lparr>es_broken := True\<rparr>"] assms
  by (auto simp: mark_peer_ep_broken_def split: option.splits)

lemma checkout_own:
  assumes "own (rs_eps rs) (rs_next_ep rs) out gone" "checkout_endpoint create peer addr rs = (Inr co, rs')"
  shows "own (rs_eps rs') (rs_next_ep rs') (co # out) gone
    \<and> (\<exists>s. map_of (rs_eps rs') peer = Some s \<and> es_ep s = co_ep co \<and> \<not> es_broken s \<and> es_addr s = addr) \<and> co_peer co = peer"
proof (cases "map_of (rs_eps rs) peer")
  case None
  with own_create [OF assms(1) None, of False addr] assms(2) show ?thesis
    by (auto simp: checkout_endpoint_def map_simps Let_def split: sum.splits)
next
  case (Some s)
  with own_checkout [OF assms(1) Some] assms(2) show ?thesis
    by (auto simp: checkout_endpoint_def map_simps split: if_splits)
qed

lemma release_own:
  assumes "own (rs_eps rs) (rs_next_ep rs) out gone" "co \<in> set out" "release_endpoint co rs = (removed, rs')"
  shows "own (rs_eps rs') (rs_next_ep rs') (remove1 co out) (rem_list removed @ gone)"
proof -
  from ownD(7) [OF assms(1,2)] obtain s where s: "map_of (rs_eps rs) (co_peer co) = Some s" by blast
  let ?s = "s\<lparr>es_in_flight := es_in_flight s - 1\<rparr>"
  note r = own_release [OF assms(1,2) s refl]
  show ?thesis
  proof (cases "es_in_flight ?s = 0 \<and> es_broken ?s")
    case True
    have "own (AList.delete (co_peer co) (AList.update (co_peer co) ?s (rs_eps rs))) (rs_next_ep rs) (remove1 co out) (es_ep ?s # gone)"
      using r True by (intro own_remove) (auto simp: map_simps)
    moreover have "AList.delete (co_peer co) (AList.update (co_peer co) ?s (rs_eps rs)) = AList.delete (co_peer co) (rs_eps rs)"
      by (simp add: delete_update_same)
    ultimately show ?thesis using True assms(3) s by (auto simp: release_endpoint_def rem_list_def from_slot_def)
  next
    case False
    with r assms(3) s show ?thesis by (auto simp: release_endpoint_def rem_list_def Let_def)
  qed
qed

lemma map_of_filter_distinct:
  "distinct (map fst m) \<Longrightarrow> map_of (filter (\<lambda>p. P (snd p)) m) k = Some v \<longleftrightarrow> map_of m k = Some v \<and> P v"
  by (induction m) (auto dest: map_of_SomeD intro: rev_image_eqI)

lemma reap_own:
  assumes "own (rs_eps rs) (rs_next_ep rs) out gone" "take_broken_peer_eps rs = (removed, rs')"
  shows "own (rs_eps rs') (rs_next_ep rs') out (map fst removed @ gone)"
proof -
  note o = ownD [OF assms(1)]
  have r: "map fst removed = map (es_ep \<circ> snd) (filter (\<lambda>p. reapable (snd p)) (rs_eps rs))"
      "rs_eps rs' = filter (\<lambda>p. \<not> reapable (snd p)) (rs_eps rs)" "rs_next_ep rs' = rs_next_ep rs"
    using assms(2) by (auto simp: take_broken_peer_eps_def comp_def from_slot_def)
  have inj: "inj_on (es_ep \<circ> snd) (set (rs_eps rs))" and dist: "distinct (rs_eps rs)"
    using o(2) by (simp_all add: distinct_map)
  have keep: "\<exists>s. map_of (rs_eps rs') (co_peer co) = Some s \<and> es_ep s = co_ep co" if "co \<in> set out" for co
  proof -
    from o(7) [OF that] obtain s where s: "map_of (rs_eps rs) (co_peer co) = Some s" "es_ep s = co_ep co" by blast
    have "held out (co_peer co) \<noteq> 0" using that by (auto simp: held_zero)
    then have "\<not> reapable s" using o(6) [OF s(1)] by (simp add: reapable_def)
    with s(1) have "map_of (rs_eps rs') (co_peer co) = Some s"
      unfolding r using map_of_filter_distinct [OF o(1), of "\<lambda>s. \<not> reapable s"] by blast
    with s(2) show ?thesis by blast
  qed
  have parts: "set (map (es_ep \<circ> snd) (rs_eps rs')) \<union> set (map fst removed) = set (map (es_ep \<circ> snd) (rs_eps rs))"
    unfolding r by auto
  show ?thesis
  proof (rule ownI)
    show "distinct (map fst (rs_eps rs'))" unfolding r using o(1) by (auto simp: distinct_map intro: inj_on_subset)
    show "distinct (map (es_ep \<circ> snd) (rs_eps rs'))" unfolding r using inj dist
      by (auto simp: distinct_map intro: inj_on_subset)
    have "distinct (map fst removed)" unfolding r using inj dist by (auto simp: distinct_map intro: inj_on_subset)
    moreover have "set (map fst removed) \<inter> set gone = {}" using o(4) parts by blast
    ultimately show "distinct (map fst removed @ gone)" using o(3) by (simp only: distinct_append)
    have "set (map (es_ep \<circ> snd) (rs_eps rs')) \<inter> set (map fst removed) = {}"
      unfolding r using inj by (fastforce simp: inj_on_def)
    then show "set (map (es_ep \<circ> snd) (rs_eps rs')) \<inter> set (map fst removed @ gone) = {}"
      unfolding set_append using o(4) parts by blast
    show "ep < rs_next_ep rs'" if "ep \<in> set (map (es_ep \<circ> snd) (rs_eps rs')) \<union> set (map fst removed @ gone)" for ep
      using o(5) [of ep] that parts unfolding r(3) by (metis Un_iff set_append)
    show "es_in_flight s = held out peer" if "map_of (rs_eps rs') peer = Some s" for peer s
      using that o(6) [of peer s] map_of_filter_distinct [OF o(1), of "\<lambda>s. \<not> reapable s" peer s] unfolding r by blast
  qed (rule keep)
qed

lemma begin_ok_own:
  assumes "own (rs_eps rs) (rs_next_ep rs) out gone" "begin_exchange create peer addr rs = (Inr (co, removed), rs')"
  shows "own (rs_eps rs') (rs_next_ep rs') (co # out) (rem_list removed @ gone)
    \<and> (\<exists>s. map_of (rs_eps rs') peer = Some s \<and> es_ep s = co_ep co \<and> \<not> es_broken s \<and> es_addr s = addr) \<and> co_peer co = peer"
proof -
  obtain r x where u: "update_peer_addr_blob peer addr rs = (x, r)" by force
  with assms(2) have c: "x = removed" "checkout_endpoint create peer addr r = (Inr co, rs')"
    by (auto simp: begin_exchange_def split: prod.splits sum.splits)
  show ?thesis using checkout_own [OF update_peer_own [OF assms(1) u] c(2)] c(1) by simp
qed

lemma checkout_error: "checkout_endpoint create peer addr rs = (Inl e, rs') \<Longrightarrow> rs' = rs"
  by (auto simp: checkout_endpoint_def Let_def split: option.splits sum.splits if_splits)

lemma own_forget: "own eps next out (g @ gone) \<Longrightarrow> own eps next out gone"
  by (auto simp: own_def)

lemma begin_error_own:
  assumes "own (rs_eps rs) (rs_next_ep rs) out gone" "begin_exchange create peer addr rs = (Inl e, rs')"
  shows "own (rs_eps rs') (rs_next_ep rs') out gone"
proof -
  obtain r x where u: "update_peer_addr_blob peer addr rs = (x, r)" by force
  with assms(2) have "checkout_endpoint create peer addr r = (Inl e, rs')"
    by (auto simp: begin_exchange_def split: prod.splits sum.splits)
  then have "rs' = r" by (rule checkout_error)
  with own_forget [OF update_peer_own [OF assms(1) u]] show ?thesis by simp
qed

lemma end_own:
  assumes "own (rs_eps rs) (rs_next_ep rs) out gone" "co \<in> set out" "end_exchange broke co rs = (removed, rs')"
  shows "own (rs_eps rs') (rs_next_ep rs') (remove1 co out) (rem_list removed @ gone)"
proof (cases broke)
  case True
  with assms(3) release_own [OF mark_broken_own [OF assms(1)] assms(2)] show ?thesis by (simp add: end_exchange_def)
next
  case False
  with assms(3) release_own [OF assms(1,2)] show ?thesis by (simp add: end_exchange_def)
qed

lemma ucx_step_inv: "ucx_step s s' \<Longrightarrow> ucx_inv s \<Longrightarrow> ucx_inv s'"
proof (induction rule: ucx_step.induct)
  case (Begin create peer addr s co removed rs')
  then show ?case using begin_ok_own unfolding ucx_inv_def by simp
next
  case (BeginFails create peer addr s e rs')
  then show ?case using begin_error_own unfolding ucx_inv_def by simp
next
  case (End co s broke removed rs')
  then show ?case using end_own unfolding ucx_inv_def by simp
next
  case (UpdatePeer peer addr s removed rs')
  then show ?case using update_peer_own unfolding ucx_inv_def by simp
next
  case (ErrorCallback s peer)
  then show ?case using mark_broken_own unfolding ucx_inv_def by simp
next
  case (Reap s removed rs')
  then show ?case using reap_own unfolding ucx_inv_def by simp
qed

lemma ucx_run_inv: "ucx_step\<^sup>*\<^sup>* s s' \<Longrightarrow> ucx_inv s \<Longrightarrow> ucx_inv s'"
  by (induction rule: rtranclp_induct) (auto intro: ucx_step_inv)

lemma ucx_init_inv: "ucx_inv (ucx_init me)"
  by (simp add: ucx_inv_def ucx_init_def runtime_new_def own_def)

section \<open>Receive slots\<close>

text \<open>Runs of the slot pool: the pool and the slots currently taken.\<close>

inductive slab_run :: "recv_slab \<Rightarrow> recv_slab \<Rightarrow> nat list \<Rightarrow> bool" for sl0 where
  Start: "slab_run sl0 sl0 []"
| Checkout: "slab_run sl0 sl taken \<Longrightarrow> slab_checkout sl = Some (Inr i, sl') \<Longrightarrow> slab_run sl0 sl' (i # taken)"
| Drop: "slab_run sl0 sl taken \<Longrightarrow> i \<in> set taken \<Longrightarrow> slab_run sl0 (slot_drop i sl) (remove1 i taken)"

definition slab_inv :: "recv_slab \<Rightarrow> recv_slab \<Rightarrow> nat list \<Rightarrow> bool" where
  "slab_inv sl0 sl taken \<longleftrightarrow> mset (sl_free sl) + mset taken = mset [0..<sl_n_slots sl0] \<and>
     sl_permits sl = length (sl_free sl) \<and> sl_n_slots sl = sl_n_slots sl0 \<and> sl_slot_size sl = sl_slot_size sl0"

lemma slab_run_inv:
  assumes "slab_run sl0 sl taken" "slab_new n sz = Inr sl0"
  shows "slab_inv sl0 sl taken"
  using assms
proof (induction rule: slab_run.induct)
  case Start
  then show ?case by (auto simp: slab_inv_def slab_new_def split: if_splits)
next
  case (Checkout sl taken i sl')
  then have ne: "sl_free sl \<noteq> []" and i: "i = last (sl_free sl)"
    and sl': "sl' = sl\<lparr>sl_permits := sl_permits sl - 1, sl_free := butlast (sl_free sl)\<rparr>"
    by (auto simp: slab_checkout_def Let_def split: if_splits)
  have "mset (sl_free sl) = mset (butlast (sl_free sl)) + {#i#}"
    using append_butlast_last_id [OF ne] i by (metis mset.simps mset_append)
  with Checkout sl' show ?case by (simp add: slab_inv_def)
next
  case (Drop sl taken i)
  then have "mset taken = add_mset i (mset (remove1 i taken))" by simp
  with Drop show ?case by (simp add: slab_inv_def slot_drop_def del: mset_remove1 mset_upt)
qed

section \<open>The exchange, end to end\<close>

lemma slice_hit:
  "try_get_into_slice sha env k n c = (Some (m, b), c') \<longleftrightarrow>
     (\<exists>e f. map_of (entries c) k = Some e \<and> n = e_size e \<and> m = n \<and>
        fs_read env (files c) (cache_filename sha k) = Some f \<and> read_exact_at f 0 n = Some b) \<and>
     c' = count_hit (snd (touch_lru k c))"
  by (auto simp: try_get_into_slice_def touch_lru_def Let_def split: option.splits if_splits)

lemma slice_disk_ok:
  assumes "disk_ok sha content K (Suc n) c"
  shows "disk_ok sha content K n (snd (try_get_into_slice sha env k m c))"
  using touch_disk_ok [OF assms, of k] disk_ok_mono [OF assms, of n]
  by (auto simp: try_get_into_slice_def touch_lru_def Let_def split: option.splits)

lemma serve_cached_sound:
  assumes "disk_ok sha content K (Suc n) c" "k \<in> K" "serve_cached sha env k len c = (r, c')"
  shows "disk_ok sha content K n c' \<and> (\<forall>b. r = Some b \<longrightarrow> b = content k \<and> length b \<le> len)"
proof -
  have ok: "disk_ok sha content K n c'"
    using assms(3) slice_disk_ok [OF assms(1), of env k] disk_ok_mono [OF assms(1), of n]
    by (auto simp: serve_cached_def split: option.splits prod.splits if_splits) (metis snd_conv)+
  have co: "coherent sha content K c" using assms(1) by (simp add: disk_ok_def)
  have "b = content k \<and> length b \<le> len" if r: "r = Some b" for b
  proof -
    from assms(3) r obtain m where m: "entry_size k c = Some m" "m \<le> len" "try_get_into_slice sha env k m c = (Some (m, b), c')"
      by (auto simp: serve_cached_def slice_hit split: option.splits prod.splits if_splits)
    then obtain e f where e: "map_of (entries c) k = Some e" "m = e_size e"
        and f: "fs_read env (files c) (cache_filename sha k) = Some f" "read_exact_at f 0 m = Some b"
      by (auto simp: slice_hit)
    have "f = content k" using coherent_read [OF co assms(2) f(1)] .
    moreover have "m = length (content k)" using co assms(2) e by (simp add: coherent_def)
    ultimately show ?thesis using f(2) m(2) by (auto simp: read_exact_at_def split: if_splits)
  qed
  with ok show ?thesis by blast
qed

text \<open>What a client waiting on \<open>tag\<close> receives from a server in state \<open>c\<close>: the response if its tag
  matches, an abort if the server sent none because of an error, nothing otherwise.\<close>

definition reply_from ::
  "(bytes \<Rightarrow> string) \<Rightarrow> hash_fn \<Rightarrow> fs_env \<Rightarrow> (chunk_key \<Rightarrow> nat \<Rightarrow> nat \<Rightarrow> bytes option) option \<Rightarrow> bool \<Rightarrow> 64 word \<Rightarrow> disk_cache \<Rightarrow>
   64 word \<Rightarrow> bytes \<Rightarrow> bytes result option"
where
  "reply_from uerr sha env provider panicked sent c tag req =
     (case fst (handle_inbound_request uerr sha env provider panicked req sent c) of
        Inl e \<Rightarrow> None
      | Inr None \<Rightarrow> None
      | Inr (Some (_, resp_tag, resp)) \<Rightarrow> if resp_tag = tag then Some (Inr resp) else None)"

lemma mask_id: "unat n < 2 ^ 48 \<Longrightarrow> (TAG_REQ_BASE OR n) AND TAG_ID_MASK = n"
proof -
  assume n: "unat n < 2 ^ 48"
  have m: "TAG_ID_MASK = mask 48" by (simp add: TAG_ID_MASK_def mask_eq_exp_minus_1)
  have "n AND mask 48 = n" using n by (simp add: take_bit_eq_mask [symmetric] word_unat_eq_iff unsigned_take_bit_eq take_bit_nat_eq_self_iff)
  moreover have "TAG_REQ_BASE AND mask 48 = 0" by (simp add: TAG_REQ_BASE_def mask_eq_exp_minus_1)
  ultimately show ?thesis unfolding m by (simp add: bit.conj_disj_distrib2)
qed

lemma exchange_with:
  assumes "encode_request key len me wait_ms rid = Inr req"
    and "fst (handle_inbound_request uerr sha env provider panicked req sent c) = Inr (Some (who, TAG_RESP_BASE OR rid_no, resp))"
  shows "client_fetch_inner (\<lambda>_ _. Inr ()) (reply_from uerr sha env provider panicked sent c) rid_no key len wait_ms me rid
    = Some (decode_response resp len)"
  using assms by (simp add: client_fetch_inner_def reply_from_def)

lemma handle_inbound_cases:
  assumes "decode_request uerr req = Inr r" "0 < rq_length r" "rq_length r \<le> MAX_RESPONSE_BYTES"
  shows "panicked \<Longrightarrow> fst (handle_inbound_request uerr sha env provider panicked req sent c) =
      Inr (Some (rq_requester r, TAG_RESP_BASE OR (sent AND TAG_ID_MASK), (le_bytes 4 STATUS_ERR @ le_bytes 4 0)))"
    and "\<not> panicked \<Longrightarrow> serve_cached sha env (rq_key r) (rq_length r) c = (Some b, c') \<Longrightarrow>
      fst (handle_inbound_request uerr sha env provider panicked req sent c) = Inr (Some (rq_requester r, TAG_RESP_BASE OR (sent AND TAG_ID_MASK), ok_frame b))"
    and "\<not> panicked \<Longrightarrow> serve_cached sha env (rq_key r) (rq_length r) c = (None, c') \<Longrightarrow>
      fst (handle_inbound_request uerr sha env provider panicked req sent c) = Inr (Some (rq_requester r, TAG_RESP_BASE OR (sent AND TAG_ID_MASK), (le_bytes 4 STATUS_MISS @ le_bytes 4 0))) \<or>
      (\<exists>p b. provider = Some p \<and> p (rq_key r) (rq_length r) (rq_wait_ms r) = Some b \<and> length b \<le> rq_length r \<and>
        fst (handle_inbound_request uerr sha env provider panicked req sent c) = Inr (Some (rq_requester r, TAG_RESP_BASE OR (sent AND TAG_ID_MASK), ok_frame b)))"
  using assms(1-3)
  by (auto simp: handle_inbound_request_def encode_response_def Let_def split: option.splits)

lemma decode_bare:
  "decode_response (le_bytes 4 STATUS_MISS @ le_bytes 4 0) n = Inl (NotFound ''peer miss'')"
  "\<exists>m. decode_response (le_bytes 4 STATUS_ERR @ le_bytes 4 0) n = Inl (Peer m)"
  by (simp_all add: decode_response_def from_le_le_bytes STATUS_OK_def STATUS_MISS_def STATUS_ERR_def Let_def)

section \<open>Properties\<close>



text \<open>C35: A failed checkout leaks the endpoint it displaced. When a peer's address changed while no task
  held its endpoint, and creating the new endpoint fails, the exchange returns the error with the old
  endpoint neither in the table nor handed to be closed, whatever the rest of the table holds.\<close>
theorem failed_checkout_leaks:
  assumes "map_of (rs_eps rs) peer = Some slot" "es_in_flight slot = 0" "es_addr slot \<noteq> addr"
    and "distinct (map fst (rs_eps rs))" "distinct (map (es_ep \<circ> snd) (rs_eps rs))"
  shows "\<exists>rs'. client_fetch (Inl e) send recv rid_no peer addr key 1 wait_ms rid rs = ((Some (Inl e), []), rs') \<and>
    es_ep slot \<notin> set (map (es_ep \<circ> snd) (rs_eps rs'))"
proof -
  have "es_ep slot \<notin> set (map (es_ep \<circ> snd) (AList.delete peer (rs_eps rs)))"
    using map_delete_set [OF assms(4,5,1)] by blast
  then show ?thesis using assms(1-3)
    by (simp add: client_fetch_def begin_exchange_def update_peer_addr_blob_def checkout_endpoint_def
        MAX_RESPONSE_BYTES_def map_simps Let_def)
qed

theorem failed_checkout_leaks_witness:
  "\<exists>rs'. client_fetch (Inl (Peer ''unreachable'')) (\<lambda>_ _ _. Inr ()) (\<lambda>_ _ _. None) 1 ''p'' [2] (sample_key 0) 1 0 []
     ((runtime_new ''me'')\<lparr>rs_eps := [(''p'', \<lparr>es_ep = 0, es_broken = False, es_addr = [1], es_in_flight = 0\<rparr>)]\<rparr>)
     = ((Some (Inl (Peer ''unreachable'')), []), rs') \<and> (0::nat) \<notin> set (map (es_ep \<circ> snd) (rs_eps rs'))"
  using failed_checkout_leaks [of "(runtime_new ''me'')\<lparr>rs_eps := [(''p'', \<lparr>es_ep = 0, es_broken = False, es_addr = [1], es_in_flight = 0\<rparr>)]\<rparr>"
      "''p''" "\<lparr>es_ep = 0, es_broken = False, es_addr = [1], es_in_flight = 0\<rparr>" "[2]"]
  by simp

text \<open>C33: Receive slots are never shared. Over any run of checkouts and drops of a pool of \<open>n\<close> slots the
  held slots are distinct indices below \<open>n\<close>; a checkout waits exactly when all \<open>n\<close> are held and
  otherwise yields a slot nobody holds, so the free list and the semaphore never disagree; and for a
  length within the slot size the byte ranges of two slots are disjoint and inside the buffer.\<close>
theorem slots_never_shared:
  assumes "slab_new n sz = Inr sl0" "slab_run sl0 sl taken"
  shows "distinct taken \<and> (\<forall>i \<in> set taken. i < n)
    \<and> (slab_checkout sl = None \<longleftrightarrow> length taken = n)
    \<and> (slab_checkout sl = Some (r, sl') \<longrightarrow> (\<exists>i < n. r = Inr i \<and> i \<notin> set taken))
    \<and> (len \<le> sz \<longrightarrow> (\<forall>i < n. slot_range sl i len \<subseteq> {0..<n * sz}
        \<and> (\<forall>j < n. i \<noteq> j \<longrightarrow> slot_range sl i len \<inter> slot_range sl j len = {})))"
proof -
  have n: "sl_n_slots sl0 = n" "sl_slot_size sl0 = sz" using assms(1) by (auto simp: slab_new_def split: if_splits)
  have inv: "mset (sl_free sl @ taken) = mset [0..<n]" "sl_permits sl = length (sl_free sl)" "sl_slot_size sl = sz"
    using slab_run_inv [OF assms(2,1)] n by (auto simp: slab_inv_def)
  have dist: "distinct (sl_free sl @ taken)" using mset_eq_imp_distinct_iff [OF inv(1)] by simp
  have sub: "set (sl_free sl @ taken) = {0..<n}" using mset_eq_setD [OF inv(1)] by simp
  have len: "length (sl_free sl) + length taken = n" using mset_eq_length [OF inv(1)] by simp
  have fresh: "\<exists>i < n. r = Inr i \<and> i \<notin> set taken" if "slab_checkout sl = Some (r, sl')"
  proof -
    from that inv(2) have ne: "sl_free sl \<noteq> []" and r: "r = Inr (last (sl_free sl))"
      by (auto simp: slab_checkout_def Let_def split: if_splits)
    then have "last (sl_free sl) \<in> set (sl_free sl)" by simp
    with r dist sub show ?thesis by auto
  qed
  have block: "slot_range sl i len \<subseteq> {i * sz ..< Suc i * sz}" if "len \<le> sz" for i
    using that by (auto simp: slot_range_def inv(3))
  have apart: "slot_range sl i len \<inter> slot_range sl j len = {}" if "len \<le> sz" "i < j" for i j
  proof -
    have "Suc i * sz \<le> j * sz" using that(2) by (intro mult_right_mono) auto
    with block [OF that(1), of i] block [OF that(1), of j] show ?thesis by fastforce
  qed
  have inside: "slot_range sl i len \<subseteq> {0..<n * sz}" if "len \<le> sz" "i < n" for i
  proof -
    have "Suc i * sz \<le> n * sz" using that(2) by (intro mult_right_mono) auto
    with block [OF that(1), of i] show ?thesis by fastforce
  qed
  have "slot_range sl i len \<inter> slot_range sl j len = {}" if "len \<le> sz" "i \<noteq> j" for i j
    using that apart [of i j] apart [of j i] by (auto simp: nat_neq_iff)
  moreover have "slab_checkout sl = None \<longleftrightarrow> length taken = n"
    using inv(2) len by (auto simp: slab_checkout_def Let_def)
  ultimately show ?thesis using dist sub fresh inside by auto
qed

theorem slots_never_shared_witness:
  "\<exists>sl0 sl. slab_new 2 64 = Inr sl0 \<and> slab_run sl0 sl [1, 0] \<and> slab_checkout sl = None"
proof -
  obtain sl0 where sl0: "slab_new 2 64 = Inr sl0" by (simp add: slab_new_def)
  then have "slab_checkout sl0 = Some (Inr 0, sl0\<lparr>sl_permits := 1, sl_free := [1]\<rparr>)"
    by (auto simp: slab_new_def slab_checkout_def upt_rec Let_def)
  from slab_run.Checkout [OF slab_run.Start this]
  have r1: "slab_run sl0 (sl0\<lparr>sl_permits := 1, sl_free := [1]\<rparr>) [0]" .
  have "slab_checkout (sl0\<lparr>sl_permits := 1, sl_free := [1]\<rparr>) = Some (Inr 1, sl0\<lparr>sl_permits := 0, sl_free := []\<rparr>)"
    by (simp add: slab_checkout_def)
  from slab_run.Checkout [OF r1 this] have r2: "slab_run sl0 (sl0\<lparr>sl_permits := 0, sl_free := []\<rparr>) [1, 0]" .
  from slots_never_shared [OF sl0 r2] sl0 r2 show ?thesis by auto
qed


definition stored_chunk :: disk_cache where
  "stored_chunk = one_chunk\<lparr>stats := (stats one_chunk)\<lparr>bytes_in_use := 3\<rparr>\<rparr>"

lemma stored_chunk_ok: "disk_ok (\<lambda>b. b) (\<lambda>_. [7, 8, 9]) {sample_key 0} (Suc 1) stored_chunk"
  by (auto simp: stored_chunk_def disk_ok_def coherent_def one_chunk_def empty_cache_def cache_inv_def idx_inv_def idx_def bt_sorted_def)


text \<open>Request handles are recycled by UCX, but never report a stale completion: whatever state the
  handle was left in, a posted operation is pending until it is completed, then resolves exactly once,
  with the status and length of that completion, and a later poll is an error.\<close>
theorem recycled_handle_fresh:
  "poll action (request_from_status_ptr action (Handle s)) = (None, request_from_status_ptr action (Handle s))
   \<and> poll action (complete_request st n (request_from_status_ptr action (Handle s)))
       = (Some (case st of None \<Rightarrow> Inr n | Some e \<Rightarrow> Inl (status_error action e)), Spent)
   \<and> complete_request st n (snd (poll action (request_from_status_ptr action (Handle s)))) =
       complete_request st n (request_from_status_ptr action (Handle s'))
   \<and> (\<exists>e. fst (poll action Spent) = Some (Inl e))"
  by (simp split: option.splits)

end
