(* ===== verification/Strings.thy ===== *)
theory Strings
  imports Errors
begin

text \<open>
  What the HTTP side of the daemon uses of Rust's \<open>str\<close>: \<open>trim\<close>, \<open>parse::<u64>\<close>, lower-casing of ASCII
  names, \<open>chars().take(n)\<close>, and the two checks of an HTTP header value.
\<close>

text \<open>The UTF-8 encodings of the characters with the Unicode property \<open>White_Space\<close>.\<close>

definition whitespace :: "string list" where
  "whitespace =
     map (map char_of)
       ([[9], [10], [11], [12], [13], [32], [0xC2, 0x85], [0xC2, 0xA0], [0xE1, 0x9A, 0x80]] @
        map (\<lambda>b. [0xE2, 0x80, b]) ([0x80..<0x8B] @ [0xA8, 0xA9, 0xAF]) @
        [[0xE2, 0x81, 0x9F], [0xE3, 0x80, 0x80 :: nat]])"

lemma whitespace_nonempty: "w \<in> set whitespace \<Longrightarrow> w \<noteq> []"
  by (auto simp: whitespace_def)

function trim_start :: "string \<Rightarrow> string" where
  "trim_start s =
     (case filter (\<lambda>w. prefix w s) whitespace of
        [] \<Rightarrow> s
      | w # _ \<Rightarrow> trim_start (drop (length w) s))"
  by pat_completeness auto

lemma filter_head: "filter P xs = x # ys \<Longrightarrow> x \<in> set xs \<and> P x"
  by (metis (mono_tags, lifting) filter_eq_ConsD in_set_conv_decomp)

termination trim_start
proof (relation "measure length")
  fix s w ws
  assume "filter (\<lambda>w. prefix w s) whitespace = w # ws"
  then have "w \<in> set whitespace" "prefix w s" using filter_head by fastforce+
  then show "(drop (length w) s, s) \<in> measure length"
    by (auto dest: whitespace_nonempty simp: prefix_def)
qed simp

declare trim_start.simps [simp del]

text \<open>An encoding is a suffix of the string exactly if its reversal is a prefix of the reversed string.\<close>

function trim_rev :: "string \<Rightarrow> string" where
  "trim_rev s =
     (case filter (\<lambda>w. prefix w s) (map rev whitespace) of
        [] \<Rightarrow> s
      | w # _ \<Rightarrow> trim_rev (drop (length w) s))"
  by pat_completeness auto

termination trim_rev
proof (relation "measure length")
  fix s w ws
  assume "filter (\<lambda>w. prefix w s) (map rev whitespace) = w # ws"
  then have "w \<in> rev ` set whitespace" "prefix w s" using filter_head by fastforce+
  then show "(drop (length w) s, s) \<in> measure length"
    by (auto dest: whitespace_nonempty simp: prefix_def)
qed simp

declare trim_rev.simps [simp del]

definition trim :: "string \<Rightarrow> string" where
  "trim s = rev (trim_rev (rev (trim_start s)))"

definition digit :: "char \<Rightarrow> bool" where
  "digit c \<longleftrightarrow> in_range 48 57 (of_char c)"

definition decimal :: "string \<Rightarrow> nat" where
  "decimal s = fold (\<lambda>c n. 10 * n + (of_char c - 48)) s 0"

text \<open>\<open>str::parse::<u64>\<close>: an optional plus sign and at least one digit, within the range of the type.\<close>

definition parse_u64 :: "string \<Rightarrow> nat option" where
  "parse_u64 s =
     (let ds = (case s of CHR ''+'' # t \<Rightarrow> t | _ \<Rightarrow> s) in
      if ds \<noteq> [] \<and> list_all digit ds \<and> decimal ds \<le> U64_MAX then Some (decimal ds) else None)"

text \<open>\<open>to_lowercase\<close> on the names it is applied to, which are ASCII.\<close>

definition to_lowercase :: "string \<Rightarrow> string" where
  "to_lowercase s = map (\<lambda>c. if in_range 65 90 (of_char c) then char_of (of_char c + 32 :: nat) else c) s"

text \<open>\<open>chars().take(n)\<close>: the first \<open>n\<close> characters; a continuation byte belongs to the character before it.\<close>

fun take_chars :: "nat \<Rightarrow> string \<Rightarrow> string" where
  "take_chars n [] = []"
| "take_chars n (c # s) =
     (if in_range 0x80 0xBF (of_char c) then c # take_chars n s
      else (case n of 0 \<Rightarrow> [] | Suc m \<Rightarrow> c # take_chars m s))"

definition contains :: "string \<Rightarrow> string \<Rightarrow> bool" where
  "contains s t \<longleftrightarrow> sublist t s"

fun join :: "string \<Rightarrow> string list \<Rightarrow> string" where
  "join sep [] = []"
| "join sep [s] = s"
| "join sep (s # t # r) = s @ sep @ join sep (t # r)"

text \<open>The check of \<open>HeaderValue::from_str\<close> and \<open>HeaderValue::to_str\<close>: visible ASCII, space or tab.\<close>

definition visible_ascii :: "string \<Rightarrow> bool" where
  "visible_ascii s \<longleftrightarrow> list_all (\<lambda>c. in_range 32 126 (of_char c) \<or> of_char c = (9 :: nat)) s"

type_synonym header_map = "(string, string) hmap"

definition header_str :: "string \<Rightarrow> header_map \<Rightarrow> string option" where
  "header_str name h = (case map_of h name of Some v \<Rightarrow> if visible_ascii v then Some v else None | None \<Rightarrow> None)"

definition is_success :: "nat \<Rightarrow> bool" where
  "is_success status \<longleftrightarrow> in_range 200 299 status"

section \<open>Lemmas\<close>

lemma take_chars_prefix: "prefix (take_chars n s) s"
  by (induction n s rule: take_chars.induct) (auto split: nat.splits)

lemma decimal_snoc: "decimal (s @ [c]) = 10 * decimal s + (of_char c - 48)"
  by (simp add: decimal_def)

lemma hex_digit_value: "d < 10 \<Longrightarrow> of_char (hex_digits ! d) = (48 + d :: nat)"
proof -
  assume "d < 10"
  then have "d \<in> {0,1,2,3,4,5,6,7,8,9}" by auto
  then show ?thesis by (auto simp: hex_digits_def)
qed

lemma decimal_show_dec: "decimal (show_dec n) = n"
proof -
  have "decimal (map (\<lambda>d. hex_digits ! d) (radix_digits r n)) = n" if "r = 10" for r
    using that
  proof (induction r n rule: radix_digits.induct)
    case (1 r n)
    show ?case
    proof (cases "n < 10")
      case True
      then show ?thesis using 1(2) by (subst radix_digits.simps) (simp add: decimal_def hex_digit_value)
    next
      case False
      with 1 have "decimal (map (\<lambda>d. hex_digits ! d) (radix_digits r (n div r))) = n div r" by simp
      with False 1(2) show ?thesis
        by (subst radix_digits.simps) (simp add: decimal_snoc hex_digit_value)
    qed
  qed
  then show ?thesis by (simp add: show_dec_def)
qed

lemma show_dec_digits: "list_all digit (show_dec n)"
  using bspec [OF radix_digits_less [of 10]]
  by (fastforce simp: show_dec_def list_all_iff digit_def in_range_def hex_digit_value)

lemma show_dec_nonempty: "show_dec n \<noteq> []"
  by (subst show_dec_def, subst radix_digits.simps) simp

lemma parse_show_dec: "n \<le> U64_MAX \<Longrightarrow> parse_u64 (show_dec n) = Some n"
proof -
  assume "n \<le> U64_MAX"
  obtain c t where ct: "show_dec n = c # t" using show_dec_nonempty by (cases "show_dec n") auto
  with show_dec_digits [of n] have "c \<noteq> CHR ''+''" by (auto simp: digit_def in_range_def)
  then have "(case show_dec n of CHR ''+'' # t \<Rightarrow> t | _ \<Rightarrow> show_dec n) = show_dec n"
    unfolding ct by (simp split: list.splits) (cases c; auto split: bool.splits)
  then show ?thesis
    using \<open>n \<le> U64_MAX\<close> show_dec_nonempty show_dec_digits by (simp add: parse_u64_def decimal_show_dec)
qed

lemma show_dec_visible: "visible_ascii (show_dec n)"
  using show_dec_digits [of n] by (auto simp: visible_ascii_def list_all_iff digit_def in_range_def)

lemma visible_append [simp]: "visible_ascii (s @ t) \<longleftrightarrow> visible_ascii s \<and> visible_ascii t"
  by (simp add: visible_ascii_def)

lemma parse_u64_le: "parse_u64 s = Some n \<Longrightarrow> n \<le> U64_MAX"
  by (auto simp: parse_u64_def Let_def split: if_splits)

end
