(* ===== verification/Credentials.thy ===== *)
theory Credentials
  imports Strings Config
begin

text \<open>
  Credentials (\<open>src/auth\<close>): the bearer token cache with its serialised refresh, the order in which a
  credential is resolved, the two token sources, SAS tokens and the shared-key signature.

  Environment variables, the federated token file, the identity endpoints, their JSON, HMAC-SHA-256,
  base64 and the \<open>url\<close> crate are parameters. An \<open>Arc<BearerSource>\<close> is an index into the sources
  allocated so far, so that clones of a credential share one source. A panic (\<open>expect\<close>, \<open>unwrap\<close>) is
  \<open>None\<close>.
\<close>

section \<open>Token sources (\<open>imds.rs\<close>)\<close>

datatype bearer_kind = Workload | Imds

type_synonym http_reply = "string + nat \<times> (string + string)"

record idp =
  idp_env :: "string \<Rightarrow> string option"
  idp_read :: "string \<Rightarrow> string + string"
  idp_client :: "string option"
  idp_post :: "string \<Rightarrow> (string \<times> string) list \<Rightarrow> http_reply"
  idp_get :: "string \<Rightarrow> http_reply"
  idp_json_workload :: "string \<Rightarrow> string + string \<times> nat option"
  idp_json_imds :: "string \<Rightarrow> string + string \<times> string option \<times> string option"
  idp_status :: "nat \<Rightarrow> string"
  idp_now :: nat

definition DEFAULT_TTL_SECS :: nat where
  "DEFAULT_TTL_SECS = 3600"

text \<open>The part the two sources share: the body is read, then the status examined.\<close>

definition workload_params :: "string \<Rightarrow> string \<Rightarrow> (string \<times> string) list" where
  "workload_params client_id assertion =
     [(''client_id'', client_id), (''scope'', ''https://storage.azure.com/.default''),
      (''grant_type'', ''client_credentials''),
      (''client_assertion_type'', ''urn:ietf:params:oauth:client-assertion-type:jwt-bearer''),
      (''client_assertion'', assertion)]"

definition workload_parse :: "idp \<Rightarrow> nat \<times> (string + string) \<Rightarrow> (string \<times> nat) option result" where
  "workload_parse p = (\<lambda>(status, text).
     case text of
       Inl e \<Rightarrow> Inl (Auth (''read body: '' @ e))
     | Inr body \<Rightarrow>
         if \<not> is_success status then Inl (Auth (''workload token HTTP '' @ idp_status p status @ '': '' @ body))
         else (case idp_json_workload p body of
                 Inl e \<Rightarrow> Inl (Auth (''parse: '' @ e @ '' body='' @ body))
               | Inr (access_token, expires_in) \<Rightarrow>
                   Inr (Some (access_token, u64_add (idp_now p) (case expires_in of Some s \<Rightarrow> s | None \<Rightarrow> DEFAULT_TTL_SECS)))))"

definition get_storage_token_workload :: "idp \<Rightarrow> (string \<times> nat) option result" where
  "get_storage_token_workload p =
     (case (idp_env p ''AZURE_CLIENT_ID'', idp_env p ''AZURE_TENANT_ID'', idp_env p ''AZURE_FEDERATED_TOKEN_FILE'') of
        (Some client_id, Some tenant_id, Some token_file) \<Rightarrow>
          let authority = (case idp_env p ''AZURE_AUTHORITY_HOST'' of Some a \<Rightarrow> a | None \<Rightarrow> ''https://login.microsoftonline.com/'') in
          (case idp_read p token_file of
             Inl e \<Rightarrow> Inl (Auth (''read federated token '' @ token_file @ '': '' @ e))
           | Inr assertion \<Rightarrow>
               let url = trim_end_matches CHR ''/'' authority @ ''/'' @ tenant_id @ ''/oauth2/v2.0/token'' in
               (case idp_client p of
                  Some e \<Rightarrow> Inl (Auth (''http client: '' @ e))
                | None \<Rightarrow>
                    (case idp_post p url (workload_params client_id (trim assertion)) of
                       Inl e \<Rightarrow> Inl (Auth (''workload token exchange: '' @ e))
                     | Inr reply \<Rightarrow> workload_parse p reply)))
      | _ \<Rightarrow> Inr None)"

definition imds_url :: "idp \<Rightarrow> string" where
  "imds_url p =
     ''http://169.254.169.254/metadata/identity/oauth2/token?api-version=2018-02-01&resource=https://storage.azure.com/'' @
     (case idp_env p ''AZURE_CLIENT_ID'' of
        Some cid \<Rightarrow> ''&client_id='' @ cid
      | None \<Rightarrow>
          (case idp_env p ''AZURE_MSI_RESOURCE_ID'' of
             Some rid \<Rightarrow> ''&msi_res_id='' @ rid
           | None \<Rightarrow> []))"

definition imds_expiry :: "nat \<Rightarrow> string option \<Rightarrow> string option \<Rightarrow> nat" where
  "imds_expiry now expires_on expires_in =
     (case Option.bind expires_on parse_u64 of
        Some t \<Rightarrow> t
      | None \<Rightarrow>
          (case Option.bind expires_in parse_u64 of
             Some secs \<Rightarrow> u64_add now secs
           | None \<Rightarrow> u64_add now DEFAULT_TTL_SECS))"

definition imds_not_applicable :: "nat \<Rightarrow> string \<Rightarrow> bool" where
  "imds_not_applicable status body \<longleftrightarrow>
     status = 404 \<or>
     (status = 400 \<and>
       (contains body ''Identity not found'' \<or> contains body ''No managed identity'' \<or> contains body ''identity_not_found''))"

definition imds_parse :: "idp \<Rightarrow> nat \<times> (string + string) \<Rightarrow> (string \<times> nat) option result" where
  "imds_parse p = (\<lambda>(status, text).
     case text of
       Inl e \<Rightarrow> Inl (Auth (''read body: '' @ e))
     | Inr body \<Rightarrow>
         if \<not> is_success status then
           (if contains body ''Multiple user assigned identities''
            then Inl (Auth ''IMDS: multiple user-assigned identities; set AZURE_CLIENT_ID'')
            else if imds_not_applicable status body then Inr None
            else Inl (Auth (''IMDS HTTP '' @ idp_status p status @ '': '' @ body)))
         else
           (case idp_json_imds p body of
              Inl e \<Rightarrow> Inl (Auth (''parse: '' @ e @ '' body='' @ body))
            | Inr (access_token, expires_on, expires_in) \<Rightarrow>
                Inr (Some (access_token, imds_expiry (idp_now p) expires_on expires_in))))"

definition get_storage_token_imds :: "idp \<Rightarrow> (string \<times> nat) option result" where
  "get_storage_token_imds p =
     (case idp_client p of
        Some e \<Rightarrow> Inl (Auth (''http client: '' @ e))
      | None \<Rightarrow>
          (case idp_get p (imds_url p) of
             Inl _ \<Rightarrow> Inr None
           | Inr reply \<Rightarrow> imds_parse p reply))"

definition storage_token :: "bearer_kind \<Rightarrow> idp \<Rightarrow> (string \<times> nat) option result" where
  "storage_token kind p =
     (case kind of Workload \<Rightarrow> get_storage_token_workload p | Imds \<Rightarrow> get_storage_token_imds p)"

section \<open>The bearer cache\<close>

definition REFRESH_SKEW_SECS :: nat where
  "REFRESH_SKEW_SECS = 300"

record bearer_source =
  bs_kind :: bearer_kind
  bs_cached :: "(string \<times> nat) option"

definition bearer_new :: "bearer_kind \<Rightarrow> string \<times> nat \<Rightarrow> bearer_source" where
  "bearer_new kind initial = \<lparr>bs_kind = kind, bs_cached = Some initial\<rparr>"

text \<open>The check made on the fast path and again after winning the refresh lock.\<close>

definition cached_token :: "nat \<Rightarrow> bearer_source \<Rightarrow> string option" where
  "cached_token now src =
     (case bs_cached src of
        Some (t, expires) \<Rightarrow> if expires > now + REFRESH_SKEW_SECS then Some t else None
      | None \<Rightarrow> None)"

text \<open>The end of the slow path: the answer of the blocking task, \<open>Inl\<close> if it could not be joined.\<close>

definition refresh :: "string + (string \<times> nat) option result \<Rightarrow> bearer_source \<Rightarrow> string result \<times> bearer_source" where
  "refresh joined src =
     (case joined of
        Inl e \<Rightarrow> (Inl (Auth (''token refresh join: '' @ e)), src)
      | Inr (Inl e) \<Rightarrow> (Inl e, src)
      | Inr (Inr None) \<Rightarrow> (Inl (Auth ''token source no longer available''), src)
      | Inr (Inr (Some new)) \<Rightarrow> (Inr (fst new), src\<lparr>bs_cached := Some new\<rparr>))"

definition invalidate :: "bearer_source \<Rightarrow> bearer_source" where
  "invalidate src = src\<lparr>bs_cached := None\<rparr>"

text \<open>
  One whole call: other tasks act on the source while this one waits for the lock (\<open>lock_wait\<close>) and for
  the blocking task (\<open>fetch_wait\<close>).
\<close>

definition token ::
  "nat \<Rightarrow> (bearer_source \<Rightarrow> bearer_source) \<Rightarrow> (bearer_source \<Rightarrow> bearer_source) \<Rightarrow>
   (bearer_kind \<Rightarrow> string + (string \<times> nat) option result) \<Rightarrow> bearer_source \<Rightarrow> string result \<times> bearer_source"
where
  "token now lock_wait fetch_wait fetch src =
     (case cached_token now src of
        Some t \<Rightarrow> (Inr t, src)
      | None \<Rightarrow>
          let src = lock_wait src in
          (case cached_token now src of
             Some t \<Rightarrow> (Inr t, src)
           | None \<Rightarrow> refresh (fetch (bs_kind src)) (fetch_wait src)))"

section \<open>Resolution\<close>

datatype credential =
    SharedKey string string
  | Sas string
  | Bearer nat
  | Anonymous

record auth_state =
  as_ambient :: "credential option"
  as_sources :: "bearer_source list"

definition from_env :: "(string \<Rightarrow> string option) \<Rightarrow> credential option result" where
  "from_env env =
     (case (env ''AZURE_STORAGE_ACCOUNT'', env ''AZURE_STORAGE_KEY'') of
        (Some account, Some key) \<Rightarrow> Inr (Some (SharedKey account key))
      | _ \<Rightarrow>
          (case env ''AZURE_STORAGE_SAS_TOKEN'' of
             Some sas \<Rightarrow> Inr (Some (Sas sas))
           | None \<Rightarrow> Inr None))"

definition install :: "bearer_kind \<Rightarrow> string \<times> nat \<Rightarrow> auth_state \<Rightarrow> credential \<times> auth_state" where
  "install kind initial st =
     (let c = Bearer (length (as_sources st)) in
      (c, st\<lparr>as_ambient := Some c, as_sources := as_sources st @ [bearer_new kind initial]\<rparr>))"

definition resolve_ambient :: "idp \<Rightarrow> auth_state \<Rightarrow> credential result \<times> auth_state" where
  "resolve_ambient p st =
     (case as_ambient st of
        Some c \<Rightarrow> (Inr c, st)
      | None \<Rightarrow>
          (case get_storage_token_workload p of
             Inl e \<Rightarrow> (Inl e, st)
           | Inr (Some initial) \<Rightarrow> apfst Inr (install Workload initial st)
           | Inr None \<Rightarrow>
               (case get_storage_token_imds p of
                  Inl e \<Rightarrow> (Inl e, st)
                | Inr (Some initial) \<Rightarrow> apfst Inr (install Imds initial st)
                | Inr None \<Rightarrow> (Inr Anonymous, st))))"

definition resolve :: "idp \<Rightarrow> string option \<Rightarrow> auth_state \<Rightarrow> credential result \<times> auth_state" where
  "resolve p sas_token st =
     (case sas_token of
        Some sas \<Rightarrow> (Inr (Sas sas), st)
      | None \<Rightarrow>
          (case from_env (idp_env p) of
             Inl e \<Rightarrow> (Inl e, st)
           | Inr (Some c) \<Rightarrow> (Inr c, st)
           | Inr None \<Rightarrow> resolve_ambient p st))"

section \<open>URLs, SAS tokens and shared-key signatures\<close>

record 'u url_ops =
  u_parse :: "string \<Rightarrow> string + 'u"
  u_path :: "'u \<Rightarrow> string"
  u_query :: "'u \<Rightarrow> string option"
  u_set_query :: "string \<Rightarrow> 'u \<Rightarrow> 'u"
  u_query_pairs :: "'u \<Rightarrow> (string \<times> string) list"

definition append_sas_token :: "'u url_ops \<Rightarrow> string \<Rightarrow> 'u \<Rightarrow> 'u" where
  "append_sas_token ops tok url =
     (let tok = (case strip_prefix ''?'' tok of Some t \<Rightarrow> t | None \<Rightarrow> tok);
          existing = (case u_query ops url of Some q \<Rightarrow> q | None \<Rightarrow> []) in
      if existing = [] then u_set_query ops tok url
      else u_set_query ops (existing @ ''&'' @ tok) url)"

record crypto =
  cr_hmac :: "bytes \<Rightarrow> bytes \<Rightarrow> bytes"
  cr_b64_encode :: "bytes \<Rightarrow> string"
  cr_b64_decode :: "string \<Rightarrow> bytes option"

definition get_header :: "header_map \<Rightarrow> string \<Rightarrow> string" where
  "get_header headers name = (case header_str name headers of Some v \<Rightarrow> v | None \<Rightarrow> [])"

definition NL :: string where
  "NL = [CHR 0x0A]"

definition build_canonicalized_headers :: "header_map \<Rightarrow> string" where
  "build_canonicalized_headers headers =
     (let ms = List.map_filter
                 (\<lambda>(k, v). let n = to_lowercase k in
                    if starts_with n ''x-ms-'' then Some (n, if visible_ascii v then v else []) else None) headers in
      join NL (map (\<lambda>(k, v). k @ '':'' @ v) (sort_key fst ms)))"

definition build_canonicalized_resource :: "'u url_ops \<Rightarrow> string \<Rightarrow> 'u \<Rightarrow> string" where
  "build_canonicalized_resource ops account url =
     (let params = sort_key fst (map (\<lambda>(k, v). (to_lowercase k, v)) (u_query_pairs ops url)) in
      ''/'' @ account @ u_path ops url @ concat (map (\<lambda>(key, v). NL @ key @ '':'' @ v) params))"

definition string_to_sign :: "'u url_ops \<Rightarrow> string \<Rightarrow> string \<Rightarrow> 'u \<Rightarrow> header_map \<Rightarrow> nat option \<Rightarrow> string" where
  "string_to_sign ops account meth url headers content_length =
     join NL
       [meth, get_header headers ''content-encoding'', get_header headers ''content-language'',
        (case content_length of Some len \<Rightarrow> if len = 0 then [] else show_dec len | None \<Rightarrow> []),
        get_header headers ''content-md5'', get_header headers ''content-type'', get_header headers ''date'',
        get_header headers ''if-modified-since'', get_header headers ''if-match'', get_header headers ''if-none-match'',
        get_header headers ''if-unmodified-since'', get_header headers ''range'',
        build_canonicalized_headers headers, build_canonicalized_resource ops account url]"

definition sign_request ::
  "crypto \<Rightarrow> 'u url_ops \<Rightarrow> string \<Rightarrow> string \<Rightarrow> string \<Rightarrow> 'u \<Rightarrow> header_map \<Rightarrow> nat option \<Rightarrow> string option"
where
  "sign_request cr ops account key meth url headers content_length =
     map_option
       (\<lambda>decoded_key.
          ''SharedKey '' @ account @ '':'' @
          cr_b64_encode cr (cr_hmac cr decoded_key (as_bytes (string_to_sign ops account meth url headers content_length))))
       (cr_b64_decode cr key)"

section \<open>Tasks sharing one source\<close>

text \<open>
  Tasks call \<open>token\<close> on one source while others invalidate it after a 401. \<open>Queued\<close> waits for the refresh
  lock, \<open>Locked\<close> holds it before the second check, \<open>Fetching\<close> holds it during the request. No step of a
  run reads a clock later than \<open>h\<close>, and the tokens it fetches are still fresh at \<open>h\<close>.
\<close>

datatype phase = Idle | Queued nat | Locked nat | Fetching nat

record refresh_sys =
  rf_src :: bearer_source
  rf_lock :: "nat option"
  rf_phase :: "nat \<Rightarrow> phase"
  rf_got :: "(nat \<times> string) list"
  rf_refreshes :: nat
  rf_invalidations :: nat

definition rf_init :: "bearer_source \<Rightarrow> refresh_sys" where
  "rf_init src = \<lparr>rf_src = src, rf_lock = None, rf_phase = (\<lambda>_. Idle), rf_got = [], rf_refreshes = 0, rf_invalidations = 0\<rparr>"

inductive rf_step :: "nat \<Rightarrow> refresh_sys \<Rightarrow> refresh_sys \<Rightarrow> bool" for h where
  fast: "rf_phase s i = Idle \<Longrightarrow> now \<le> h \<Longrightarrow> cached_token now (rf_src s) = Some t \<Longrightarrow>
     rf_step h s (s\<lparr>rf_got := (i, t) # rf_got s\<rparr>)"
| slow: "rf_phase s i = Idle \<Longrightarrow> now \<le> h \<Longrightarrow> cached_token now (rf_src s) = None \<Longrightarrow>
     rf_step h s (s\<lparr>rf_phase := (rf_phase s)(i := Queued now)\<rparr>)"
| acquire: "rf_phase s i = Queued now \<Longrightarrow> rf_lock s = None \<Longrightarrow>
     rf_step h s (s\<lparr>rf_phase := (rf_phase s)(i := Locked now), rf_lock := Some i\<rparr>)"
| recheck_hit: "rf_phase s i = Locked now \<Longrightarrow> cached_token now (rf_src s) = Some t \<Longrightarrow>
     rf_step h s (s\<lparr>rf_phase := (rf_phase s)(i := Idle), rf_lock := None, rf_got := (i, t) # rf_got s\<rparr>)"
| recheck_miss: "rf_phase s i = Locked now \<Longrightarrow> cached_token now (rf_src s) = None \<Longrightarrow>
     rf_step h s (s\<lparr>rf_phase := (rf_phase s)(i := Fetching now)\<rparr>)"
| stored: "rf_phase s i = Fetching now \<Longrightarrow> h + REFRESH_SKEW_SECS < expires \<Longrightarrow>
     refresh (Inr (Inr (Some (t, expires)))) (rf_src s) = (Inr t, src) \<Longrightarrow>
     rf_step h s (s\<lparr>rf_src := src, rf_phase := (rf_phase s)(i := Idle), rf_lock := None, rf_got := (i, t) # rf_got s,
       rf_refreshes := Suc (rf_refreshes s)\<rparr>)"
| failed: "rf_phase s i = Fetching now \<Longrightarrow> refresh joined (rf_src s) = (Inl e, src) \<Longrightarrow>
     rf_step h s (s\<lparr>rf_src := src, rf_phase := (rf_phase s)(i := Idle), rf_lock := None\<rparr>)"
| invalidated: "rf_step h s (s\<lparr>rf_src := invalidate (rf_src s), rf_invalidations := Suc (rf_invalidations s)\<rparr>)"

fun holds :: "phase \<Rightarrow> bool" where
  "holds (Locked _) = True"
| "holds (Fetching _) = True"
| "holds _ = False"

fun phase_time :: "phase \<Rightarrow> nat" where
  "phase_time Idle = 0"
| "phase_time (Queued n) = n"
| "phase_time (Locked n) = n"
| "phase_time (Fetching n) = n"

definition long_lived :: "nat \<Rightarrow> bearer_source \<Rightarrow> bool" where
  "long_lived h src \<longleftrightarrow> (\<exists>t e. bs_cached src = Some (t, e) \<and> h + REFRESH_SKEW_SECS < e)"

definition rf_inv :: "nat \<Rightarrow> refresh_sys \<Rightarrow> bool" where
  "rf_inv h s \<longleftrightarrow>
     (\<forall>i. holds (rf_phase s i) \<longleftrightarrow> rf_lock s = Some i) \<and>
     (\<forall>i. phase_time (rf_phase s i) \<le> h) \<and>
     (\<forall>i n. rf_phase s i = Fetching n \<longrightarrow> bs_cached (rf_src s) = None) \<and>
     (bs_cached (rf_src s) = None \<or> long_lived h (rf_src s)) \<and>
     rf_refreshes s + (if bs_cached (rf_src s) = None then 1 else 0) \<le> rf_invalidations s"

section \<open>Lemmas\<close>

lemma long_lived_cached: "long_lived h src \<Longrightarrow> now \<le> h \<Longrightarrow> cached_token now src \<noteq> None"
  by (auto simp: long_lived_def cached_token_def)

lemma refresh_Inl: "refresh joined src = (Inl e, src') \<Longrightarrow> src' = src"
  by (auto simp: refresh_def split: sum.splits option.splits)

lemma rf_invD:
  assumes "rf_inv h s"
  shows "holds (rf_phase s i) \<longleftrightarrow> rf_lock s = Some i" "phase_time (rf_phase s i) \<le> h"
    "rf_phase s i = Fetching n \<Longrightarrow> bs_cached (rf_src s) = None"
    "bs_cached (rf_src s) = None \<or> long_lived h (rf_src s)"
    "rf_refreshes s + (if bs_cached (rf_src s) = None then 1 else 0) \<le> rf_invalidations s"
  using assms by (auto simp: rf_inv_def)

lemma rf_inv_step: "rf_step h s s' \<Longrightarrow> rf_inv h s \<Longrightarrow> rf_inv h s'"
proof (induction rule: rf_step.induct)
  case (fast s i now t)
  then show ?case by (simp add: rf_inv_def)
next
  case (slow s i now)
  then show ?case by (auto simp: rf_inv_def) (metis holds.simps(3))+
next
  case (acquire s i now)
  then show ?case using rf_invD(2) [OF acquire(3), of i] by (auto simp: rf_inv_def)
next
  case (recheck_hit s i now t)
  then have "rf_lock s = Some i" using rf_invD(1) [OF recheck_hit(3), of i] by simp
  with recheck_hit show ?case by (auto simp: rf_inv_def)
next
  case (recheck_miss s i now)
  have "now \<le> h" using rf_invD(2) [OF recheck_miss(3), of i] recheck_miss(1) by simp
  with recheck_miss long_lived_cached have "\<not> long_lived h (rf_src s)" by blast
  with rf_invD(4) [OF recheck_miss(3)] have "bs_cached (rf_src s) = None" by blast
  moreover have "rf_lock s = Some i" using rf_invD(1) [OF recheck_miss(3), of i] recheck_miss(1) by simp
  ultimately show ?case using recheck_miss \<open>now \<le> h\<close> by (auto simp: rf_inv_def)
next
  case (stored s i now expires t src)
  then have src: "src = (rf_src s)\<lparr>bs_cached := Some (t, expires)\<rparr>" by (simp add: refresh_def)
  have "rf_lock s = Some i" using rf_invD(1) [OF stored(4), of i] stored(1) by simp
  then have "holds (rf_phase s j) \<longleftrightarrow> j = i" for j using rf_invD(1) [OF stored(4), of j] by auto
  moreover have "rf_phase s j \<noteq> Fetching n" if "j \<noteq> i" for j n using calculation [of j] that by auto
  moreover have "Suc (rf_refreshes s) \<le> rf_invalidations s"
    using rf_invD(3) [OF stored(4) stored(1)] rf_invD(5) [OF stored(4)] by simp
  moreover have "long_lived h src" using src stored(2) by (simp add: long_lived_def)
  ultimately show ?case using rf_invD(2) [OF stored(4)] src by (auto simp: rf_inv_def)
next
  case (failed s i now joined e src)
  then have "src = rf_src s" using refresh_Inl by blast
  moreover have "rf_lock s = Some i" using rf_invD(1) [OF failed(3), of i] failed(1) by simp
  ultimately show ?case using failed by (auto simp: rf_inv_def)
next
  case (invalidated s)
  then show ?case by (auto simp: rf_inv_def invalidate_def split: if_splits)
qed

lemma rf_inv_run: "(rf_step h)\<^sup>*\<^sup>* s s' \<Longrightarrow> rf_inv h s \<Longrightarrow> rf_inv h s'"
  by (induction rule: rtranclp_induct) (auto intro: rf_inv_step)

lemma rf_inv_init: "long_lived h src \<Longrightarrow> rf_inv h (rf_init src)"
  by (auto simp: rf_inv_def rf_init_def long_lived_def)

definition ambient_ok :: "auth_state \<Rightarrow> bool" where
  "ambient_ok st \<longleftrightarrow>
     (case as_ambient st of
        None \<Rightarrow> as_sources st = []
      | Some c \<Rightarrow> c = Bearer 0 \<and> length (as_sources st) = 1)"

lemma resolve_ambient_ok:
  assumes "ambient_ok st" and "resolve_ambient p st = (r, st')"
  shows "ambient_ok st' \<and> (\<forall>c. r = Inr c \<longrightarrow> c = Anonymous \<or> c = Bearer 0 \<and> as_ambient st' = Some c)"
proof (cases "as_ambient st")
  case (Some c)
  then show ?thesis using assms by (auto simp: resolve_ambient_def ambient_ok_def)
next
  case None
  then have "as_sources st = []" using assms by (simp add: ambient_ok_def)
  then show ?thesis using None assms
    by (auto simp: resolve_ambient_def ambient_ok_def install_def Let_def split: sum.splits option.splits)
qed

definition ms_header :: "string \<times> string \<Rightarrow> (string \<times> string) option" where
  "ms_header = (\<lambda>(k, v). let n = to_lowercase k in
     if starts_with n ''x-ms-'' then Some (n, if visible_ascii v then v else []) else None)"

lemma map_filter_perm: "mset xs = mset ys \<Longrightarrow> mset (List.map_filter f xs) = mset (List.map_filter f ys)"
  by (simp add: List.map_filter_def)

lemma ms_header_key: "ms_header kv = Some nv \<Longrightarrow> fst nv = to_lowercase (fst kv)"
  by (auto simp: ms_header_def Let_def split: if_splits prod.splits)

lemma ms_headers_distinct:
  "distinct (map (\<lambda>kv. to_lowercase (fst kv)) h) \<Longrightarrow> distinct (map fst (List.map_filter ms_header h))"
proof (induction h)
  case (Cons kv h)
  show ?case
  proof (cases "ms_header kv")
    case (Some nv)
    have "fst ` set (List.map_filter ms_header h) \<subseteq> (\<lambda>kv. to_lowercase (fst kv)) ` set h"
    proof
      fix n
      assume "n \<in> fst ` set (List.map_filter ms_header h)"
      then obtain x nv where "x \<in> set h" "ms_header x = Some nv" "n = fst nv" by (auto simp: List.map_filter_def)
      then show "n \<in> (\<lambda>kv. to_lowercase (fst kv)) ` set h" using ms_header_key by blast
    qed
    then have "fst nv \<notin> fst ` set (List.map_filter ms_header h)"
      using Cons.prems ms_header_key [OF Some] by auto
    with Some Cons show ?thesis by (simp add: List.map_filter_simps)
  qed (use Cons in \<open>simp add: List.map_filter_simps\<close>)
qed (simp add: List.map_filter_simps)

lemma canonical_perm:
  assumes "mset h = mset h'" and "distinct (map (\<lambda>kv. to_lowercase (fst kv)) h)"
  shows "build_canonicalized_headers h = build_canonicalized_headers h'"
proof -
  have "sort_key fst (List.map_filter ms_header h) = sort_key fst (List.map_filter ms_header h')"
    by (rule sort_key_perm [OF map_filter_perm [OF assms(1)] ms_headers_distinct [OF assms(2)]])
  then show ?thesis by (simp add: build_canonicalized_headers_def ms_header_def Let_def)
qed

lemma map_of_perm:
  assumes "mset h = mset h'" and "distinct (map fst h)"
  shows "map_of h = map_of h'"
proof (rule map_of_inject_set [THEN iffD2])
  show "distinct (map fst h')" using assms by (metis mset_eq_imp_distinct_iff mset_map)
qed (use assms in \<open>auto dest: mset_eq_setD\<close>)

section \<open>Properties\<close>


definition a_source :: bearer_source where
  "a_source = bearer_new Imds (''old'', 9000)"

definition a_wait :: refresh_sys where
  "a_wait = \<lparr>rf_src = invalidate a_source, rf_lock = Some 0, rf_phase = (\<lambda>_. Idle)(0 := Fetching 10, 1 := Queued 20), rf_got = [],
     rf_refreshes = 0, rf_invalidations = 1\<rparr>"

lemma a_wait_reached: "(rf_step 100)\<^sup>*\<^sup>* (rf_init a_source) a_wait"
proof -
  let ?s1 = "(rf_init a_source)\<lparr>rf_src := invalidate a_source, rf_invalidations := 1\<rparr>"
  let ?s2 = "?s1\<lparr>rf_phase := (\<lambda>_. Idle)(0 := Queued 10)\<rparr>"
  let ?s3 = "?s2\<lparr>rf_phase := (\<lambda>_. Idle)(0 := Locked 10), rf_lock := Some 0\<rparr>"
  let ?s4 = "?s3\<lparr>rf_phase := (\<lambda>_. Idle)(0 := Fetching 10)\<rparr>"
  have none: "cached_token n (invalidate a_source) = None" for n by (simp add: cached_token_def invalidate_def)
  have "rf_step 100 (rf_init a_source) ?s1"
    using rf_step.invalidated [of 100 "rf_init a_source"] by (simp add: rf_init_def)
  moreover have "rf_step 100 ?s1 ?s2"
    using rf_step.slow [of ?s1 0 10 100] by (simp add: rf_init_def none)
  moreover have "rf_step 100 ?s2 ?s3"
    using rf_step.acquire [of ?s2 0 10 100] by (simp add: rf_init_def)
  moreover have "rf_step 100 ?s3 ?s4"
    using rf_step.recheck_miss [of ?s3 0 10 100] by (simp add: rf_init_def none)
  moreover have "rf_step 100 ?s4 a_wait"
    using rf_step.slow [of ?s4 1 20 100] by (simp add: rf_init_def none a_wait_def)
  ultimately show ?thesis by (meson converse_rtranclp_into_rtranclp rtranclp.rtrancl_refl)
qed


text \<open>Credentials are resolved in the order SAS token of the mount, storage key of the environment, SAS
  token of the environment, then the ambient identity, and the ambient identity is acquired once: mounts
  and workers that fall through to it all share one bearer source, a failure leaves nothing behind, and
  a mount is anonymous only if neither token source applies.\<close>

theorem resolve_order:
  assumes "ambient_ok st"
  shows "ambient_ok (snd (resolve p sas st)) \<and>
    (sas = Some tok \<longrightarrow> resolve p sas st = (Inr (Sas tok), st)) \<and>
    (sas = None \<and> idp_env p ''AZURE_STORAGE_ACCOUNT'' = Some a \<and> idp_env p ''AZURE_STORAGE_KEY'' = Some k \<longrightarrow>
       resolve p sas st = (Inr (SharedKey a k), st)) \<and>
    (\<forall>i. fst (resolve p sas st) = Inr (Bearer i) \<longrightarrow>
       i = 0 \<and> as_ambient (snd (resolve p sas st)) = Some (Bearer 0) \<and> length (as_sources (snd (resolve p sas st))) = 1) \<and>
    (fst (resolve p sas st) = Inr Anonymous \<longrightarrow>
       sas = None \<and> get_storage_token_workload p = Inr None \<and> get_storage_token_imds p = Inr None) \<and>
    (\<not> is_ok (fst (resolve p sas st)) \<longrightarrow> snd (resolve p sas st) = st)"
proof -
  obtain r st' where ra: "resolve_ambient p st = (r, st')" by (cases "resolve_ambient p st")
  note ok = resolve_ambient_ok [OF assms ra]
  have anon: "get_storage_token_workload p = Inr None \<and> get_storage_token_imds p = Inr None" if "r = Inr Anonymous"
    using ra that assms
    by (auto simp: resolve_ambient_def ambient_ok_def install_def Let_def split: option.splits sum.splits)
  have err: "st' = st" if "\<not> is_ok r"
    using ra that by (auto simp: resolve_ambient_def install_def Let_def split: option.splits sum.splits)
  have envcase: "from_env (idp_env p) = Inr None \<or>
      (\<exists>c. from_env (idp_env p) = Inr (Some c) \<and> (\<forall>i. c \<noteq> Bearer i) \<and> c \<noteq> Anonymous)"
    by (auto simp: from_env_def split: option.splits)
  show ?thesis
  proof (cases sas)
    case (Some s)
    then show ?thesis using assms by (simp add: resolve_def)
  next
    case None
    show ?thesis
    proof (cases "from_env (idp_env p) = Inr None")
      case True
      then have "resolve p sas st = (r, st')" using None ra by (simp add: resolve_def)
      moreover have "idp_env p ''AZURE_STORAGE_ACCOUNT'' = None \<or> idp_env p ''AZURE_STORAGE_KEY'' = None"
        using True by (auto simp: from_env_def split: option.splits)
      moreover have "length (as_sources st') = 1" if "as_ambient st' = Some (Bearer 0)"
        using ok that by (simp add: ambient_ok_def)
      ultimately show ?thesis using ok anon err None by auto
    next
      case False
      with envcase obtain c where c: "from_env (idp_env p) = Inr (Some c)" "\<forall>i. c \<noteq> Bearer i" "c \<noteq> Anonymous" by blast
      then have "resolve p sas st = (Inr c, st)" using None by (simp add: resolve_def)
      moreover have "c = SharedKey a k" if "idp_env p ''AZURE_STORAGE_ACCOUNT'' = Some a" "idp_env p ''AZURE_STORAGE_KEY'' = Some k"
        using c(1) that by (simp add: from_env_def)
      ultimately show ?thesis using c assms None by auto
    qed
  qed
qed

definition no_idp :: idp where
  "no_idp = \<lparr>idp_env = (\<lambda>_. None), idp_read = (\<lambda>_. Inl []), idp_client = None, idp_post = (\<lambda>_ _. Inl []),
     idp_get = (\<lambda>_. Inr (200, Inr ''{}'')), idp_json_workload = (\<lambda>_. Inl []),
     idp_json_imds = (\<lambda>_. Inr (''tok'', Some ''5000'', None)), idp_status = (\<lambda>_. []), idp_now = 0\<rparr>"

theorem resolve_order_witness:
  "resolve no_idp None \<lparr>as_ambient = None, as_sources = []\<rparr> =
     (Inr (Bearer 0), \<lparr>as_ambient = Some (Bearer 0), as_sources = [bearer_new Imds (''tok'', 5000)]\<rparr>) \<and>
   ambient_ok (snd (resolve no_idp None \<lparr>as_ambient = None, as_sources = []\<rparr>))"
proof -
  have "ambient_ok \<lparr>as_ambient = None, as_sources = []\<rparr>" by (simp add: ambient_ok_def)
  note w = resolve_order [OF this, of no_idp None]
  have "parse_u64 ''5000'' = Some 5000"
    by (simp add: parse_u64_def digit_def decimal_def in_range_def U64_MAX_def)
  then have "resolve no_idp None \<lparr>as_ambient = None, as_sources = []\<rparr> =
     (Inr (Bearer 0), \<lparr>as_ambient = Some (Bearer 0), as_sources = [bearer_new Imds (''tok'', 5000)]\<rparr>)"
    by (simp add: resolve_def from_env_def resolve_ambient_def get_storage_token_workload_def get_storage_token_imds_def
        no_idp_def imds_parse_def is_success_def in_range_def install_def imds_expiry_def Let_def)
  with w show ?thesis by blast
qed

text \<open>A shared-key signature depends on the set of headers only: the unspecified order in which the
  header map iterates does not reach the string that is signed, and it always signs when the key is
  valid base64.\<close>

theorem signature_order_independent:
  assumes "mset h = mset h'" and "distinct (map (\<lambda>kv. to_lowercase (fst kv)) h)"
  shows "sign_request cr ops account key meth url h len = sign_request cr ops account key meth url h' len \<and>
    (sign_request cr ops account key meth url h len = None \<longleftrightarrow> cr_b64_decode cr key = None)"
proof -
  have "distinct (map fst h)" using assms(2) by (force simp: distinct_map inj_on_def)
  then have "get_header h = get_header h'"
    using map_of_perm [OF assms(1)] by (auto simp: get_header_def header_str_def fun_eq_iff)
  then have "string_to_sign ops account meth url h len = string_to_sign ops account meth url h' len"
    using canonical_perm [OF assms] by (simp only: string_to_sign_def)
  then show ?thesis by (simp add: sign_request_def)
qed

definition plain_url :: "string url_ops" where
  "plain_url = \<lparr>u_parse = Inr, u_path = (\<lambda>u. u), u_query = (\<lambda>_. None), u_set_query = (\<lambda>q u. u @ ''?'' @ q), u_query_pairs = (\<lambda>_. [])\<rparr>"

definition plain_crypto :: crypto where
  "plain_crypto = \<lparr>cr_hmac = (\<lambda>k m. k @ m), cr_b64_encode = str_of_bytes, cr_b64_decode = (\<lambda>s. Some (as_bytes s))\<rparr>"

theorem signature_order_independent_witness:
  "sign_request plain_crypto plain_url ''a'' ''k'' ''GET'' ''/c/b'' [(''x-ms-version'', ''1''), (''x-ms-date'', ''d'')] None =
   sign_request plain_crypto plain_url ''a'' ''k'' ''GET'' ''/c/b'' [(''x-ms-date'', ''d''), (''x-ms-version'', ''1'')] None"
  by (rule conjunct1 [OF signature_order_independent]) (simp_all add: to_lowercase_def in_range_def)

end
