(* ===== verification/Azure.thy ===== *)
theory Azure
  imports Credentials
begin

text \<open>
  The blob client (\<open>src/azure.rs\<close>): authenticated requests with bounded retries, ranged reads and
  paginated listings.

  The storage service is a parameter: a state \<open>'w\<close> and what it answers, which the model passes along, so
  that answers may depend on everything sent before. Clocks, URL parsing, XML and the identity provider
  are parameters as well. \<open>az_others\<close> is what the other users of the shared bearer sources do at an
  await. The trace of a call records its requests, its sleeps and the counters it increments. A panic is
  \<open>None\<close>.
\<close>

section \<open>Data\<close>

record blob_info =
  bi_name :: string
  bi_content_length :: nat
  bi_content_type :: string
  bi_last_modified :: "string option"
  bi_etag :: "string option"

record listed_blob =
  lb_name :: string
  lb_content_length :: nat
  lb_etag :: "string option"
  lb_last_modified :: "string option"

record blob_properties =
  bp_content_length :: "nat option"
  bp_etag :: "string option"
  bp_last_modified :: "string option"

datatype blob_or_prefix =
    BlobItem string blob_properties
  | BlobPrefix string

record blob_list_response =
  bl_blobs :: "blob_or_prefix list option"
  bl_next_marker :: "string option"

record 'u request =
  rq_method :: string
  rq_url :: 'u
  rq_headers :: header_map
  rq_body :: "bytes option"

text \<open>\<open>rs_stream\<close> identifies the connection the body of the response is read from.\<close>

record response =
  rs_status :: nat
  rs_headers :: header_map
  rs_stream :: nat

record net_error =
  ne_timeout :: bool
  ne_connect :: bool
  ne_request :: bool
  ne_body :: bool
  ne_decode :: bool
  ne_text :: string

datatype 'u az_event =
    Sent "'u request"
  | Slept nat
  | Count string string

record ('u, 'w) azure_env =
  az_url :: "'u url_ops"
  az_crypto :: crypto
  az_http :: "'u request \<Rightarrow> 'w \<Rightarrow> (net_error + response) \<times> 'w"
  az_bytes :: "response \<Rightarrow> 'w \<Rightarrow> (net_error + bytes) \<times> 'w"
  az_text :: "response \<Rightarrow> 'w \<Rightarrow> (net_error + string) \<times> 'w"
  az_sleep :: "nat \<Rightarrow> 'w \<Rightarrow> 'w"
  az_others :: "'w \<Rightarrow> bearer_source list \<Rightarrow> bearer_source list"
  az_idp :: "'w \<Rightarrow> idp"
  az_join :: "'w \<Rightarrow> string option"
  az_now :: "'w \<Rightarrow> nat"
  az_nanos :: "'w \<Rightarrow> nat"
  az_date :: "'w \<Rightarrow> string"
  az_xml :: "string \<Rightarrow> string + blob_list_response"
  az_encode :: "string \<Rightarrow> string"

record ('u, 'w) az_state =
  as_world :: 'w
  as_bearers :: "bearer_source list"
  as_trace :: "'u az_event list"

definition API_VERSION :: string where
  "API_VERSION = ''2024-11-04''"

record blob_client =
  bc_credential :: credential
  bc_max_retries :: nat

definition blob_client_new :: "string option \<Rightarrow> credential \<Rightarrow> blob_client result" where
  "blob_client_new http_build credential =
     (case http_build of
        Some e \<Rightarrow> Inl (Http e)
      | None \<Rightarrow> Inr \<lparr>bc_credential = credential, bc_max_retries = 10\<rparr>)"

definition emit :: "'u az_event list \<Rightarrow> ('u, 'w) az_state \<Rightarrow> ('u, 'w) az_state" where
  "emit es st = st\<lparr>as_trace := as_trace st @ es\<rparr>"

section \<open>Retries\<close>

definition is_retryable_status :: "nat \<Rightarrow> bool" where
  "is_retryable_status s \<longleftrightarrow> s \<in> {429, 500, 502, 503, 504}"

definition backoff_ms :: "nat \<Rightarrow> nat \<Rightarrow> nat" where
  "backoff_ms nanos attempt =
     (let base = 500;
          cap = 30000;
          e = sat_mul base (2 ^ min (attempt - 1) 10);
          capped = min e cap;
          jitter_range = capped div 4;
          jitter = nanos mod (jitter_range * 2 + 1) in
      sat_add (capped - jitter_range) jitter)"

definition retry_delay_ms :: "nat \<Rightarrow> response \<Rightarrow> nat \<Rightarrow> nat" where
  "retry_delay_ms nanos resp attempt =
     (case Option.bind (header_str ''retry-after'' (rs_headers resp)) parse_u64 of
        Some secs \<Rightarrow> min (sat_mul secs 1000) 60000
      | None \<Rightarrow> backoff_ms nanos attempt)"

definition max_attempts :: "blob_client \<Rightarrow> nat" where
  "max_attempts cl = max (sat_add32 (bc_max_retries cl) 1) 1"

section \<open>Requests\<close>

text \<open>\<open>HeaderValue::from_str(v).unwrap()\<close>.\<close>

definition put_header :: "string \<Rightarrow> string \<Rightarrow> header_map \<Rightarrow> header_map option" where
  "put_header name v h = (if visible_ascii v then Some (AList.update name v h) else None)"

definition authorize ::
  "('u, 'w) azure_env \<Rightarrow> blob_client \<Rightarrow> string \<Rightarrow> 'u \<Rightarrow> nat option \<Rightarrow> string option \<Rightarrow> header_map \<Rightarrow> header_map option"
where
  "authorize env cl meth url content_length bearer h =
     (case bc_credential cl of
        SharedKey account key \<Rightarrow>
          Option.bind (sign_request (az_crypto env) (az_url env) account key meth url h content_length)
            (\<lambda>auth. put_header ''authorization'' auth h)
      | Bearer _ \<Rightarrow>
          (case bearer of
             Some t \<Rightarrow> put_header ''authorization'' (''Bearer '' @ t) h
           | None \<Rightarrow> Some h)
      | _ \<Rightarrow> Some h)"

definition build_headers ::
  "('u, 'w) azure_env \<Rightarrow> 'w \<Rightarrow> blob_client \<Rightarrow> 'u \<Rightarrow> string \<Rightarrow> string option \<Rightarrow> nat option \<Rightarrow> header_map \<Rightarrow> string option \<Rightarrow>
   header_map option"
where
  "build_headers env w cl url meth content_type content_length extra bearer =
     Option.bind (put_header ''x-ms-date'' (az_date env w) []) (\<lambda>h.
       let h = AList.update ''x-ms-version'' API_VERSION h;
           h = (case content_type of
                  Some ct \<Rightarrow> if visible_ascii ct then AList.update ''content-type'' ct h else h
                | None \<Rightarrow> h);
           h = (case content_length of Some len \<Rightarrow> AList.update ''content-length'' (show_dec len) h | None \<Rightarrow> h);
           h = fold (\<lambda>(n, v) h. AList.update n v h) extra h in
       authorize env cl meth url content_length bearer h)"

definition bearer_token ::
  "('u, 'w) azure_env \<Rightarrow> blob_client \<Rightarrow> ('u, 'w) az_state \<Rightarrow> string option result \<times> ('u, 'w) az_state"
where
  "bearer_token env cl st =
     (case bc_credential cl of
        Bearer i \<Rightarrow>
          (let w = as_world st;
               wait = (\<lambda>src. az_others env w ((as_bearers st)[i := src]) ! i);
               fetch = (\<lambda>kind. case az_join env w of
                          Some e \<Rightarrow> Inl e
                        | None \<Rightarrow> Inr (storage_token kind (az_idp env w))) in
           (case token (az_now env w) wait wait fetch (as_bearers st ! i) of
              (r, src) \<Rightarrow> (map_sum id Some r, st\<lparr>as_bearers := (as_bearers st)[i := src]\<rparr>)))
      | _ \<Rightarrow> (Inr None, st))"

datatype 'a verdict = Panic | Stop "'a result" | Again bool

text \<open>What an attempt does with the outcome of its request; \<open>once\<close> is \<open>bearer_invalidated_once\<close>.\<close>

definition sleep_for :: "('u, 'w) azure_env \<Rightarrow> string \<Rightarrow> nat \<Rightarrow> ('u, 'w) az_state \<Rightarrow> ('u, 'w) az_state" where
  "sleep_for env label delay st =
     (emit [Count ''blob_request_retries_total'' label, Slept delay] st)
       \<lparr>as_world := az_sleep env delay (as_world st), as_bearers := az_others env (as_world st) (as_bearers st)\<rparr>"

definition on_response ::
  "('u, 'w) azure_env \<Rightarrow> blob_client \<Rightarrow> nat \<Rightarrow> bool \<Rightarrow> response \<Rightarrow> ('u, 'w) az_state \<Rightarrow> response verdict \<times> ('u, 'w) az_state"
where
  "on_response env cl attempt once resp st =
     (let status = rs_status resp;
          finish = (if is_retryable_status status \<and> attempt < max_attempts cl
            then (Again once, sleep_for env (show_dec status) (retry_delay_ms (az_nanos env (as_world st)) resp attempt) st)
            else (Stop (Inr resp),
                  emit (Count ''blob_request_status_total'' (show_dec status) #
                        (if is_retryable_status status then [Count ''blob_request_giveups_total'' []] else [])) st)) in
      if status = 401 \<and> \<not> once then
        (case bc_credential cl of
           Bearer i \<Rightarrow> (Again True, st\<lparr>as_bearers := (as_bearers st)[i := invalidate (as_bearers st ! i)]\<rparr>)
         | _ \<Rightarrow> finish)
      else finish)"

definition on_error ::
  "('u, 'w) azure_env \<Rightarrow> blob_client \<Rightarrow> nat \<Rightarrow> bool \<Rightarrow> net_error \<Rightarrow> ('u, 'w) az_state \<Rightarrow> response verdict \<times> ('u, 'w) az_state"
where
  "on_error env cl attempt once e st =
     (if attempt < max_attempts cl \<and> (ne_timeout e \<or> ne_connect e \<or> ne_request e \<or> ne_body e)
      then (Again once, sleep_for env ''net'' (backoff_ms (az_nanos env (as_world st)) attempt) st)
      else (Stop (Inl (Http (ne_text e))),
            emit [Count ''blob_request_status_total'' ''err'', Count ''blob_request_giveups_total'' []] st))"

definition send_once ::
  "('u, 'w) azure_env \<Rightarrow> blob_client \<Rightarrow> string \<Rightarrow> 'u \<Rightarrow> header_map \<Rightarrow> string option \<Rightarrow> bytes option \<Rightarrow> nat \<Rightarrow> bool \<Rightarrow>
   ('u, 'w) az_state \<Rightarrow> response verdict \<times> ('u, 'w) az_state"
where
  "send_once env cl meth url extra content_type body attempt once st =
     (case bearer_token env cl st of
        (Inl e, st) \<Rightarrow> (Stop (Inl e), st)
      | (Inr bearer, st) \<Rightarrow>
          (case build_headers env (as_world st) cl url meth content_type (map_option length body) extra bearer of
             None \<Rightarrow> (Panic, st)
           | Some headers \<Rightarrow>
               let req_url = (case bc_credential cl of Sas tok \<Rightarrow> append_sas_token (az_url env) tok url | _ \<Rightarrow> url);
                   req = \<lparr>rq_method = meth, rq_url = req_url, rq_headers = headers, rq_body = body\<rparr> in
               (case az_http env req (as_world st) of
                  (r, w) \<Rightarrow>
                    let st = (emit [Sent req] st)\<lparr>as_world := w, as_bearers := az_others env w (as_bearers st)\<rparr> in
                    (case r of
                       Inr resp \<Rightarrow> on_response env cl attempt once resp st
                     | Inl e \<Rightarrow> on_error env cl attempt once e st))))"

lemma on_response_again:
  "on_response env cl attempt once resp st = (Again once', st') \<Longrightarrow>
     attempt < max_attempts cl \<and> once' = once \<or> \<not> once \<and> once'"
  by (auto simp: on_response_def Let_def split: if_splits credential.splits)

lemma on_error_again:
  "on_error env cl attempt once e st = (Again once', st') \<Longrightarrow> attempt < max_attempts cl \<and> once' = once"
  by (auto simp: on_error_def split: if_splits)

lemma send_once_again:
  "send_once env cl meth url extra content_type body attempt once st = (Again once', st') \<Longrightarrow>
     attempt < max_attempts cl \<and> once' = once \<or> \<not> once \<and> once'"
  by (auto simp: send_once_def Let_def split: prod.splits sum.splits option.splits dest: on_response_again on_error_again)

function send_loop ::
  "('u, 'w) azure_env \<Rightarrow> blob_client \<Rightarrow> string \<Rightarrow> 'u \<Rightarrow> header_map \<Rightarrow> string option \<Rightarrow> bytes option \<Rightarrow> nat \<Rightarrow> bool \<Rightarrow>
   ('u, 'w) az_state \<Rightarrow> response result option \<times> ('u, 'w) az_state"
where
  "send_loop env cl meth url extra content_type body attempt once st =
     (case send_once env cl meth url extra content_type body (attempt + 1) once st of
        (Panic, st) \<Rightarrow> (None, st)
      | (Stop r, st) \<Rightarrow> (Some r, st)
      | (Again once, st) \<Rightarrow> send_loop env cl meth url extra content_type body (attempt + 1) once st)"
  by pat_completeness auto

termination send_loop
proof (relation "measure (\<lambda>(env, cl, meth, url, extra, content_type, body, attempt, once, st).
    (max_attempts cl - attempt) + (if once then 0 else 1))")
  fix env :: "('u, 'w) azure_env" and cl meth url extra content_type body attempt once st v st' once'
  assume "(v, st') = send_once env cl meth url extra content_type body (attempt + 1) once st" and "v = Again once'"
  then have "send_once env cl meth url extra content_type body (attempt + 1) once st = (Again once', st')" by simp
  then have "attempt + 1 < max_attempts cl \<and> once' = once \<or> \<not> once \<and> once'" by (rule send_once_again)
  then show "((env, cl, meth, url, extra, content_type, body, attempt + 1, once', st'),
      (env, cl, meth, url, extra, content_type, body, attempt, once, st))
     \<in> measure (\<lambda>(env, cl, meth, url, extra, content_type, body, attempt, once, st).
          (max_attempts cl - attempt) + (if once then 0 else 1))"
    by auto
qed simp

declare send_loop.simps [simp del]

definition send ::
  "('u, 'w) azure_env \<Rightarrow> blob_client \<Rightarrow> string \<Rightarrow> 'u \<Rightarrow> header_map \<Rightarrow> string option \<Rightarrow> bytes option \<Rightarrow>
   ('u, 'w) az_state \<Rightarrow> response result option \<times> ('u, 'w) az_state"
where
  "send env cl meth url extra content_type body st = send_loop env cl meth url extra content_type body 0 False st"

section \<open>Operations\<close>

definition blob_url :: "('u, 'w) azure_env \<Rightarrow> string \<Rightarrow> string \<Rightarrow> string \<Rightarrow> 'u result" where
  "blob_url env account container blob =
     map_sum InvalidUrl id
       (u_parse (az_url env) (''https://'' @ account @ ''.blob.core.windows.net/'' @ container @ ''/'' @ blob))"

definition blob_info_of :: "string \<Rightarrow> header_map \<Rightarrow> blob_info" where
  "blob_info_of blob h =
     \<lparr>bi_name = blob,
      bi_content_length = (case Option.bind (header_str ''content-length'' h) parse_u64 of Some n \<Rightarrow> n | None \<Rightarrow> 0),
      bi_content_type = (case header_str ''content-type'' h of Some t \<Rightarrow> t | None \<Rightarrow> ''application/octet-stream''),
      bi_last_modified = header_str ''last-modified'' h,
      bi_etag = header_str ''etag'' h\<rparr>"

definition get_blob_properties ::
  "('u, 'w) azure_env \<Rightarrow> blob_client \<Rightarrow> string \<Rightarrow> string \<Rightarrow> string \<Rightarrow> ('u, 'w) az_state \<Rightarrow>
   blob_info result option \<times> ('u, 'w) az_state"
where
  "get_blob_properties env cl account container blob st =
     (case blob_url env account container blob of
        Inl e \<Rightarrow> (Some (Inl e), st)
      | Inr url \<Rightarrow>
          (case send env cl ''HEAD'' url [] None None st of
             (None, st) \<Rightarrow> (None, st)
           | (Some (Inl e), st) \<Rightarrow> (Some (Inl e), st)
           | (Some (Inr resp), st) \<Rightarrow>
               (Some (if \<not> is_success (rs_status resp) then
                        (if rs_status resp = 404 then Inl (NotFound blob)
                         else Inl (Storage (rs_status resp) (''HEAD '' @ blob @ '' failed'')))
                      else Inr (blob_info_of blob (rs_headers resp))), st)))"

text \<open>\<open>offset + length - 1\<close> on \<open>u64\<close>, in a release build.\<close>

definition range_end :: "nat \<Rightarrow> nat \<Rightarrow> nat" where
  "range_end offset len = (u64_add offset len + U64_MAX) mod 2 ^ 64"

definition range_val :: "nat \<Rightarrow> nat \<Rightarrow> string" where
  "range_val offset len = ''bytes='' @ show_dec offset @ ''-'' @ show_dec (range_end offset len)"

definition read_text :: "('u, 'w) azure_env \<Rightarrow> response \<Rightarrow> ('u, 'w) az_state \<Rightarrow> (net_error + string) \<times> ('u, 'w) az_state" where
  "read_text env resp st = (case az_text env resp (as_world st) of (r, w) \<Rightarrow> (r, st\<lparr>as_world := w\<rparr>))"

definition range_once ::
  "('u, 'w) azure_env \<Rightarrow> blob_client \<Rightarrow> 'u \<Rightarrow> header_map \<Rightarrow> nat \<Rightarrow> ('u, 'w) az_state \<Rightarrow> bytes verdict \<times> ('u, 'w) az_state"
where
  "range_once env cl url extra attempt st =
     (case send env cl ''GET'' url extra None None st of
        (None, st) \<Rightarrow> (Panic, st)
      | (Some (Inl e), st) \<Rightarrow> (Stop (Inl e), st)
      | (Some (Inr resp), st) \<Rightarrow>
          if \<not> is_success (rs_status resp) then
            (case read_text env resp st of
               (r, st) \<Rightarrow> (Stop (Inl (Storage (rs_status resp) (take_chars 200 (case r of Inr body \<Rightarrow> body | Inl _ \<Rightarrow> [])))), st))
          else
            (case az_bytes env resp (as_world st) of
               (r, w) \<Rightarrow>
                 let st = st\<lparr>as_world := w\<rparr> in
                 (case r of
                    Inr b \<Rightarrow> (Stop (Inr b), st)
                  | Inl e \<Rightarrow>
                      if attempt < max_attempts cl \<and> (ne_body e \<or> ne_timeout e \<or> ne_decode e)
                      then (Again False, sleep_for env ''body'' (backoff_ms (az_nanos env w) attempt) st)
                      else (Stop (Inl (Http (ne_text e))),
                            emit [Count ''blob_request_status_total'' ''body_err'', Count ''blob_request_giveups_total'' []] st))))"

lemma range_once_again: "range_once env cl url extra attempt st = (Again b, st') \<Longrightarrow> attempt < max_attempts cl"
  by (auto simp: range_once_def Let_def split: prod.splits option.splits sum.splits if_splits)

function range_loop ::
  "('u, 'w) azure_env \<Rightarrow> blob_client \<Rightarrow> 'u \<Rightarrow> header_map \<Rightarrow> nat \<Rightarrow> ('u, 'w) az_state \<Rightarrow> bytes result option \<times> ('u, 'w) az_state"
where
  "range_loop env cl url extra attempt st =
     (case range_once env cl url extra (attempt + 1) st of
        (Panic, st) \<Rightarrow> (None, st)
      | (Stop r, st) \<Rightarrow> (Some r, st)
      | (Again _, st) \<Rightarrow> range_loop env cl url extra (attempt + 1) st)"
  by pat_completeness auto

termination range_loop
proof (relation "measure (\<lambda>(env, cl, url, extra, attempt, st). max_attempts cl - attempt)")
  fix env :: "('u, 'w) azure_env" and cl url extra attempt st v st' b
  assume "(v, st') = range_once env cl url extra (attempt + 1) st" and "v = Again b"
  then have "range_once env cl url extra (attempt + 1) st = (Again b, st')" by simp
  then have "attempt + 1 < max_attempts cl" by (rule range_once_again)
  then show "((env, cl, url, extra, attempt + 1, st'), env, cl, url, extra, attempt, st)
     \<in> measure (\<lambda>(env, cl, url, extra, attempt, st). max_attempts cl - attempt)"
    by auto
qed simp

declare range_loop.simps [simp del]

definition get_blob_range ::
  "('u, 'w) azure_env \<Rightarrow> blob_client \<Rightarrow> string \<Rightarrow> string \<Rightarrow> string \<Rightarrow> nat \<Rightarrow> nat \<Rightarrow> ('u, 'w) az_state \<Rightarrow>
   bytes result option \<times> ('u, 'w) az_state"
where
  "get_blob_range env cl account container blob offset len st =
     (case blob_url env account container blob of
        Inl e \<Rightarrow> (Some (Inl e), st)
      | Inr url \<Rightarrow> range_loop env cl url [(''x-ms-range'', range_val offset len)] 0 st)"

definition list_url :: "('u, 'w) azure_env \<Rightarrow> string \<Rightarrow> string \<Rightarrow> string option \<Rightarrow> bool \<Rightarrow> string option \<Rightarrow> string" where
  "list_url env account container pre recursive marker =
     ''https://'' @ account @ ''.blob.core.windows.net/'' @ container @ ''?restype=container&comp=list'' @
     (case pre of Some p \<Rightarrow> ''&prefix='' @ az_encode env p | None \<Rightarrow> []) @
     (if recursive then [] else ''&delimiter=/'') @
     (case marker of Some m \<Rightarrow> ''&marker='' @ m | None \<Rightarrow> [])"

text \<open>One page of a listing.\<close>

definition list_page ::
  "('u, 'w) azure_env \<Rightarrow> blob_client \<Rightarrow> string \<Rightarrow> string \<Rightarrow> string option \<Rightarrow> bool \<Rightarrow> string option \<Rightarrow> ('u, 'w) az_state \<Rightarrow>
   blob_list_response result option \<times> ('u, 'w) az_state"
where
  "list_page env cl account container pre recursive marker st =
     (case u_parse (az_url env) (list_url env account container pre recursive marker) of
        Inl e \<Rightarrow> (Some (Inl (InvalidUrl e)), st)
      | Inr url \<Rightarrow>
          (case send env cl ''GET'' url [] None None st of
             (None, st) \<Rightarrow> (None, st)
           | (Some (Inl e), st) \<Rightarrow> (Some (Inl e), st)
           | (Some (Inr resp), st) \<Rightarrow>
               (case read_text env resp st of
                  (Inl e, st) \<Rightarrow> (Some (Inl (Http (ne_text e))), st)
                | (Inr body, st) \<Rightarrow>
                    (Some (if \<not> is_success (rs_status resp) then Inl (Storage (rs_status resp) (take_chars 200 body))
                           else map_sum Xml id (az_xml env body)), st))))"

fun listed :: "blob_or_prefix list \<Rightarrow> listed_blob list" where
  "listed [] = []"
| "listed (BlobItem n p # es) =
     \<lparr>lb_name = n, lb_content_length = (case bp_content_length p of Some l \<Rightarrow> l | None \<Rightarrow> 0), lb_etag = bp_etag p,
      lb_last_modified = bp_last_modified p\<rparr> # listed es"
| "listed (BlobPrefix _ # es) = listed es"

fun listed_prefixes :: "blob_or_prefix list \<Rightarrow> string list" where
  "listed_prefixes [] = []"
| "listed_prefixes (BlobPrefix n # es) = n # listed_prefixes es"
| "listed_prefixes (BlobItem _ _ # es) = listed_prefixes es"

definition entries_of :: "blob_list_response \<Rightarrow> blob_or_prefix list" where
  "entries_of page = (case bl_blobs page of Some es \<Rightarrow> es | None \<Rightarrow> [])"

text \<open>The pagination loop goes on for as long as the service returns a marker, so it may not return.\<close>

partial_function (option) list_loop ::
  "('u, 'w) azure_env \<Rightarrow> blob_client \<Rightarrow> string \<Rightarrow> string \<Rightarrow> string option \<Rightarrow> bool \<Rightarrow> string option \<Rightarrow>
   listed_blob list \<Rightarrow> string list \<Rightarrow> ('u, 'w) az_state \<Rightarrow>
   ((listed_blob list \<times> string list) result option \<times> ('u, 'w) az_state) option"
where
  "list_loop env cl account container pre recursive marker blobs pfxs st =
     (case list_page env cl account container pre recursive marker st of
        (None, st) \<Rightarrow> Some (None, st)
      | (Some (Inl e), st) \<Rightarrow> Some (Some (Inl e), st)
      | (Some (Inr page), st) \<Rightarrow>
          let blobs = blobs @ listed (entries_of page);
              pfxs = pfxs @ listed_prefixes (entries_of page) in
          (case bl_next_marker page of
             Some m \<Rightarrow>
               if m \<noteq> [] then list_loop env cl account container pre recursive (Some m) blobs pfxs st
               else Some (Some (Inr (blobs, pfxs)), st)
           | None \<Rightarrow> Some (Some (Inr (blobs, pfxs)), st)))"

definition list_blobs ::
  "('u, 'w) azure_env \<Rightarrow> blob_client \<Rightarrow> string \<Rightarrow> string \<Rightarrow> string option \<Rightarrow> bool \<Rightarrow> ('u, 'w) az_state \<Rightarrow>
   ((listed_blob list \<times> string list) result option \<times> ('u, 'w) az_state) option"
where
  "list_blobs env cl account container pre recursive st =
     list_loop env cl account container pre recursive None [] [] st"

end
