(* ===== verification/AzureProps.thy ===== *)
theory AzureProps
  imports Azure
begin

text \<open>
  Properties of the blob client: delays, the number of requests, what a ranged read returns when the
  service is honest, and what a listing returns.
\<close>

section \<open>Delays\<close>

lemma backoff_eq:
  fixes nanos attempt :: nat
  defines "capped \<equiv> min (500 * 2 ^ min (attempt - 1) 10) 30000"
  shows "backoff_ms nanos attempt = capped - capped div 4 + nanos mod (capped div 4 * 2 + 1)"
proof -
  have "(2 :: nat) ^ min (attempt - 1) 10 \<le> 2 ^ 10" by (rule power_increasing) auto
  then have e: "sat_mul 500 (2 ^ min (attempt - 1) 10) = 500 * 2 ^ min (attempt - 1) 10"
    by (simp add: sat_mul_def U64_MAX_def)
  have "capped \<le> 30000" by (simp add: capped_def)
  moreover have "nanos mod (capped div 4 * 2 + 1) < capped div 4 * 2 + 1" by simp
  ultimately have "capped - capped div 4 + nanos mod (capped div 4 * 2 + 1) \<le> 50000" by linarith
  then show ?thesis
    unfolding backoff_ms_def Let_def e capped_def [symmetric] sat_add_def U64_MAX_def by simp
qed

lemma backoff_range:
  fixes nanos attempt :: nat
  defines "capped \<equiv> min (500 * 2 ^ min (attempt - 1) 10) 30000"
  shows "capped - capped div 4 \<le> backoff_ms nanos attempt \<and> backoff_ms nanos attempt \<le> capped + capped div 4"
proof -
  have "nanos mod (capped div 4 * 2 + 1) < capped div 4 * 2 + 1" by simp
  then show ?thesis using backoff_eq [of nanos attempt] unfolding capped_def [symmetric] by linarith
qed

lemma retry_delay_le: "retry_delay_ms nanos resp attempt \<le> 60000"
proof -
  have "backoff_ms nanos attempt \<le> 60000" using backoff_range [of attempt nanos] by linarith
  then show ?thesis by (auto simp: retry_delay_ms_def split: option.splits)
qed

section \<open>Traces\<close>

fun is_sent :: "'u az_event \<Rightarrow> bool" where
  "is_sent (Sent _) = True"
| "is_sent _ = False"

fun is_slept :: "'u az_event \<Rightarrow> bool" where
  "is_slept (Slept _) = True"
| "is_slept _ = False"

definition sents :: "'u az_event list \<Rightarrow> nat" where
  "sents es = length (filter is_sent es)"

definition sleeps :: "'u az_event list \<Rightarrow> nat" where
  "sleeps es = length (filter is_slept es)"

definition short_sleeps :: "'u az_event list \<Rightarrow> bool" where
  "short_sleeps es \<longleftrightarrow> (\<forall>d. Slept d \<in> set es \<longrightarrow> d \<le> 60000)"

definition is_bearer :: "credential \<Rightarrow> bool" where
  "is_bearer c \<longleftrightarrow> (\<exists>i. c = Bearer i)"

lemma trace_simps [simp]:
  "sents [] = 0" "sents (es @ fs) = sents es + sents fs" "sents (Sent r # es) = Suc (sents es)"
  "sents (Slept d # es) = sents es" "sents (Count a b # es) = sents es"
  "sleeps [] = 0" "sleeps (es @ fs) = sleeps es + sleeps fs" "sleeps (Sent r # es) = sleeps es"
  "sleeps (Slept d # es) = Suc (sleeps es)" "sleeps (Count a b # es) = sleeps es"
  "short_sleeps []" "short_sleeps (es @ fs) \<longleftrightarrow> short_sleeps es \<and> short_sleeps fs"
  "short_sleeps (Sent r # es) = short_sleeps es" "short_sleeps (Count a b # es) = short_sleeps es"
  "short_sleeps (Slept d # es) \<longleftrightarrow> d \<le> 60000 \<and> short_sleeps es"
  by (auto simp: sents_def sleeps_def short_sleeps_def)

text \<open>The events a step adds, with the number of requests and sleeps among them.\<close>

definition adds :: "('u, 'w) az_state \<Rightarrow> ('u, 'w) az_state \<Rightarrow> nat \<Rightarrow> nat \<Rightarrow> bool" where
  "adds st st' n k \<longleftrightarrow> (\<exists>es. as_trace st' = as_trace st @ es \<and> sents es = n \<and> sleeps es = k \<and> short_sleeps es)"

lemma adds_refl: "as_trace st' = as_trace st \<Longrightarrow> adds st st' 0 0"
  by (auto simp: adds_def)

lemma adds_self [simp]: "adds st st 0 0"
  by (simp add: adds_refl)

lemma adds_trans: "adds a b n k \<Longrightarrow> adds b c m l \<Longrightarrow> adds a c (n + m) (k + l)"
  by (force simp: adds_def)

lemma adds_emit: "sents es = n \<Longrightarrow> sleeps es = k \<Longrightarrow> short_sleeps es \<Longrightarrow> adds st (emit es st) n k"
  by (auto simp: adds_def emit_def)

lemma adds_update [simp]:
  "adds st (st'\<lparr>as_world := w\<rparr>) n k = adds st st' n k" "adds st (st'\<lparr>as_bearers := b\<rparr>) n k = adds st st' n k"
  by (simp_all add: adds_def)

lemma sleep_for_adds: "d \<le> 60000 \<Longrightarrow> adds st (sleep_for env label d st) 0 1"
  by (simp add: sleep_for_def adds_emit)

lemma bearer_token_trace: "bearer_token env cl st = (r, st') \<Longrightarrow> as_trace st' = as_trace st"
  by (auto simp: bearer_token_def Let_def split: credential.splits prod.splits)

lemma backoff_le: "backoff_ms nanos attempt \<le> 60000"
  using backoff_range [of attempt nanos] by linarith

text \<open>One attempt: at most one request; it sleeps exactly if it is retried by the retry policy.\<close>

lemma on_response_adds:
  assumes "on_response env cl attempt once resp st = (v, st')"
  shows "\<exists>k. adds st st' 0 k \<and>
    (\<forall>b. v = Again b \<longrightarrow> (k = 1 \<and> attempt < max_attempts cl \<and> b = once) \<or> (k = 0 \<and> \<not> once \<and> b \<and> is_bearer (bc_credential cl))) \<and>
    (\<forall>r. v = Stop r \<longrightarrow> k = 0) \<and> v \<noteq> Panic \<and>
    (\<forall>rs. v = Stop (Inr rs) \<longrightarrow> rs = resp \<and> (is_retryable_status (rs_status rs) \<longrightarrow> max_attempts cl \<le> attempt))"
proof -
  let ?slept = "sleep_for env (show_dec (rs_status resp)) (retry_delay_ms (az_nanos env (as_world st)) resp attempt) st"
  have s: "adds st ?slept 0 1" by (rule sleep_for_adds [OF retry_delay_le])
  have e: "adds st (emit (Count a b # (if c then [Count x y] else [])) st) 0 0" for a b c x y
    by (rule adds_emit) auto
  show ?thesis
  proof (cases "rs_status resp = 401 \<and> \<not> once \<and> is_bearer (bc_credential cl)")
    case True
    then show ?thesis using assms by (intro exI [of _ 0]) (auto simp: on_response_def is_bearer_def intro: adds_refl)
  next
    case False
    then have "(v, st') = (if is_retryable_status (rs_status resp) \<and> attempt < max_attempts cl then (Again once, ?slept)
        else (Stop (Inr resp), emit (Count ''blob_request_status_total'' (show_dec (rs_status resp)) #
                        (if is_retryable_status (rs_status resp) then [Count ''blob_request_giveups_total'' []] else [])) st))"
      using assms by (auto simp: on_response_def is_bearer_def Let_def split: credential.splits if_splits)
    then show ?thesis
      using s e by (cases "is_retryable_status (rs_status resp) \<and> attempt < max_attempts cl") auto
  qed
qed

lemma on_error_adds:
  assumes "on_error env cl attempt once e st = (v, st')"
  shows "\<exists>k. adds st st' 0 k \<and> (\<forall>b. v = Again b \<longrightarrow> k = 1 \<and> attempt < max_attempts cl \<and> b = once) \<and>
    (\<forall>r. v = Stop r \<longrightarrow> k = 0 \<and> \<not> is_ok r) \<and> v \<noteq> Panic"
  using assms sleep_for_adds [OF backoff_le, of st env "''net''" "az_nanos env (as_world st)" attempt]
    adds_emit [of "[Count ''blob_request_status_total'' ''err'', Count ''blob_request_giveups_total'' []]" 0 0 st]
  by (auto simp: on_error_def split: if_splits)

lemma send_once_adds:
  assumes "send_once env cl meth url extra ct body attempt once st = (v, st')"
  shows "\<exists>n k. adds st st' n k \<and> n \<le> 1 \<and>
    (\<forall>b. v = Again b \<longrightarrow> n = 1 \<and>
       ((k = 1 \<and> attempt < max_attempts cl \<and> b = once) \<or> (k = 0 \<and> \<not> once \<and> b \<and> is_bearer (bc_credential cl)))) \<and>
    (\<forall>r. v = Stop r \<longrightarrow> k = 0) \<and> (v = Panic \<longrightarrow> k = 0) \<and>
    (\<forall>rs. v = Stop (Inr rs) \<longrightarrow> n = 1 \<and> (is_retryable_status (rs_status rs) \<longrightarrow> max_attempts cl \<le> attempt))"
proof -
  obtain tr st1 where t: "bearer_token env cl st = (tr, st1)" by (cases "bearer_token env cl st")
  have a1: "adds st st1 0 0" by (rule adds_refl [OF bearer_token_trace [OF t]])
  show ?thesis
  proof (cases tr)
    case (Inl e)
    then show ?thesis using assms t a1 by (auto simp: send_once_def)
  next
    case (Inr bearer)
    let ?h = "build_headers env (as_world st1) cl url meth ct (map_option length body) extra bearer"
    show ?thesis
    proof (cases ?h)
      case None
      then show ?thesis using assms t Inr a1 by (auto simp: send_once_def)
    next
      case (Some headers)
      define req where "req = \<lparr>rq_method = meth, rq_url = (case bc_credential cl of Sas tok \<Rightarrow> append_sas_token (az_url env) tok url | _ \<Rightarrow> url),
        rq_headers = headers, rq_body = body\<rparr>"
      obtain r w where h: "az_http env req (as_world st1) = (r, w)" by (cases "az_http env req (as_world st1)")
      define st2 where "st2 = (emit [Sent req] st1)\<lparr>as_world := w, as_bearers := az_others env w (as_bearers st1)\<rparr>"
      have "adds st1 st2 1 0" unfolding st2_def by (simp add: adds_emit)
      from adds_trans [OF a1 this] have a2: "adds st st2 1 0" by simp
      have v: "(case r of Inr resp \<Rightarrow> on_response env cl attempt once resp st2 | Inl e \<Rightarrow> on_error env cl attempt once e st2) = (v, st')"
        using assms t Inr Some h unfolding st2_def req_def by (simp add: send_once_def Let_def)
      show ?thesis
      proof (cases r)
        case (Inl e)
        then have "on_error env cl attempt once e st2 = (v, st')" using v by simp
        from on_error_adds [OF this] obtain k where k: "adds st2 st' 0 k"
          "\<forall>b. v = Again b \<longrightarrow> k = 1 \<and> attempt < max_attempts cl \<and> b = once" "\<forall>r. v = Stop r \<longrightarrow> k = 0 \<and> \<not> is_ok r" "v \<noteq> Panic"
          by blast
        have a: "adds st st' 1 k" using adds_trans [OF a2 k(1)] by simp
        show ?thesis
        proof (cases v)
          case (Stop q)
          then have "k = 0" "\<And>rs. q \<noteq> Inr rs" using k(3) by force+
          then show ?thesis using a Stop by (intro exI [of _ 1] exI [of _ 0]) simp
        next
          case (Again b)
          then have "k = 1" "attempt < max_attempts cl" "b = once" using k(2) by blast+
          then show ?thesis using a Again by (intro exI [of _ 1] exI [of _ 1]) simp
        qed (use k(4) in simp)
      next
        case (Inr resp)
        then have "on_response env cl attempt once resp st2 = (v, st')" using v by simp
        from on_response_adds [OF this] obtain k where k: "adds st2 st' 0 k"
          "\<forall>b. v = Again b \<longrightarrow> (k = 1 \<and> attempt < max_attempts cl \<and> b = once) \<or> (k = 0 \<and> \<not> once \<and> b \<and> is_bearer (bc_credential cl))"
          "\<forall>r. v = Stop r \<longrightarrow> k = 0" "v \<noteq> Panic"
          "\<forall>rs. v = Stop (Inr rs) \<longrightarrow> rs = resp \<and> (is_retryable_status (rs_status rs) \<longrightarrow> max_attempts cl \<le> attempt)"
          by blast
        have a: "adds st st' 1 k" using adds_trans [OF a2 k(1)] by simp
        show ?thesis
        proof (cases v)
          case (Stop q)
          then have "k = 0" "\<And>rs. q = Inr rs \<Longrightarrow> is_retryable_status (rs_status rs) \<longrightarrow> max_attempts cl \<le> attempt"
            using k(3,5) by blast+
          then show ?thesis using a Stop by (intro exI [of _ 1] exI [of _ 0]) simp
        next
          case (Again b)
          then have "(k = 1 \<and> attempt < max_attempts cl \<and> b = once) \<or> (k = 0 \<and> \<not> once \<and> b \<and> is_bearer (bc_credential cl))"
            using k(2) by blast
          then show ?thesis using a Again by (intro exI [of _ 1] exI [of _ k]) simp
        qed (use k(4) in simp)
      qed
    qed
  qed
qed

lemma send_loop_adds:
  assumes "send_loop env cl meth url extra ct body attempt once st = (r, st')"
  shows "\<exists>n k. adds st st' n k \<and>
    n \<le> max 1 (max_attempts cl - attempt) + (if once \<or> \<not> is_bearer (bc_credential cl) then 0 else 1) \<and>
    k \<le> max_attempts cl - 1 - attempt \<and>
    (\<forall>rs. r = Some (Inr rs) \<and> is_retryable_status (rs_status rs) \<longrightarrow> max_attempts cl - attempt \<le> n)"
  using assms
proof (induction env cl meth url extra ct body attempt once st arbitrary: r st' rule: send_loop.induct)
  case (1 env cl meth url extra ct body attempt once st)
  obtain v st1 where o: "send_once env cl meth url extra ct body (attempt + 1) once st = (v, st1)"
    by (cases "send_once env cl meth url extra ct body (attempt + 1) once st")
  from send_once_adds [OF o] obtain n k where nk: "adds st st1 n k" "n \<le> 1"
    "\<forall>b. v = Again b \<longrightarrow> n = 1 \<and>
       ((k = 1 \<and> attempt + 1 < max_attempts cl \<and> b = once) \<or> (k = 0 \<and> \<not> once \<and> b \<and> is_bearer (bc_credential cl)))"
    "\<forall>r. v = Stop r \<longrightarrow> k = 0" "v = Panic \<longrightarrow> k = 0"
    "\<forall>rs. v = Stop (Inr rs) \<longrightarrow> n = 1 \<and> (is_retryable_status (rs_status rs) \<longrightarrow> max_attempts cl \<le> attempt + 1)"
    by blast
  show ?case
  proof (cases v)
    case Panic
    then have "r = None" "st' = st1" using "1.prems" o by (auto simp: send_loop.simps [of env cl meth])
    then show ?thesis using nk Panic by (intro exI [of _ n] exI [of _ k]) auto
  next
    case (Stop q)
    then have q: "r = Some q" "st' = st1" using "1.prems" o by (auto simp: send_loop.simps [of env cl meth])
    then show ?thesis using nk Stop by (intro exI [of _ n] exI [of _ k]) auto
  next
    case (Again b)
    then have "send_loop env cl meth url extra ct body (attempt + 1) b st1 = (r, st')"
      using "1.prems" o by (simp add: send_loop.simps [of env cl meth url extra ct body attempt])
    from "1.IH" [OF o [symmetric] Again this] obtain m l where ml: "adds st1 st' m l"
      "m \<le> max 1 (max_attempts cl - (attempt + 1)) + (if b \<or> \<not> is_bearer (bc_credential cl) then 0 else 1)"
      "l \<le> max_attempts cl - 1 - (attempt + 1)"
      "\<forall>rs. r = Some (Inr rs) \<and> is_retryable_status (rs_status rs) \<longrightarrow> max_attempts cl - (attempt + 1) \<le> m"
      by blast
    have n: "n = 1" and c: "(k = 1 \<and> attempt + 1 < max_attempts cl \<and> b = once) \<or> (k = 0 \<and> \<not> once \<and> b \<and> is_bearer (bc_credential cl))"
      using nk(3) Again by blast+
    have "adds st st' (n + m) (k + l)" by (rule adds_trans [OF nk(1) ml(1)])
    moreover have "n + m \<le> max 1 (max_attempts cl - attempt) + (if once \<or> \<not> is_bearer (bc_credential cl) then 0 else 1)"
      using n c ml(2) by (auto split: if_splits)
    moreover have "k + l \<le> max_attempts cl - 1 - attempt" using c ml(3) by auto
    moreover have "\<forall>rs. r = Some (Inr rs) \<and> is_retryable_status (rs_status rs) \<longrightarrow> max_attempts cl - attempt \<le> n + m"
      using n ml(4) by force
    ultimately show ?thesis by blast
  qed
qed

lemma read_text_trace: "read_text env resp st = (r, st') \<Longrightarrow> as_trace st' = as_trace st"
  by (auto simp: read_text_def split: prod.splits)

lemma send_adds:
  assumes "send env cl meth url extra ct body st = (r, st')"
  shows "\<exists>n k. adds st st' n k \<and> n \<le> max_attempts cl + (if is_bearer (bc_credential cl) then 1 else 0) \<and> k \<le> max_attempts cl - 1 \<and>
    (\<forall>rs. r = Some (Inr rs) \<and> is_retryable_status (rs_status rs) \<longrightarrow> max_attempts cl \<le> n)"
proof -
  have "max 1 (max_attempts cl) = max_attempts cl" by (simp add: max_attempts_def)
  then show ?thesis using send_loop_adds [OF assms [unfolded send_def]] unfolding diff_zero
    by (cases "is_bearer (bc_credential cl)") simp_all
qed

lemma range_once_adds:
  assumes "range_once env cl url extra attempt st = (v, st')"
  shows "\<exists>n k. adds st st' n k \<and> n \<le> max_attempts cl + 1"
proof -
  obtain r st1 where s: "send env cl ''GET'' url extra None None st = (r, st1)" by (cases "send env cl ''GET'' url extra None None st")
  from send_adds [OF s] obtain n k where nk: "adds st st1 n k" "n \<le> max_attempts cl + 1" by (auto split: if_splits)
  have "\<exists>k'. adds st1 st' 0 k'"
  proof (cases "\<exists>resp. r = Some (Inr resp)")
    case False
    then have "st' = st1" using assms s by (auto simp: range_once_def split: option.splits sum.splits)
    then show ?thesis using adds_self by blast
  next
    case True
    then obtain resp where resp: "r = Some (Inr resp)" ..
    show ?thesis
    proof (cases "is_success (rs_status resp)")
      case False
      then show ?thesis using assms s resp
        by (auto simp: range_once_def split: prod.splits dest!: read_text_trace intro!: exI [of _ 0] adds_refl)
    next
      case True
      obtain q w where q: "az_bytes env resp (as_world st1) = (q, w)" by (cases "az_bytes env resp (as_world st1)")
      let ?slept = "sleep_for env ''body'' (backoff_ms (az_nanos env w) attempt) (st1\<lparr>as_world := w\<rparr>)"
      have "adds (st1\<lparr>as_world := w\<rparr>) ?slept 0 1" by (rule sleep_for_adds [OF backoff_le])
      then have "adds st1 ?slept 0 1" by (simp add: adds_def)
      moreover have "adds st1 (emit [Count a b, Count c d] (st1\<lparr>as_world := w\<rparr>)) 0 0" for a b c d
        by (simp add: adds_def emit_def)
      moreover have "adds st1 (st1\<lparr>as_world := w\<rparr>) 0 0" by simp
      moreover have "st' = st1\<lparr>as_world := w\<rparr> \<or> st' = ?slept \<or>
          st' = emit [Count ''blob_request_status_total'' ''body_err'', Count ''blob_request_giveups_total'' []] (st1\<lparr>as_world := w\<rparr>)"
        using assms s resp True q by (auto simp: range_once_def Let_def split: sum.splits if_splits)
      ultimately show ?thesis by blast
    qed
  qed
  then obtain k' where "adds st1 st' 0 k'" ..
  from adds_trans [OF nk(1) this] nk(2) show ?thesis by auto
qed

lemma range_loop_adds:
  assumes "range_loop env cl url extra attempt st = (r, st')"
  shows "\<exists>n k. adds st st' n k \<and> n \<le> max 1 (max_attempts cl - attempt) * (max_attempts cl + 1)"
  using assms
proof (induction env cl url extra attempt st arbitrary: r st' rule: range_loop.induct)
  case (1 env cl url extra attempt st)
  obtain v st1 where o: "range_once env cl url extra (attempt + 1) st = (v, st1)"
    by (cases "range_once env cl url extra (attempt + 1) st")
  from range_once_adds [OF o] obtain n k where nk: "adds st st1 n k" "n \<le> max_attempts cl + 1" by blast
  show ?case
  proof (cases "\<exists>b. v = Again b")
    case False
    then have "st' = st1" using "1.prems" o by (cases v) (auto simp: range_loop.simps [of env cl url extra attempt])
    moreover have "n \<le> max 1 (max_attempts cl - attempt) * (max_attempts cl + 1)"
      by (rule order_trans [OF nk(2)]) (rule order_trans [OF _ mult_le_mono1 [of 1]], simp_all)
    ultimately show ?thesis using nk by blast
  next
    case True
    then obtain b where b: "v = Again b" ..
    then have l: "range_loop env cl url extra (attempt + 1) st1 = (r, st')"
      using "1.prems" o by (simp add: range_loop.simps [of env cl url extra attempt])
    from "1.IH" [OF o [symmetric] b l] obtain m k' where m: "adds st1 st' m k'"
      "m \<le> max 1 (max_attempts cl - (attempt + 1)) * (max_attempts cl + 1)" by blast
    have "attempt + 1 < max_attempts cl" by (rule range_once_again) (use o b in blast)
    then have "max 1 (max_attempts cl - attempt) = Suc (max 1 (max_attempts cl - (attempt + 1)))" by simp
    then have "n + m \<le> max 1 (max_attempts cl - attempt) * (max_attempts cl + 1)" using nk(2) m(2) by simp
    with adds_trans [OF nk(1) m(1)] show ?thesis by blast
  qed
qed

section \<open>An honest service\<close>

text \<open>
  \<open>served\<close> tells which request a stream answers, \<open>blob_at\<close> the content of the blob a URL names. A
  successful answer to a ranged GET carries that range of the blob, cut at its end; the query of a URL (a
  SAS token) does not change which blob it names.
\<close>

definition honest :: "('u, 'w) azure_env \<Rightarrow> (nat \<Rightarrow> 'u request) \<Rightarrow> ('u \<Rightarrow> bytes) \<Rightarrow> bool" where
  "honest env served blob_at \<longleftrightarrow>
     (\<forall>req w resp w'. az_http env req w = (Inr resp, w') \<longrightarrow> served (rs_stream resp) = req) \<and>
     (\<forall>resp w b w' a z. is_success (rs_status resp) \<longrightarrow> az_bytes env resp w = (Inr b, w') \<longrightarrow>
        rq_method (served (rs_stream resp)) = ''GET'' \<longrightarrow> a \<le> z \<longrightarrow>
        map_of (rq_headers (served (rs_stream resp))) ''x-ms-range'' = Some (''bytes='' @ show_dec a @ ''-'' @ show_dec z) \<longrightarrow>
        b = take (z + 1 - a) (drop a (blob_at (rq_url (served (rs_stream resp)))))) \<and>
     (\<forall>q u. blob_at (u_set_query (az_url env) q u) = blob_at u)"

lemma honestD:
  assumes "honest env served blob_at"
  shows "az_http env req w = (Inr resp, w') \<Longrightarrow> served (rs_stream resp) = req"
    "is_success (rs_status resp) \<Longrightarrow> az_bytes env resp w = (Inr b, w') \<Longrightarrow> rq_method (served (rs_stream resp)) = ''GET'' \<Longrightarrow>
     a \<le> z \<Longrightarrow> map_of (rq_headers (served (rs_stream resp))) ''x-ms-range'' = Some (''bytes='' @ show_dec a @ ''-'' @ show_dec z) \<Longrightarrow>
     b = take (z + 1 - a) (drop a (blob_at (rq_url (served (rs_stream resp)))))"
    "blob_at (u_set_query (az_url env) q u) = blob_at u"
  using assms unfolding honest_def by blast+

definition answers :: "('u, 'w) azure_env \<Rightarrow> blob_client \<Rightarrow> string \<Rightarrow> 'u \<Rightarrow> header_map \<Rightarrow> response \<Rightarrow> bool" where
  "answers env cl meth url extra resp \<longleftrightarrow>
     (\<exists>req w w' w0 ct len bearer. az_http env req w = (Inr resp, w') \<and> rq_method req = meth \<and>
        (rq_url req = url \<or> (\<exists>tok. rq_url req = append_sas_token (az_url env) tok url)) \<and>
        build_headers env w0 cl url meth ct len extra bearer = Some (rq_headers req))"

lemma send_once_answers:
  assumes "send_once env cl meth url extra ct body attempt once st = (Stop (Inr resp), st')"
  shows "answers env cl meth url extra resp"
proof -
  obtain bearer st1 where t: "bearer_token env cl st = (Inr bearer, st1)"
    using assms by (auto simp: send_once_def split: prod.splits sum.splits)
  obtain headers where h: "build_headers env (as_world st1) cl url meth ct (map_option length body) extra bearer = Some headers"
    using assms t by (auto simp: send_once_def split: option.splits)
  define req where "req = \<lparr>rq_method = meth, rq_url = (case bc_credential cl of Sas tok \<Rightarrow> append_sas_token (az_url env) tok url | _ \<Rightarrow> url),
        rq_headers = headers, rq_body = body\<rparr>"
  obtain r w where a: "az_http env req (as_world st1) = (r, w)" by (cases "az_http env req (as_world st1)")
  let ?st2 = "(emit [Sent req] st1)\<lparr>as_world := w, as_bearers := az_others env w (as_bearers st1)\<rparr>"
  have v: "(case r of Inr resp \<Rightarrow> on_response env cl attempt once resp ?st2 | Inl e \<Rightarrow> on_error env cl attempt once e ?st2) = (Stop (Inr resp), st')"
    using assms t h a unfolding req_def by (simp add: send_once_def Let_def)
  have "r = Inr resp"
  proof (cases r)
    case (Inl e)
    then show ?thesis using v on_error_adds [of env cl attempt once e ?st2 "Stop (Inr resp)" st'] by auto
  next
    case (Inr resp')
    then show ?thesis using v on_response_adds [of env cl attempt once resp' ?st2 "Stop (Inr resp)" st'] by auto
  qed
  then have "az_http env req (as_world st1) = (Inr resp, w)" using a by simp
  moreover have "rq_url req = url \<or> (\<exists>tok. rq_url req = append_sas_token (az_url env) tok url)"
    by (auto simp: req_def split: credential.splits)
  ultimately show ?thesis using h unfolding answers_def
    by (intro exI [of _ req] exI) (auto simp: req_def)
qed

lemma send_loop_answers:
  "send_loop env cl meth url extra ct body attempt once st = (Some (Inr resp), st') \<Longrightarrow> answers env cl meth url extra resp"
proof (induction env cl meth url extra ct body attempt once st rule: send_loop.induct)
  case (1 env cl meth url extra ct body attempt once st)
  obtain v st1 where o: "send_once env cl meth url extra ct body (attempt + 1) once st = (v, st1)"
    by (cases "send_once env cl meth url extra ct body (attempt + 1) once st")
  show ?case
  proof (cases v)
    case Panic
    then show ?thesis using "1.prems" o by (simp add: send_loop.simps [of env cl meth])
  next
    case (Stop q)
    then have "q = Inr resp" using "1.prems" o by (simp add: send_loop.simps [of env cl meth])
    then show ?thesis using send_once_answers [of env cl meth url extra ct body "attempt + 1" once st resp st1] o Stop by simp
  next
    case (Again b)
    then have "send_loop env cl meth url extra ct body (attempt + 1) b st1 = (Some (Inr resp), st')"
      using "1.prems" o by (simp add: send_loop.simps [of env cl meth url extra ct body attempt])
    then show ?thesis by (rule "1.IH" [OF o [symmetric] Again])
  qed
qed

lemma authorize_keeps:
  "authorize env cl meth url len bearer h = Some h' \<Longrightarrow> name \<noteq> ''authorization'' \<Longrightarrow> map_of h' name = map_of h name"
  by (auto simp: authorize_def put_header_def update_conv split: credential.splits option.splits if_splits bind_splits)

lemma build_headers_extra:
  assumes "build_headers env w cl url meth ct len [(name, v)] bearer = Some h" and "name \<noteq> ''authorization''"
  shows "map_of h name = Some v"
proof -
  obtain h0 where "authorize env cl meth url len bearer (AList.update name v h0) = Some h"
    using assms(1) by (auto simp: build_headers_def Let_def split: bind_splits)
  from authorize_keeps [OF this assms(2)] show ?thesis by (simp add: update_conv)
qed

lemma append_sas_blob: "honest env served blob_at \<Longrightarrow> blob_at (append_sas_token (az_url env) tok url) = blob_at url"
  by (simp add: append_sas_token_def Let_def honestD(3))

lemma range_once_answers:
  assumes "range_once env cl url extra attempt st = (Stop (Inr b), st')"
  shows "\<exists>resp w w'. answers env cl ''GET'' url extra resp \<and> is_success (rs_status resp) \<and> az_bytes env resp w = (Inr b, w')"
proof -
  obtain resp st1 where s: "send env cl ''GET'' url extra None None st = (Some (Inr resp), st1)"
    using assms by (auto simp: range_once_def split: prod.splits option.splits sum.splits)
  have ok: "is_success (rs_status resp)"
    using assms s by (auto simp: range_once_def split: prod.splits if_splits)
  have "\<exists>w w'. az_bytes env resp w = (Inr b, w')"
    using assms s ok by (auto simp: range_once_def Let_def split: prod.splits sum.splits if_splits)
  moreover have "answers env cl ''GET'' url extra resp" by (rule send_loop_answers [OF s [unfolded send_def]])
  ultimately show ?thesis using ok by blast
qed

lemma range_loop_answers:
  "range_loop env cl url extra attempt st = (Some (Inr b), st') \<Longrightarrow>
   \<exists>resp w w'. answers env cl ''GET'' url extra resp \<and> is_success (rs_status resp) \<and> az_bytes env resp w = (Inr b, w')"
proof (induction env cl url extra attempt st rule: range_loop.induct)
  case (1 env cl url extra attempt st)
  obtain v st1 where o: "range_once env cl url extra (attempt + 1) st = (v, st1)"
    by (cases "range_once env cl url extra (attempt + 1) st")
  show ?case
  proof (cases v)
    case Panic
    then show ?thesis using "1.prems" o by (simp add: range_loop.simps [of env cl url])
  next
    case (Stop q)
    then have "q = Inr b" using "1.prems" o by (simp add: range_loop.simps [of env cl url])
    then show ?thesis using range_once_answers [of env cl url extra "attempt + 1" st b st1] o Stop by simp
  next
    case (Again c)
    then have "range_loop env cl url extra (attempt + 1) st1 = (Some (Inr b), st')"
      using "1.prems" o by (simp add: range_loop.simps [of env cl url extra attempt])
    then show ?thesis by (rule "1.IH" [OF o [symmetric] Again])
  qed
qed

lemma get_blob_range_genuine:
  assumes "honest env served blob_at" and "blob_url env account container blob = Inr url"
    and "0 < n" "off + n \<le> U64_MAX"
    and "get_blob_range env cl account container blob off n st = (Some (Inr b), st')"
  shows "b = take n (drop off (blob_at url))"
proof -
  have "off + n < 2 ^ 64" using assms(4) by (simp add: U64_MAX_def)
  then have "range_end off n = off + n - 1"
    using assms(3) by (simp add: range_end_def u64_add_small U64_MAX_def mod_if)
  then have rv: "range_val off n = ''bytes='' @ show_dec off @ ''-'' @ show_dec (off + n - 1)" by (simp add: range_val_def)
  have "range_loop env cl url [(''x-ms-range'', range_val off n)] 0 st = (Some (Inr b), st')"
    using assms(2,5) by (simp add: get_blob_range_def)
  from range_loop_answers [OF this] obtain resp w w' where r: "answers env cl ''GET'' url [(''x-ms-range'', range_val off n)] resp"
    "is_success (rs_status resp)" "az_bytes env resp w = (Inr b, w')" by blast
  from r(1) obtain req v v' w0 ct len bearer where req: "az_http env req v = (Inr resp, v')" "rq_method req = ''GET''"
    "rq_url req = url \<or> (\<exists>tok. rq_url req = append_sas_token (az_url env) tok url)"
    "build_headers env w0 cl url ''GET'' ct len [(''x-ms-range'', range_val off n)] bearer = Some (rq_headers req)"
    unfolding answers_def by blast
  have served: "served (rs_stream resp) = req" by (rule honestD(1) [OF assms(1) req(1)])
  have "map_of (rq_headers req) ''x-ms-range'' = Some (range_val off n)" by (rule build_headers_extra [OF req(4)]) simp
  then have "b = take (off + n - 1 + 1 - off) (drop off (blob_at (rq_url req)))"
    using honestD(2) [OF assms(1) r(2,3), of off "off + n - 1"] req(2) assms(3) unfolding served rv by simp
  moreover have "blob_at (rq_url req) = blob_at url" using req(3) append_sas_blob [OF assms(1)] by auto
  ultimately show ?thesis using assms(3) by simp
qed

section \<open>Listings\<close>

text \<open>The pages the service returns, from a marker on, until one has no further marker.\<close>

inductive listing ::
  "('u, 'w) azure_env \<Rightarrow> blob_client \<Rightarrow> string \<Rightarrow> string \<Rightarrow> string option \<Rightarrow> bool \<Rightarrow> string option \<Rightarrow> ('u, 'w) az_state \<Rightarrow>
   blob_list_response list \<Rightarrow> ('u, 'w) az_state \<Rightarrow> bool"
  for env cl account container pre recursive
where
  last: "list_page env cl account container pre recursive marker st = (Some (Inr page), st') \<Longrightarrow>
     bl_next_marker page = None \<or> bl_next_marker page = Some [] \<Longrightarrow>
     listing env cl account container pre recursive marker st [page] st'"
| more: "list_page env cl account container pre recursive marker st = (Some (Inr page), st1) \<Longrightarrow>
     bl_next_marker page = Some m \<Longrightarrow> m \<noteq> [] \<Longrightarrow>
     listing env cl account container pre recursive (Some m) st1 pages st' \<Longrightarrow>
     listing env cl account container pre recursive marker st (page # pages) st'"

lemma list_loop_complete:
  "listing env cl account container pre recursive marker st pages st' \<Longrightarrow>
   list_loop env cl account container pre recursive marker bs ds st =
     Some (Some (Inr (bs @ concat (map (\<lambda>page. listed (entries_of page)) pages), ds @ concat (map (\<lambda>page. listed_prefixes (entries_of page)) pages))), st')"
proof (induction arbitrary: bs ds rule: listing.induct)
  case (last marker st page st')
  then show ?case by (subst list_loop.simps) auto
next
  case (more marker st page st1 m pages st')
  then show ?case by (subst list_loop.simps) simp
qed

definition lists_as ::
  "('u, 'w) azure_env \<Rightarrow> blob_client \<Rightarrow> string \<Rightarrow> string \<Rightarrow> string option \<Rightarrow> bool \<Rightarrow> string option \<Rightarrow> listed_blob list \<Rightarrow>
   string list \<Rightarrow> ('u, 'w) az_state \<Rightarrow> (listed_blob list \<times> string list) result option \<times> ('u, 'w) az_state \<Rightarrow> bool"
where
  "lists_as env cl account container pre recursive marker bs ds st y \<longleftrightarrow>
     (\<forall>bs' ds' st'. y = (Some (Inr (bs', ds')), st') \<longrightarrow>
        (\<exists>pages. listing env cl account container pre recursive marker st pages st' \<and>
           bs' = bs @ concat (map (\<lambda>page. listed (entries_of page)) pages) \<and>
           ds' = ds @ concat (map (\<lambda>page. listed_prefixes (entries_of page)) pages)))"

lemma lists_as_last:
  assumes "list_page env cl account container pre recursive marker st = (Some (Inr page), st1)"
    and "bl_next_marker page = None \<or> bl_next_marker page = Some []"
  shows "lists_as env cl account container pre recursive marker bs ds st
    (Some (Inr (bs @ listed (entries_of page), ds @ listed_prefixes (entries_of page))), st1)"
proof -
  have "listing env cl account container pre recursive marker st [page] st1" using listing.last [OF assms] .
  then have "\<exists>pages. listing env cl account container pre recursive marker st pages st1 \<and>
      bs @ listed (entries_of page) = bs @ concat (map (\<lambda>page. listed (entries_of page)) pages) \<and>
      ds @ listed_prefixes (entries_of page) = ds @ concat (map (\<lambda>page. listed_prefixes (entries_of page)) pages)"
    by (intro exI [of _ "[page]"]) simp
  then show ?thesis by (simp add: lists_as_def)
qed

lemma lists_as_more:
  assumes "list_page env cl account container pre recursive marker st = (Some (Inr page), st1)"
    and "bl_next_marker page = Some m" "m \<noteq> []"
    and "lists_as env cl account container pre recursive (Some m)
      (bs @ listed (entries_of page)) (ds @ listed_prefixes (entries_of page)) st1 y"
  shows "lists_as env cl account container pre recursive marker bs ds st y"
  unfolding lists_as_def
proof (intro allI impI)
  fix bs' ds' st'
  assume "y = (Some (Inr (bs', ds')), st')"
  with assms(4) obtain pages where p: "listing env cl account container pre recursive (Some m) st1 pages st'"
    "bs' = (bs @ listed (entries_of page)) @ concat (map (\<lambda>page. listed (entries_of page)) pages)"
    "ds' = (ds @ listed_prefixes (entries_of page)) @ concat (map (\<lambda>page. listed_prefixes (entries_of page)) pages)"
    unfolding lists_as_def by blast
  from listing.more [OF assms(1-3) p(1)] p(2,3)
  show "\<exists>pages. listing env cl account container pre recursive marker st pages st' \<and>
      bs' = bs @ concat (map (\<lambda>page. listed (entries_of page)) pages) \<and>
      ds' = ds @ concat (map (\<lambda>page. listed_prefixes (entries_of page)) pages)"
    by (intro exI [of _ "page # pages"]) simp
qed

lemma list_loop_sound:
  fixes env :: "('u, 'w) azure_env"
  assumes "list_loop env cl account container pre recursive marker bs ds st = Some y"
  shows "lists_as env cl account container pre recursive marker bs ds st y"
proof (rule list_loop.raw_induct [OF _ assms])
  fix rec :: "('u, 'w) azure_env \<Rightarrow> blob_client \<Rightarrow> string \<Rightarrow> string \<Rightarrow> string option \<Rightarrow> bool \<Rightarrow> string option \<Rightarrow> listed_blob list \<Rightarrow>
   string list \<Rightarrow> ('u, 'w) az_state \<Rightarrow> ((listed_blob list \<times> string list) result option \<times> ('u, 'w) az_state) option"
  fix env :: "('u, 'w) azure_env" and cl account container pre recursive marker bs ds st y
  assume IH: "\<And>env cl account container pre recursive marker bs ds st y.
      rec env cl account container pre recursive marker bs ds st = Some y \<Longrightarrow>
      lists_as env cl account container pre recursive marker bs ds st y"
    and eq: "(case list_page env cl account container pre recursive marker st of
        (None, st) \<Rightarrow> Some (None, st)
      | (Some (Inl e), st) \<Rightarrow> Some (Some (Inl e), st)
      | (Some (Inr page), st) \<Rightarrow>
          let blobs = bs @ listed (entries_of page);
              pfxs = ds @ listed_prefixes (entries_of page) in
          (case bl_next_marker page of
             None \<Rightarrow> Some (Some (Inr (blobs, pfxs)), st)
           | Some m \<Rightarrow>
               if m \<noteq> [] then rec env cl account container pre recursive (Some m) blobs pfxs st
               else Some (Some (Inr (blobs, pfxs)), st))) = Some y"
  obtain r st1 where p: "list_page env cl account container pre recursive marker st = (r, st1)"
    by (cases "list_page env cl account container pre recursive marker st")
  show "lists_as env cl account container pre recursive marker bs ds st y"
  proof (cases "\<exists>page. r = Some (Inr page)")
    case False
    then have "fst y = None \<or> (\<exists>e. fst y = Some (Inl e))"
      using eq p by (auto split: option.splits sum.splits)
    then show ?thesis by (auto simp: lists_as_def)
  next
    case True
    then obtain page where page: "r = Some (Inr page)" ..
    note p' = p [unfolded page]
    show ?thesis
    proof (cases "bl_next_marker page = None \<or> bl_next_marker page = Some []")
      case True
      then have "y = (Some (Inr (bs @ listed (entries_of page), ds @ listed_prefixes (entries_of page))), st1)"
        using eq p' by (auto simp: Let_def)
      then show ?thesis using lists_as_last [OF p' True] by simp
    next
      case False
      then obtain m where m: "bl_next_marker page = Some m" "m \<noteq> []" by (cases "bl_next_marker page") auto
      have "rec env cl account container pre recursive (Some m)
          (bs @ listed (entries_of page)) (ds @ listed_prefixes (entries_of page)) st1 = Some y"
        using eq p' m by (simp add: Let_def)
      from lists_as_more [OF p' m IH [OF this]] show ?thesis .
    qed
  qed
qed

section \<open>A small service\<close>

text \<open>It knows one blob and one ranged request, which it refuses once with 503 and then serves.\<close>

definition tiny_extra :: header_map where
  "tiny_extra = [(''x-ms-range'', range_val 0 4)]"

definition tiny_request :: "string request" where
  "tiny_request = \<lparr>rq_method = ''GET'', rq_url = ''https://acc.blob.core.windows.net/c/b'',
     rq_headers = [(''x-ms-date'', ''d''), (''x-ms-version'', API_VERSION)] @ tiny_extra, rq_body = None\<rparr>"

definition tiny_env :: "(string, nat) azure_env" where
  "tiny_env = \<lparr>az_url = plain_url, az_crypto = plain_crypto,
     az_http = (\<lambda>req w. (if req = tiny_request then Inr \<lparr>rs_status = (if w = 0 then 503 else 206), rs_headers = [], rs_stream = 7\<rparr>
        else Inl \<lparr>ne_timeout = False, ne_connect = True, ne_request = False, ne_body = False, ne_decode = False, ne_text = []\<rparr>, w + 1)),
     az_bytes = (\<lambda>resp w. (Inr [1, 2, 3], w)), az_text = (\<lambda>resp w. (Inr [], w)), az_sleep = (\<lambda>d w. w),
     az_others = (\<lambda>w b. b), az_idp = (\<lambda>_. no_idp), az_join = (\<lambda>_. None), az_now = (\<lambda>w. w), az_nanos = (\<lambda>w. w),
     az_date = (\<lambda>_. ''d''), az_xml = (\<lambda>_. Inl []), az_encode = (\<lambda>s. s)\<rparr>"

definition tiny_client :: blob_client where
  "tiny_client = \<lparr>bc_credential = Anonymous, bc_max_retries = 10\<rparr>"

definition tiny_state :: "(string, nat) az_state" where
  "tiny_state = \<lparr>as_world = 0, as_bearers = [], as_trace = []\<rparr>"

lemma range_text_inj:
  assumes "show_dec a @ ''-'' @ show_dec z = show_dec a' @ ''-'' @ show_dec z'"
  shows "a = a' \<and> z = z'"
proof -
  have t: "takeWhile digit (show_dec n @ ''-'' @ s) = show_dec n" for n s
    using show_dec_digits [of n] by (subst takeWhile_append2) (auto simp: list_all_iff digit_def in_range_def)
  have "show_dec a = show_dec a'" using arg_cong [OF assms, of "takeWhile digit"] unfolding t .
  moreover from this assms have "show_dec z = show_dec z'" by simp
  ultimately show ?thesis by (metis decimal_show_dec)
qed

lemma tiny_range: "range_val 0 4 = ''bytes='' @ show_dec 0 @ ''-'' @ show_dec 3"
  by (simp add: range_val_def range_end_def u64_add_def U64_MAX_def)

lemma tiny_honest: "honest tiny_env (\<lambda>_. tiny_request) (\<lambda>_. [1, 2, 3])"
proof -
  have "[1, 2, 3] = take (z + 1 - a) (drop a [1, 2, 3 :: u8])"
    if "range_val 0 4 = ''bytes='' @ show_dec a @ ''-'' @ show_dec z" for a z
  proof -
    have "a = 0 \<and> z = 3" using that range_text_inj [of 0 3 a z] unfolding tiny_range by auto
    then show ?thesis by simp
  qed
  then show ?thesis by (auto simp: honest_def tiny_env_def tiny_request_def tiny_extra_def split: if_splits)
qed

lemma tiny_headers:
  "build_headers tiny_env w tiny_client url ''GET'' None None tiny_extra None = Some (rq_headers tiny_request)"
  by (simp add: build_headers_def put_header_def tiny_env_def visible_ascii_def in_range_def authorize_def tiny_client_def
      tiny_request_def tiny_extra_def Let_def)

lemma tiny_max: "max_attempts tiny_client = 11"
  by (simp add: max_attempts_def tiny_client_def sat_add32_def U32_MAX_def)

definition tiny_final :: "(string, nat) az_state" where
  "tiny_final = \<lparr>as_world = 2, as_bearers = [], as_trace =
     [Sent tiny_request, Count ''blob_request_retries_total'' ''503'', Slept 376, Sent tiny_request,
      Count ''blob_request_status_total'' ''206'']\<rparr>"

lemma tiny_decimal: "show_dec 503 = ''503''" "show_dec 206 = ''206''"
  by (simp_all add: show_dec_def radix_digits.simps hex_digits_def)

lemma tiny_once:
  "send_once tiny_env tiny_client ''GET'' (rq_url tiny_request) tiny_extra None None (Suc 0) False tiny_state =
     (Again False, \<lparr>as_world = Suc 0, as_bearers = [], as_trace =
       [Sent tiny_request, Count ''blob_request_retries_total'' ''503'', Slept 376]\<rparr>)"
  "send_once tiny_env tiny_client ''GET'' (rq_url tiny_request) tiny_extra None None 2 False
     \<lparr>as_world = Suc 0, as_bearers = [], as_trace = [Sent tiny_request, Count ''blob_request_retries_total'' ''503'', Slept 376]\<rparr> =
     (Stop (Inr \<lparr>rs_status = 206, rs_headers = [], rs_stream = 7\<rparr>), tiny_final)"
proof -
  have req: "\<lparr>rq_method = ''GET'', rq_url = rq_url tiny_request, rq_headers = rq_headers tiny_request, rq_body = None\<rparr> = tiny_request"
    by (simp add: tiny_request_def)
  have bear: "bearer_token tiny_env tiny_client st = (Inr None, st)" for st :: "(string, nat) az_state"
    by (simp add: bearer_token_def tiny_client_def)
  have cred: "bc_credential tiny_client = Anonymous" by (simp add: tiny_client_def)
  have delay: "retry_delay_ms (Suc 0) \<lparr>rs_status = 503, rs_headers = [], rs_stream = 7\<rparr> (Suc 0) = 376"
    by (simp add: retry_delay_ms_def header_str_def backoff_ms_def Let_def sat_mul_def sat_add_def U64_MAX_def)
  have env: "az_http tiny_env tiny_request w = (Inr \<lparr>rs_status = (if w = 0 then 503 else 206), rs_headers = [], rs_stream = 7\<rparr>, w + 1)"
    "az_others tiny_env w b = b" "az_sleep tiny_env d w = w" "az_nanos tiny_env w = w" for w b d
    by (simp_all add: tiny_env_def)
  show "send_once tiny_env tiny_client ''GET'' (rq_url tiny_request) tiny_extra None None (Suc 0) False tiny_state =
     (Again False, \<lparr>as_world = Suc 0, as_bearers = [], as_trace =
       [Sent tiny_request, Count ''blob_request_retries_total'' ''503'', Slept 376]\<rparr>)"
    by (simp add: send_once_def bear tiny_headers cred req env on_response_def is_retryable_status_def tiny_max sleep_for_def delay
        emit_def tiny_decimal tiny_state_def Let_def)
  show "send_once tiny_env tiny_client ''GET'' (rq_url tiny_request) tiny_extra None None 2 False
     \<lparr>as_world = Suc 0, as_bearers = [], as_trace = [Sent tiny_request, Count ''blob_request_retries_total'' ''503'', Slept 376]\<rparr> =
     (Stop (Inr \<lparr>rs_status = 206, rs_headers = [], rs_stream = 7\<rparr>), tiny_final)"
    by (simp add: send_once_def bear tiny_headers cred req env on_response_def is_retryable_status_def tiny_max
        emit_def tiny_decimal tiny_final_def Let_def)
qed

lemma tiny_send:
  "send tiny_env tiny_client ''GET'' (rq_url tiny_request) tiny_extra None None tiny_state =
     (Some (Inr \<lparr>rs_status = 206, rs_headers = [], rs_stream = 7\<rparr>), tiny_final)"
  unfolding send_def by (simp add: send_loop.simps tiny_once numeral_2_eq_2 [symmetric])

lemma tiny_get:
  "get_blob_range tiny_env tiny_client ''acc'' ''c'' ''b'' 0 4 tiny_state = (Some (Inr [1, 2, 3]), tiny_final)"
proof -
  have "blob_url tiny_env ''acc'' ''c'' ''b'' = Inr (rq_url tiny_request)"
    by (simp add: blob_url_def tiny_env_def plain_url_def tiny_request_def)
  moreover have bytes: "az_bytes tiny_env resp w = (Inr [1, 2, 3], w)" for resp w by (simp add: tiny_env_def)
  moreover have "range_once tiny_env tiny_client (rq_url tiny_request) tiny_extra (Suc 0) tiny_state =
      (Stop (Inr [1, 2, 3]), tiny_final)"
    using bytes by (simp add: range_once_def tiny_send is_success_def in_range_def Let_def)
  ultimately show ?thesis by (simp add: get_blob_range_def range_loop.simps tiny_extra_def)
qed

section \<open>Properties\<close>

text \<open>C22: a request always comes to an end within its budget. However the service answers, \<open>send\<close> makes at
  most \<open>max_attempts\<close> requests (11 for the daemon's clients), one more if a bearer token had to be
  renewed after a 401; it sleeps at most \<open>max_attempts - 1\<close> times, never for more than a minute even if the
  service asks for longer; and it hands a retryable status to its caller only after all attempts. A
  backoff is within a quarter of its exponential value, between 375 ms and 37.5 s.\<close>

theorem send_bounded:
  assumes "send env cl meth url extra ct body st = (r, st')"
  shows "\<exists>es. as_trace st' = as_trace st @ es \<and>
    sents es \<le> max_attempts cl + (if is_bearer (bc_credential cl) then 1 else 0) \<and>
    sleeps es \<le> max_attempts cl - 1 \<and> short_sleeps es \<and>
    (\<forall>rs. r = Some (Inr rs) \<and> is_retryable_status (rs_status rs) \<longrightarrow> max_attempts cl \<le> sents es) \<and>
    (let capped = min (500 * 2 ^ min (attempt - 1) 10) 30000 in
       375 \<le> backoff_ms nanos attempt \<and> backoff_ms nanos attempt \<le> 37500 \<and>
       capped - capped div 4 \<le> backoff_ms nanos attempt \<and> backoff_ms nanos attempt \<le> capped + capped div 4)"
proof -
  let ?capped = "min (500 * 2 ^ min (attempt - 1) 10) 30000 :: nat"
  have "500 \<le> ?capped" by simp
  then have b: "375 \<le> backoff_ms nanos attempt" "backoff_ms nanos attempt \<le> 37500"
    using backoff_range [of attempt nanos] by linarith+
  from send_adds [OF assms] obtain n k where nk: "adds st st' n k"
    "n \<le> max_attempts cl + (if is_bearer (bc_credential cl) then 1 else 0)" "k \<le> max_attempts cl - 1"
    "\<forall>rs. r = Some (Inr rs) \<and> is_retryable_status (rs_status rs) \<longrightarrow> max_attempts cl \<le> n" by blast
  from nk(1) obtain es where "as_trace st' = as_trace st @ es" "sents es = n" "sleeps es = k" "short_sleeps es"
    unfolding adds_def by blast
  with nk(2-4) b backoff_range [of attempt nanos] show ?thesis unfolding Let_def by blast
qed

theorem send_bounded_witness:
  "\<exists>es. as_trace tiny_final = as_trace tiny_state @ es \<and> sents es \<le> 11 \<and> sleeps es \<le> 10 \<and> short_sleeps es \<and>
     375 \<le> backoff_ms 5 3 \<and> backoff_ms 5 3 \<le> 37500"
proof -
  have "\<not> is_bearer (bc_credential tiny_client)" by (simp add: is_bearer_def tiny_client_def)
  with send_bounded [OF tiny_send, where nanos = 5 and attempt = 3] show ?thesis by (auto simp: tiny_max Let_def)
qed

text \<open>C17: A ranged read returns the range. If the service answers a ranged GET successfully only with that
  range of the named blob, then whatever errors, retries and broken bodies came before, the bytes
  \<open>get_blob_range\<close> returns are the \<open>n\<close> bytes at \<open>off\<close> of the blob (fewer at its end), for every credential
  kind; and it made at most \<open>max_attempts * (max_attempts + 1)\<close> requests.\<close>

theorem blob_range_correct:
  assumes "honest env served blob_at" and "blob_url env account container blob = Inr url"
    and "0 < n" "off + n \<le> U64_MAX"
    and "get_blob_range env cl account container blob off n st = (r, st')"
  shows "(\<forall>b. r = Some (Inr b) \<longrightarrow> b = take n (drop off (blob_at url))) \<and>
    (\<exists>es. as_trace st' = as_trace st @ es \<and> sents es \<le> max_attempts cl * (max_attempts cl + 1))"
proof -
  have "range_loop env cl url [(''x-ms-range'', range_val off n)] 0 st = (r, st')"
    using assms(2,5) by (simp add: get_blob_range_def)
  from range_loop_adds [OF this] obtain m k where "adds st st' m k"
    "m \<le> max 1 (max_attempts cl - 0) * (max_attempts cl + 1)" by blast
  moreover have "max 1 (max_attempts cl - 0) = max_attempts cl" by (simp add: max_attempts_def)
  ultimately have "\<exists>es. as_trace st' = as_trace st @ es \<and> sents es \<le> max_attempts cl * (max_attempts cl + 1)"
    unfolding adds_def by metis
  then show ?thesis using get_blob_range_genuine [OF assms(1-4)] assms(5) by blast
qed

theorem blob_range_correct_witness:
  "get_blob_range tiny_env tiny_client ''acc'' ''c'' ''b'' 0 4 tiny_state = (Some (Inr [1, 2, 3]), tiny_final) \<and>
   [1, 2, 3] = take 4 (drop 0 [1, 2, 3 :: u8]) \<and>
   (\<exists>es. as_trace tiny_final = as_trace tiny_state @ es \<and> sents es \<le> 132)"
proof -
  have "blob_url tiny_env ''acc'' ''c'' ''b'' = Inr (rq_url tiny_request)"
    by (simp add: blob_url_def tiny_env_def plain_url_def tiny_request_def)
  from blob_range_correct [OF tiny_honest this _ _ tiny_get] tiny_get show ?thesis
    by (simp add: tiny_max U64_MAX_def)
qed


end
