(* ===== verification/PeerLru.thy ===== *)
theory PeerLru
  imports ChunkStore
begin

text \<open>
  The byte-bounded LRU of peer-fetched chunks (\<open>PeerLru\<close> of \<open>src/fetcher.rs\<close>). The underlying
  \<open>LruCache\<close> is the third-party crate \<open>lru\<close>: its operations are a parameter, \<open>lru_ops\<close>, and
  \<open>lru_laws\<close> states their documented behaviour over a view that lists the entries from the most to
  the least recently used.
\<close>

section \<open>The \<open>lru\<close> crate\<close>

record 'l lru_ops =
  lo_unbounded :: 'l
  lo_get :: "chunk_key \<Rightarrow> 'l \<Rightarrow> bytes option \<times> 'l"
  lo_put :: "chunk_key \<Rightarrow> bytes \<Rightarrow> 'l \<Rightarrow> bytes option \<times> 'l"
  lo_pop_lru :: "'l \<Rightarrow> (chunk_key \<times> bytes) option \<times> 'l"
  lo_clear :: "'l \<Rightarrow> 'l"
  lo_len :: "'l \<Rightarrow> nat"

definition lru_laws :: "'l lru_ops \<Rightarrow> ('l \<Rightarrow> (chunk_key \<times> bytes) list) \<Rightarrow> bool" where
  "lru_laws ops view \<longleftrightarrow>
     view (lo_unbounded ops) = [] \<and>
     (\<forall>l. distinct (map fst (view l)) \<and> view (lo_clear ops l) = [] \<and> lo_len ops l = length (view l)) \<and>
     (\<forall>k l. fst (lo_get ops k l) = map_of (view l) k \<and>
        view (snd (lo_get ops k l)) = (case map_of (view l) k of None \<Rightarrow> view l | Some v \<Rightarrow> (k, v) # AList.delete k (view l))) \<and>
     (\<forall>k v l. fst (lo_put ops k v l) = map_of (view l) k \<and> view (snd (lo_put ops k v l)) = (k, v) # AList.delete k (view l)) \<and>
     (\<forall>l. fst (lo_pop_lru ops l) = (if view l = [] then None else Some (last (view l))) \<and>
        view (snd (lo_pop_lru ops l)) = butlast (view l))"

section \<open>Operations\<close>

record 'l peer_lru =
  pl_inner :: 'l
  pl_bytes :: nat
  pl_cap_bytes :: nat

definition peer_lru_new :: "'l lru_ops \<Rightarrow> nat \<Rightarrow> 'l peer_lru" where
  "peer_lru_new ops cap = \<lparr>pl_inner = lo_unbounded ops, pl_bytes = 0, pl_cap_bytes = cap\<rparr>"

definition peer_lru_get :: "'l lru_ops \<Rightarrow> chunk_key \<Rightarrow> 'l peer_lru \<Rightarrow> bytes option \<times> 'l peer_lru" where
  "peer_lru_get ops key p = (case lo_get ops key (pl_inner p) of (r, l) \<Rightarrow> (r, p\<lparr>pl_inner := l\<rparr>))"

text \<open>The \<open>while\<close> loop of \<open>put\<close>. It pops one entry per round, so one round more than there are
  entries is enough fuel: \<open>pop_until_fits_spec\<close> shows that then it always ends by its own condition.\<close>

fun pop_until_fits :: "'l lru_ops \<Rightarrow> nat \<Rightarrow> 'l peer_lru \<Rightarrow> 'l peer_lru" where
  "pop_until_fits ops 0 p = p"
| "pop_until_fits ops (Suc fuel) p =
     (if pl_bytes p > pl_cap_bytes p
      then (case lo_pop_lru ops (pl_inner p) of
              (Some (_, v), l) \<Rightarrow> pop_until_fits ops fuel (p\<lparr>pl_inner := l, pl_bytes := pl_bytes p - length v\<rparr>)
            | (None, l) \<Rightarrow> p\<lparr>pl_inner := l\<rparr>)
      else p)"

definition peer_lru_put :: "'l lru_ops \<Rightarrow> chunk_key \<Rightarrow> bytes \<Rightarrow> 'l peer_lru \<Rightarrow> 'l peer_lru" where
  "peer_lru_put ops key val p =
     (let new_len = length val in
      if new_len > pl_cap_bytes p then p
      else case lo_put ops key val (pl_inner p) of
        (prev, l) \<Rightarrow>
          let b = (case prev of Some v \<Rightarrow> pl_bytes p - length v | None \<Rightarrow> pl_bytes p);
              p1 = p\<lparr>pl_inner := l, pl_bytes := sat_add b new_len\<rparr> in
          pop_until_fits ops (Suc (lo_len ops l)) p1)"

definition peer_lru_clear :: "'l lru_ops \<Rightarrow> 'l peer_lru \<Rightarrow> 'l peer_lru" where
  "peer_lru_clear ops p = p\<lparr>pl_inner := lo_clear ops (pl_inner p), pl_bytes := 0\<rparr>"

section \<open>The abstract cache\<close>

text \<open>The reference: a recency list from which the least recent entries are dropped while their total
  length exceeds the cap.\<close>

definition weight :: "(chunk_key \<times> bytes) list \<Rightarrow> nat" where
  "weight es = sum_list (map (length \<circ> snd) es)"

function trim_cap :: "nat \<Rightarrow> (chunk_key \<times> bytes) list \<Rightarrow> (chunk_key \<times> bytes) list" where
  "trim_cap cap es = (if es = [] \<or> weight es \<le> cap then es else trim_cap cap (butlast es))"
  by pat_completeness auto
termination by (relation "measure (\<lambda>(cap, es). length es)") auto

declare trim_cap.simps [simp del]

lemma lawsD:
  assumes "lru_laws ops view"
  shows "view (lo_unbounded ops) = []" "distinct (map fst (view l))" "view (lo_clear ops l) = []" "lo_len ops l = length (view l)"
    "fst (lo_get ops k l) = map_of (view l) k"
    "view (snd (lo_get ops k l)) = (case map_of (view l) k of None \<Rightarrow> view l | Some v \<Rightarrow> (k, v) # AList.delete k (view l))"
    "fst (lo_put ops k v l) = map_of (view l) k" "view (snd (lo_put ops k v l)) = (k, v) # AList.delete k (view l)"
    "fst (lo_pop_lru ops l) = (if view l = [] then None else Some (last (view l)))"
    "view (snd (lo_pop_lru ops l)) = butlast (view l)"
  using assms unfolding lru_laws_def by auto

lemma weight_simps [simp]: "weight [] = 0" "weight (e # es) = length (snd e) + weight es" "weight (es @ fs) = weight es + weight fs"
  by (simp_all add: weight_def)

lemma weight_butlast: "es \<noteq> [] \<Longrightarrow> weight (butlast es) = weight es - length (snd (last es)) \<and> length (snd (last es)) \<le> weight es"
  by (induction es rule: rev_induct) auto

lemma weight_delete:
  "distinct (map fst es) \<Longrightarrow> weight (AList.delete k es) = (case map_of es k of None \<Rightarrow> weight es | Some v \<Rightarrow> weight es - length v)
     \<and> (\<forall>v. map_of es k = Some v \<longrightarrow> length v \<le> weight es)"
proof (induction es)
  case (Cons e es)
  then show ?case
    by (cases e) (auto simp: delete_idem split: option.splits dest: map_of_SomeD)
qed simp

text \<open>Byte accounting: the counter is the total length of what is held.\<close>

definition lru_acc :: "('l \<Rightarrow> (chunk_key \<times> bytes) list) \<Rightarrow> 'l peer_lru \<Rightarrow> bool" where
  "lru_acc view p \<longleftrightarrow> pl_bytes p = weight (view (pl_inner p))"

lemma pop_until_fits_spec:
  assumes "lru_laws ops view" "lru_acc view p" "length (view (pl_inner p)) < fuel"
  shows "lru_acc view (pop_until_fits ops fuel p) \<and>
    view (pl_inner (pop_until_fits ops fuel p)) = trim_cap (pl_cap_bytes p) (view (pl_inner p)) \<and>
    pl_cap_bytes (pop_until_fits ops fuel p) = pl_cap_bytes p"
  using assms(2,3)
proof (induction fuel arbitrary: p)
  case (Suc fuel)
  note laws = lawsD [OF assms(1)]
  let ?es = "view (pl_inner p)"
  obtain r l where pop: "lo_pop_lru ops (pl_inner p) = (r, l)" by force
  show ?case
  proof (cases "pl_bytes p > pl_cap_bytes p")
    case True
    then have ne: "?es \<noteq> []" using Suc.prems(1) by (auto simp: lru_acc_def)
    then obtain k v where last: "last ?es = (k, v)" by force
    have r: "r = Some (k, v)" "view l = butlast ?es"
      using laws(9,10) [of "pl_inner p"] pop ne last by auto
    let ?p = "p\<lparr>pl_inner := l, pl_bytes := pl_bytes p - length v\<rparr>"
    have "length (butlast ?es) < fuel" using Suc.prems(2) ne by (cases ?es) auto
    then have "lru_acc view ?p" "length (view (pl_inner ?p)) < fuel"
      using Suc.prems(1) weight_butlast [OF ne] last r(2) by (auto simp: lru_acc_def)
    from Suc.IH [OF this] True pop r ne Suc.prems(1) show ?thesis
      by (simp add: trim_cap.simps [of "pl_cap_bytes p" ?es] lru_acc_def)
  next
    case False
    with Suc.prems show ?thesis by (auto simp: trim_cap.simps lru_acc_def)
  qed
qed simp

lemma trim_cap_sub: "set (trim_cap cap es) \<subseteq> set es"
proof (induction cap es rule: trim_cap.induct)
  case (1 cap es)
  then show ?case by (subst trim_cap.simps) (auto dest: in_set_butlastD)
qed

lemma trim_cap_fits: "weight (trim_cap cap es) \<le> cap"
proof (induction cap es rule: trim_cap.induct)
  case (1 cap es)
  then show ?case by (subst trim_cap.simps) auto
qed

lemma trim_cap_head: "length v \<le> cap \<Longrightarrow> \<exists>es'. trim_cap cap ((k, v) # es) = (k, v) # es' \<and> prefix es' es"
proof (induction es rule: rev_induct)
  case (snoc e es)
  then show ?case by (subst trim_cap.simps) (auto simp: butlast_append)
qed (simp add: trim_cap.simps)

section \<open>The peer LRU as a chunk store\<close>

definition lru_genuine ::
  "'l lru_ops \<Rightarrow> ('l \<Rightarrow> (chunk_key \<times> bytes) list) \<Rightarrow> (chunk_key \<Rightarrow> bytes) \<Rightarrow> chunk_key set \<Rightarrow> 'l peer_lru \<Rightarrow> bool"
where
  "lru_genuine ops view content K p \<longleftrightarrow> lru_laws ops view \<and> lru_acc view p \<and> pl_cap_bytes p < 2 ^ 63 \<and> pl_bytes p \<le> pl_cap_bytes p \<and>
     (\<forall>k v. (k, v) \<in> set (view (pl_inner p)) \<longrightarrow> k \<in> K \<longrightarrow> v = content k)"

lemma put_spec:
  assumes "lru_laws ops view" "lru_acc view p" "pl_cap_bytes p < 2 ^ 63" "pl_bytes p \<le> pl_cap_bytes p"
  shows "lru_acc view (peer_lru_put ops k v p) \<and> pl_cap_bytes (peer_lru_put ops k v p) = pl_cap_bytes p \<and>
    view (pl_inner (peer_lru_put ops k v p)) =
      (if length v > pl_cap_bytes p then view (pl_inner p)
       else trim_cap (pl_cap_bytes p) ((k, v) # AList.delete k (view (pl_inner p))))"
proof (cases "length v > pl_cap_bytes p")
  case True
  with assms show ?thesis by (simp add: peer_lru_put_def)
next
  case False
  note laws = lawsD [OF assms(1)]
  let ?es = "view (pl_inner p)"
  obtain prev l where put: "lo_put ops k v (pl_inner p) = (prev, l)" by force
  have l: "prev = map_of ?es k" "view l = (k, v) # AList.delete k ?es"
    using laws(7,8) [of k v "pl_inner p"] put by auto
  let ?b = "case prev of Some u \<Rightarrow> pl_bytes p - length u | None \<Rightarrow> pl_bytes p"
  let ?p = "p\<lparr>pl_inner := l, pl_bytes := sat_add ?b (length v)\<rparr>"
  have b: "?b = weight (AList.delete k ?es)"
    using weight_delete [OF laws(2), of k "pl_inner p"] l(1) assms(2) by (auto simp: lru_acc_def split: option.splits)
  moreover have "?b + length v \<le> U64_MAX"
    using assms(3,4) False by (auto simp: U64_MAX_def split: option.splits)
  ultimately have "lru_acc view ?p" using l(2) by (simp add: lru_acc_def sat_add_def)
  from pop_until_fits_spec [OF assms(1) this, of "Suc (lo_len ops l)"] False put l show ?thesis
    by (simp add: peer_lru_put_def laws(4) Let_def del: pop_until_fits.simps)
qed

interpretation plru: chunk_store "peer_lru_get ops" "peer_lru_put ops" "lru_genuine ops view"
  for ops :: "'l lru_ops" and view
proof
  fix content K and s s' :: "'l peer_lru" and k d
  assume ok: "lru_genuine ops view content K s"
  note laws = lawsD [of ops view]
  show "d = content k" if "k \<in> K" "peer_lru_get ops k s = (Some d, s')"
    using that ok laws(5) [of k "pl_inner s"]
    by (auto simp: lru_genuine_def peer_lru_get_def split: prod.splits dest!: map_of_SomeD)
  show "lru_genuine ops view content K (snd (peer_lru_get ops k s))"
  proof -
    obtain r l where g: "lo_get ops k (pl_inner s) = (r, l)" by force
    have law: "lru_laws ops view" using ok by (simp add: lru_genuine_def)
    have v: "view l = (case map_of (view (pl_inner s)) k of None \<Rightarrow> view (pl_inner s) | Some v \<Rightarrow> (k, v) # AList.delete k (view (pl_inner s)))"
      using laws(6) [OF law, of k "pl_inner s"] g by simp
    have "set (view l) \<subseteq> set (view (pl_inner s))"
      using v by (auto split: option.splits dest: map_of_SomeD simp: AList.delete_eq)
    moreover have "weight (view l) = weight (view (pl_inner s))"
      using v weight_delete [OF laws(2) [OF law], of k "pl_inner s"] by (auto split: option.splits)
    ultimately show ?thesis using ok g by (auto simp: lru_genuine_def peer_lru_get_def lru_acc_def)
  qed
  show "lru_genuine ops view content K (peer_lru_put ops k (content k) s)" if "k \<in> K"
  proof -
    have law: "lru_laws ops view" "lru_acc view s" "pl_cap_bytes s < 2 ^ 63" "pl_bytes s \<le> pl_cap_bytes s"
      using ok by (auto simp: lru_genuine_def)
    note p = put_spec [OF law, of k "content k"]
    have "set (view (pl_inner (peer_lru_put ops k (content k) s))) \<subseteq> insert (k, content k) (set (view (pl_inner s)))"
      using p trim_cap_sub [of "pl_cap_bytes s" "(k, content k) # AList.delete k (view (pl_inner s))"]
      by (auto simp: AList.delete_eq split: if_splits)
    moreover have "pl_bytes (peer_lru_put ops k (content k) s) \<le> pl_cap_bytes s"
      using p law trim_cap_fits by (auto simp: lru_acc_def split: if_splits)
    ultimately show ?thesis using ok p by (auto simp: lru_genuine_def)
  qed
qed

section \<open>Properties\<close>

text \<open>C19: The peer LRU refines the abstract recency list. For any LRU cache with its documented
  behaviour: after \<open>put\<close> the byte counter is the total length held and within the cap, the entries are
  the new one followed by the previous ones with the least recent dropped as long as they do not fit, an
  oversized chunk changes nothing; \<open>get\<close> returns the entry and makes it the most recent.\<close>
theorem peer_lru_refines:
  assumes "lru_laws ops view" "lru_acc view p" "pl_cap_bytes p < 2 ^ 63" "pl_bytes p \<le> pl_cap_bytes p"
  shows "lru_acc view (peer_lru_put ops k v p) \<and> pl_bytes (peer_lru_put ops k v p) \<le> pl_cap_bytes p
    \<and> view (pl_inner (peer_lru_put ops k v p)) =
        (if length v > pl_cap_bytes p then view (pl_inner p)
         else trim_cap (pl_cap_bytes p) ((k, v) # AList.delete k (view (pl_inner p))))
    \<and> (length v \<le> pl_cap_bytes p \<longrightarrow> fst (peer_lru_get ops k (peer_lru_put ops k v p)) = Some v)
    \<and> fst (peer_lru_get ops k p) = map_of (view (pl_inner p)) k
    \<and> (\<forall>u. map_of (view (pl_inner p)) k = Some u \<longrightarrow> view (pl_inner (snd (peer_lru_get ops k p))) = (k, u) # AList.delete k (view (pl_inner p)))"
proof -
  note p = put_spec [OF assms, of k v] and laws = lawsD [OF assms(1)]
  have "fst (peer_lru_get ops k q) = map_of (view (pl_inner q)) k" for q
    using laws(5) [of k "pl_inner q"] by (auto simp: peer_lru_get_def split: prod.splits)
  moreover have "view (pl_inner (snd (peer_lru_get ops k p))) = (k, u) # AList.delete k (view (pl_inner p))"
    if "map_of (view (pl_inner p)) k = Some u" for u
    using laws(6) [of k "pl_inner p"] that by (auto simp: peer_lru_get_def split: prod.splits)
  moreover have "pl_bytes (peer_lru_put ops k v p) \<le> pl_cap_bytes p"
    using p assms(2,4) trim_cap_fits by (auto simp: lru_acc_def split: if_splits)
  ultimately show ?thesis using p trim_cap_head [of v "pl_cap_bytes p" k "AList.delete k (view (pl_inner p))"] by auto
qed

text \<open>A list implementation with the documented behaviour; \<open>AList.clearjunk\<close> is its view.\<close>

definition list_lru :: "(chunk_key \<times> bytes) list lru_ops" where
  "list_lru = \<lparr>lo_unbounded = [],
     lo_get = (\<lambda>k l. (map_of l k, case map_of l k of None \<Rightarrow> l | Some v \<Rightarrow> (k, v) # AList.delete k l)),
     lo_put = (\<lambda>k v l. (map_of l k, (k, v) # AList.delete k l)),
     lo_pop_lru = (\<lambda>l. let m = AList.clearjunk l in (if m = [] then None else Some (last m), butlast m)),
     lo_clear = (\<lambda>_. []), lo_len = (\<lambda>l. length (AList.clearjunk l))\<rparr>"

lemma list_lru_laws: "lru_laws list_lru AList.clearjunk"
proof -
  have "AList.clearjunk (butlast (AList.clearjunk l)) = butlast (AList.clearjunk l)" for l :: "(chunk_key \<times> bytes) list"
    by (rule distinct_clearjunk_id) (simp add: map_butlast distinct_clearjunk distinct_butlast)
  then show ?thesis
    by (auto simp: lru_laws_def list_lru_def distinct_clearjunk map_of_clearjunk clearjunk_delete delete_idem Let_def split: option.splits)
qed

theorem peer_lru_refines_witness:
  "pl_bytes (peer_lru_put list_lru \<lparr>key_mount = [], key_blob = [], key_offset = 0\<rparr> [1, 2, 3] (peer_lru_new list_lru 4)) \<le> 4"
proof -
  have "lru_acc AList.clearjunk (peer_lru_new list_lru 4)" "pl_cap_bytes (peer_lru_new list_lru 4) = 4"
    "pl_bytes (peer_lru_new list_lru 4) = 0"
    by (simp_all add: peer_lru_new_def lru_acc_def list_lru_def)
  with peer_lru_refines [OF list_lru_laws, of "peer_lru_new list_lru 4" "\<lparr>key_mount = [], key_blob = [], key_offset = 0\<rparr>" "[1, 2, 3]"]
  show ?thesis by simp
qed

end
