(* ===== verification/Singleflight.thy ===== *)
theory Singleflight
  imports ChunkKey
begin

text \<open>
  Deduplication of concurrent fetches (\<open>inflight\<close>, \<open>LeaderGuard\<close> and the election in
  \<open>fetch_chunk_inner\<close> and \<open>serve_peer_chunk\<close> of \<open>src/fetcher.rs\<close>). A broadcast channel is a
  number; \<open>sf_sent\<close> records the messages sent on the channels. \<open>sf_step\<close> interleaves any number
  of tasks.
\<close>

section \<open>Operations\<close>

type_synonym sf_msg = "string + bytes"

record singleflight =
  sf_inflight :: "(chunk_key, nat) hmap"
  sf_next :: nat
  sf_gauge :: int
  sf_sent :: "(nat \<times> chunk_key \<times> sf_msg) list"

definition sf_new :: singleflight where
  "sf_new = \<lparr>sf_inflight = [], sf_next = 0, sf_gauge = 0, sf_sent = []\<rparr>"

text \<open>The entry API: subscribe to the running leader's channel, or become the leader.\<close>

definition elect :: "chunk_key \<Rightarrow> singleflight \<Rightarrow> nat option \<times> singleflight" where
  "elect key s =
     (case map_of (sf_inflight s) key of
        Some ch \<Rightarrow> (Some ch, s)
      | None \<Rightarrow> (None, s\<lparr>sf_inflight := AList.update key (sf_next s) (sf_inflight s), sf_next := sf_next s + 1,
                          sf_gauge := sf_gauge s + 1\<rparr>))"

definition disarm :: "chunk_key \<Rightarrow> singleflight \<Rightarrow> nat option \<times> singleflight" where
  "disarm key s =
     (case map_of (sf_inflight s) key of
        None \<Rightarrow> (None, s)
      | Some ch \<Rightarrow> (Some ch, s\<lparr>sf_inflight := AList.delete key (sf_inflight s), sf_gauge := sf_gauge s - 1\<rparr>))"

definition finish :: "chunk_key \<Rightarrow> sf_msg \<Rightarrow> singleflight \<Rightarrow> singleflight" where
  "finish key msg s =
     (case disarm key s of
        (None, s') \<Rightarrow> s'
      | (Some ch, s') \<Rightarrow> s'\<lparr>sf_sent := (ch, key, msg) # sf_sent s'\<rparr>)"

text \<open>\<open>Drop\<close> of an armed guard.\<close>

definition guard_drop :: "chunk_key \<Rightarrow> singleflight \<Rightarrow> singleflight" where
  "guard_drop key s = finish key (Inl ''leader cancelled'') s"

definition sf_clear :: "singleflight \<Rightarrow> singleflight" where
  "sf_clear s = s\<lparr>sf_inflight := [], sf_gauge := 0\<rparr>"

section \<open>Interleaved tasks\<close>

text \<open>\<open>ss_leaders\<close> and \<open>ss_followers\<close> are the running leaders and the waiting followers, each with its
  channel; \<open>ss_closed\<close> the channels whose sender was dropped without a message (a receiver then gets an
  error); \<open>ss_clears\<close> counts the calls of \<open>clear_local_state\<close>.\<close>

record sf_sys =
  ss_sf :: singleflight
  ss_leaders :: "(chunk_key \<times> nat) list"
  ss_followers :: "(chunk_key \<times> nat) list"
  ss_closed :: "nat list"
  ss_clears :: nat

definition sf_init :: sf_sys where
  "sf_init = \<lparr>ss_sf = sf_new, ss_leaders = [], ss_followers = [], ss_closed = [], ss_clears = 0\<rparr>"

inductive sf_step :: "sf_sys \<Rightarrow> sf_sys \<Rightarrow> bool" where
  Lead: "elect key (ss_sf s) = (None, sf') \<Longrightarrow>
    sf_step s (s\<lparr>ss_sf := sf', ss_leaders := (key, sf_next (ss_sf s)) # ss_leaders s\<rparr>)"
| Follow: "elect key (ss_sf s) = (Some ch, sf') \<Longrightarrow>
    sf_step s (s\<lparr>ss_sf := sf', ss_followers := (key, ch) # ss_followers s\<rparr>)"
| Finish: "l \<in> set (ss_leaders s) \<Longrightarrow>
    sf_step s (s\<lparr>ss_sf := finish (fst l) msg (ss_sf s), ss_leaders := remove1 l (ss_leaders s)\<rparr>)"
| Cancel: "l \<in> set (ss_leaders s) \<Longrightarrow>
    sf_step s (s\<lparr>ss_sf := guard_drop (fst l) (ss_sf s), ss_leaders := remove1 l (ss_leaders s)\<rparr>)"
| Receive: "f \<in> set (ss_followers s) \<Longrightarrow> (snd f, fst f, msg) \<in> set (sf_sent (ss_sf s)) \<or> snd f \<in> set (ss_closed s) \<Longrightarrow>
    sf_step s (s\<lparr>ss_followers := remove1 f (ss_followers s)\<rparr>)"
| Clear: "sf_step s (s\<lparr>ss_sf := sf_clear (ss_sf s), ss_closed := map snd (sf_inflight (ss_sf s)) @ ss_closed s,
    ss_clears := Suc (ss_clears s)\<rparr>)"

inductive_cases sf_stepE: "sf_step s s'"

definition sf_inv :: "sf_sys \<Rightarrow> bool" where
  "sf_inv s \<longleftrightarrow>
     distinct (map fst (sf_inflight (ss_sf s))) \<and> sf_gauge (ss_sf s) = int (length (sf_inflight (ss_sf s))) \<and>
     set (sf_inflight (ss_sf s)) \<subseteq> set (ss_leaders s) \<and>
     distinct (map snd (ss_leaders s)) \<and> (\<forall>l \<in> set (ss_leaders s). snd l < sf_next (ss_sf s)) \<and>
     (\<forall>(key, ch) \<in> set (ss_followers s). (key, ch) \<in> set (sf_inflight (ss_sf s)) \<or> ch \<in> set (ss_closed s) \<or>
        (\<exists>msg. (ch, key, msg) \<in> set (sf_sent (ss_sf s)))) \<and>
     (ss_clears s = 0 \<longrightarrow> set (ss_leaders s) = set (sf_inflight (ss_sf s)))"

lemma sf_invD:
  assumes "sf_inv s"
  shows "distinct (map fst (sf_inflight (ss_sf s)))" "sf_gauge (ss_sf s) = int (length (sf_inflight (ss_sf s)))"
    "set (sf_inflight (ss_sf s)) \<subseteq> set (ss_leaders s)" "distinct (map snd (ss_leaders s))"
    "l \<in> set (ss_leaders s) \<Longrightarrow> snd l < sf_next (ss_sf s)"
    "(key, ch) \<in> set (ss_followers s) \<Longrightarrow> (key, ch) \<in> set (sf_inflight (ss_sf s)) \<or> ch \<in> set (ss_closed s) \<or>
        (\<exists>msg. (ch, key, msg) \<in> set (sf_sent (ss_sf s)))"
    "ss_clears s = 0 \<Longrightarrow> set (ss_leaders s) = set (sf_inflight (ss_sf s))"
  using assms unfolding sf_inv_def by blast+

lemma sf_invI:
  assumes "distinct (map fst (sf_inflight (ss_sf s)))" "sf_gauge (ss_sf s) = int (length (sf_inflight (ss_sf s)))"
    "set (sf_inflight (ss_sf s)) \<subseteq> set (ss_leaders s)" "distinct (map snd (ss_leaders s))"
    "\<And>l. l \<in> set (ss_leaders s) \<Longrightarrow> snd l < sf_next (ss_sf s)"
    "\<And>key ch. (key, ch) \<in> set (ss_followers s) \<Longrightarrow> (key, ch) \<in> set (sf_inflight (ss_sf s)) \<or> ch \<in> set (ss_closed s) \<or>
        (\<exists>msg. (ch, key, msg) \<in> set (sf_sent (ss_sf s)))"
    "ss_clears s = 0 \<Longrightarrow> set (ss_leaders s) = set (sf_inflight (ss_sf s))"
  shows "sf_inv s"
  using assms unfolding sf_inv_def by blast

lemma update_new: "map_of m k = None \<Longrightarrow> AList.update k v m = m @ [(k, v)]"
  by (induction m) (auto split: if_splits)

lemma delete_length: "distinct (map fst m) \<Longrightarrow> map_of m k = Some v \<Longrightarrow> length m = Suc (length (AList.delete k m))"
  by (induction m) (auto simp: delete_idem split: if_splits)

lemma delete_set: "distinct (map fst m) \<Longrightarrow> map_of m k = Some v \<Longrightarrow> set (AList.delete k m) = set m - {(k, v)}"
  by (auto simp: AList.delete_eq eq_key_imp_eq_value dest: map_of_SomeD)

text \<open>Finishing, by result or by cancellation.\<close>

lemma finish_inv:
  assumes "sf_inv s" "l \<in> set (ss_leaders s)"
  shows "sf_inv (s\<lparr>ss_sf := finish (fst l) msg (ss_sf s), ss_leaders := remove1 l (ss_leaders s)\<rparr>)"
proof -
  note inv = sf_invD [OF assms(1)]
  let ?m = "sf_inflight (ss_sf s)"
  have dl: "distinct (ss_leaders s)" using inv(4) by (simp add: distinct_map)
  show ?thesis
  proof (cases "map_of ?m (fst l)")
    case None
    then have f: "finish (fst l) msg (ss_sf s) = ss_sf s" by (simp add: finish_def disarm_def)
    have "l \<notin> set ?m" using None by (cases l) (auto simp: map_of_eq_None_iff rev_image_eqI)
    then show ?thesis unfolding f
      by (intro sf_invI) (use inv dl assms(2) in \<open>auto simp: distinct_map inj_on_diff\<close>)
  next
    case (Some ch)
    let ?sf = "finish (fst l) msg (ss_sf s)"
    have f: "sf_inflight ?sf = AList.delete (fst l) ?m" "sf_gauge ?sf = sf_gauge (ss_sf s) - 1"
        "sf_sent ?sf = (ch, fst l, msg) # sf_sent (ss_sf s)" "sf_next ?sf = sf_next (ss_sf s)"
      using Some by (simp_all add: finish_def disarm_def)
    have del: "set (AList.delete (fst l) ?m) = set ?m - {(fst l, ch)}" by (rule delete_set [OF inv(1) Some])
    have in_m: "(fst l, ch) \<in> set ?m" using Some by (rule map_of_SomeD)
    have gone: "l \<notin> set (AList.delete (fst l) ?m)"
      by (cases l) (auto simp: AList.delete_eq)
    let ?s' = "s\<lparr>ss_sf := ?sf, ss_leaders := remove1 l (ss_leaders s)\<rparr>"
    have sel: "ss_sf ?s' = ?sf" "ss_leaders ?s' = remove1 l (ss_leaders s)" "ss_followers ?s' = ss_followers s"
      "ss_closed ?s' = ss_closed s" "ss_clears ?s' = ss_clears s" by simp_all
    show ?thesis
    proof (rule sf_invI, unfold sel f)
      show "distinct (map fst (AList.delete (fst l) ?m))" using inv(1) by (rule distinct_delete)
      show "sf_gauge (ss_sf s) - 1 = int (length (AList.delete (fst l) ?m))"
        using inv(2) delete_length [OF inv(1) Some] by simp
      show "set (AList.delete (fst l) ?m) \<subseteq> set (remove1 l (ss_leaders s))"
        using gone del inv(3) dl by auto
      show "distinct (map snd (remove1 l (ss_leaders s)))"
        using inv(4) dl by (auto simp: distinct_map inj_on_diff)
      show "snd l' < sf_next (ss_sf s)" if "l' \<in> set (remove1 l (ss_leaders s))" for l'
        using that dl inv(5) by auto
      show "(key, c) \<in> set (AList.delete (fst l) ?m) \<or> c \<in> set (ss_closed s) \<or>
          (\<exists>m. (c, key, m) \<in> set ((ch, fst l, msg) # sf_sent (ss_sf s)))" if "(key, c) \<in> set (ss_followers s)" for key c
        using inv(6) [OF that] del by auto
      show "set (remove1 l (ss_leaders s)) = set (AList.delete (fst l) ?m)" if "ss_clears s = 0"
      proof -
        have e: "set (ss_leaders s) = set ?m" using inv(7) that .
        then have "map_of ?m (fst l) = Some (snd l)" using assms(2) inv(1) by auto
        with Some have "l = (fst l, ch)" by (cases l) auto
        with e del dl show ?thesis by (metis set_remove1_eq)
      qed
    qed
  qed
qed

lemma sf_step_inv: "sf_step s s' \<Longrightarrow> sf_inv s \<Longrightarrow> sf_inv s'"
proof (induction rule: sf_step.induct)
  case (Lead key s sf')
  note inv = sf_invD [OF Lead(2)]
  from Lead(1) have n: "map_of (sf_inflight (ss_sf s)) key = None"
    and sf': "sf' = (ss_sf s)\<lparr>sf_inflight := sf_inflight (ss_sf s) @ [(key, sf_next (ss_sf s))], sf_next := sf_next (ss_sf s) + 1,
      sf_gauge := sf_gauge (ss_sf s) + 1\<rparr>"
    by (auto simp: elect_def update_new split: option.splits)
  have "key \<notin> fst ` set (sf_inflight (ss_sf s))" using n by (simp add: map_of_eq_None_iff)
  moreover have "sf_next (ss_sf s) \<notin> snd ` set (ss_leaders s)" using inv(5) by fastforce
  ultimately show ?case unfolding sf'
    by (intro sf_invI) (use inv in \<open>auto simp: less_Suc_eq\<close>)
next
  case (Follow key s ch sf')
  then have "sf' = ss_sf s" "(key, ch) \<in> set (sf_inflight (ss_sf s))"
    by (auto simp: elect_def split: option.splits dest: map_of_SomeD)
  with Follow(2) show ?case by (auto simp: sf_inv_def)
next
  case (Receive f s msg)
  then show ?case by (auto simp: sf_inv_def dest: notin_set_remove1)
next
  case (Clear s)
  note inv = sf_invD [OF Clear]
  have "(key, ch) \<in> set (sf_inflight (ss_sf s)) \<Longrightarrow> ch \<in> snd ` set (sf_inflight (ss_sf s))" for key ch by force
  with inv(6) have "ch \<in> snd ` set (sf_inflight (ss_sf s)) \<or> ch \<in> set (ss_closed s) \<or> (\<exists>msg. (ch, key, msg) \<in> set (sf_sent (ss_sf s)))"
    if "(key, ch) \<in> set (ss_followers s)" for key ch using that by blast
  with inv(4,5) show ?case by (intro sf_invI) (simp_all add: sf_clear_def del: imp_disjL)
qed (auto simp: guard_drop_def intro: finish_inv)

lemma sf_run_inv: "sf_step\<^sup>*\<^sup>* sf_init s \<Longrightarrow> sf_inv s"
proof (induction rule: rtranclp_induct)
  case base
  show ?case by (simp add: sf_inv_def sf_init_def sf_new_def)
qed (rule sf_step_inv)

section \<open>Properties\<close>


definition sf_key :: chunk_key where
  "sf_key = \<lparr>key_mount = ''m'', key_blob = ''b'', key_offset = 0\<rparr>"


text \<open>A cache clear during a fetch breaks the one-leader guarantee. Clearing drops the registration
  of a running leader; a second request then becomes leader of the same key, and when the first leader
  ends it takes away the second one's registration, so that a third request leads as well while the
  second is still running.\<close>
theorem clear_overlaps_leaders:
  "\<exists>s. sf_step\<^sup>*\<^sup>* sf_init s \<and> ss_clears s = 1 \<and> ss_leaders s = [(sf_key, 2), (sf_key, 1)]"
proof -
  define S where "S m n g sent l c k = \<lparr>ss_sf = \<lparr>sf_inflight = m, sf_next = n, sf_gauge = g, sf_sent = sent\<rparr>, ss_leaders = l,
    ss_followers = [], ss_closed = c, ss_clears = k\<rparr>" for m n g sent l c k
  have 1: "sf_step sf_init (S [(sf_key, 0)] 1 1 [] [(sf_key, 0)] [] 0)"
    using sf_step.Lead [of sf_key sf_init "ss_sf (S [(sf_key, 0)] 1 1 [] [] [] 0)"]
    by (simp add: elect_def sf_init_def sf_new_def S_def)
  have 2: "sf_step (S [(sf_key, 0)] 1 1 [] [(sf_key, 0)] [] 0) (S [] 1 0 [] [(sf_key, 0)] [0] 1)"
    using sf_step.Clear [of "S [(sf_key, 0)] 1 1 [] [(sf_key, 0)] [] 0"] by (simp add: sf_clear_def S_def)
  have 3: "sf_step (S [] 1 0 [] [(sf_key, 0)] [0] 1) (S [(sf_key, 1)] 2 1 [] [(sf_key, 1), (sf_key, 0)] [0] 1)"
    using sf_step.Lead [of sf_key "S [] 1 0 [] [(sf_key, 0)] [0] 1" "ss_sf (S [(sf_key, 1)] 2 1 [] [] [] 0)"]
    by (simp add: elect_def S_def numeral_2_eq_2)
  have 4: "sf_step (S [(sf_key, 1)] 2 1 [] [(sf_key, 1), (sf_key, 0)] [0] 1)
      (S [] 2 0 [(1, sf_key, Inl [])] [(sf_key, 1)] [0] 1)"
    using sf_step.Finish [of "(sf_key, 0)" "S [(sf_key, 1)] 2 1 [] [(sf_key, 1), (sf_key, 0)] [0] 1" "Inl []"]
    by (simp add: finish_def disarm_def S_def)
  have 5: "sf_step (S [] 2 0 [(1, sf_key, Inl [])] [(sf_key, 1)] [0] 1)
      (S [(sf_key, 2)] 3 1 [(1, sf_key, Inl [])] [(sf_key, 2), (sf_key, 1)] [0] 1)"
    using sf_step.Lead [of sf_key "S [] 2 0 [(1, sf_key, Inl [])] [(sf_key, 1)] [0] 1"
        "ss_sf (S [(sf_key, 2)] 3 1 [(1, sf_key, Inl [])] [] [] 0)"]
    by (simp add: elect_def S_def)
  have "sf_step\<^sup>*\<^sup>* sf_init (S [(sf_key, 2)] 3 1 [(1, sf_key, Inl [])] [(sf_key, 2), (sf_key, 1)] [0] 1)"
    using 1 2 3 4 5 by (meson converse_rtranclp_into_rtranclp rtranclp.rtrancl_refl)
  then show ?thesis by (intro exI conjI) (assumption | simp add: S_def)+
qed

end
