(* ===== verification/Fetcher.thy ===== *)
theory Fetcher
  imports Config CacheProps ClusterProps PeerIndex PeerLru Singleflight
begin

text \<open>
  The fetcher (\<open>src/fetcher.rs\<close>): reads go through the writes still in flight, the peer LRU, the disk
  cache, singleflight, the peers and the blob origin.

  Every \<open>await\<close> of the source is an \<open>await\<close> of the model: there the rest of the node (other reads,
  background inserts, gossip, cache clears) acts on the shared state through \<open>fe_others\<close>, an arbitrary
  function per point in time; the properties assume only that it preserves the invariant that every
  operation of this theory is shown to preserve. What peers, the origin, channels and joined tasks
  answer is a parameter as well, indexed by the time of the call. \<open>f_clock\<close> counts the awaits. Histogram
  observations are not modelled; counters and gauges are \<open>f_counters\<close>, by name.
\<close>

section \<open>State\<close>

type_synonym counters = "string \<Rightarrow> int"

record seq_state =
  last_end :: nat
  consecutive :: nat
  blob_streak :: nat

record 'l fetcher =
  f_cache :: disk_cache
  f_membership :: membership
  f_peer_index :: peer_index
  f_chunk_size :: nat
  f_block_size :: nat
  f_peer_max_candidates :: nat
  f_peer_max_yes_attempts :: nat
  f_peer_max_maybe_attempts :: nat
  f_stampede_wait_ms :: nat
  f_mounts :: "(string, mount_config) hmap"
  f_inflight :: singleflight
  f_chunk_concurrency :: nat
  f_prefetch_permits :: nat
  f_inflight_writes :: "(chunk_key, bytes) hmap"
  f_insert_failures :: "(chunk_key \<times> string) list"
  f_seq_state :: "(string, seq_state) hmap"
  f_prefetch_depth :: nat
  f_prefetch_threshold :: nat
  f_prefetch_origin_only :: bool
  f_cache_on_peer_fetch :: bool
  f_peer_lru :: "'l peer_lru option"
  f_counters :: counters
  f_insert_tasks :: "(chunk_key \<times> bytes) list"
  f_clock :: nat

datatype recv_result = Received sf_msg | RecvError

record 'l fetch_env =
  fe_sha :: hash_fn
  fe_fs :: "nat \<Rightarrow> fs_env"
  fe_join :: "nat \<Rightarrow> string option"
  fe_lru :: "'l lru_ops"
  fe_others :: "nat \<Rightarrow> (nat \<times> chunk_key) option \<Rightarrow> 'l fetcher \<Rightarrow> 'l fetcher"
  fe_recv :: "nat \<Rightarrow> nat \<times> chunk_key \<Rightarrow> (nat \<times> chunk_key \<times> sf_msg) list \<Rightarrow> recv_result"
  fe_timeout :: "nat \<Rightarrow> bool"
  fe_rdma :: bool
  fe_b64 :: "string \<Rightarrow> bytes option"
  fe_peer :: "nat \<Rightarrow> string \<Rightarrow> string \<Rightarrow> bytes option \<Rightarrow> chunk_key \<Rightarrow> nat \<Rightarrow> nat \<Rightarrow> bytes result"
  fe_blob :: "nat \<Rightarrow> string \<Rightarrow> string \<Rightarrow> string \<Rightarrow> string \<Rightarrow> nat \<Rightarrow> nat \<Rightarrow> bytes result"

definition MAX_READ_BYTES :: nat where
  "MAX_READ_BYTES = 64 * 1024 * 1024"

definition MAX_RECORDED_INSERT_FAILURES :: nat where
  "MAX_RECORDED_INSERT_FAILURES = 256"

definition fetcher_new ::
  "'l lru_ops \<Rightarrow> disk_cache \<Rightarrow> membership \<Rightarrow> nat \<Rightarrow> nat \<Rightarrow> nat \<Rightarrow> nat \<Rightarrow> nat \<Rightarrow> nat \<Rightarrow> bool \<Rightarrow> bool \<Rightarrow> nat \<Rightarrow> peer_index \<Rightarrow>
   nat \<Rightarrow> nat \<Rightarrow> nat \<Rightarrow> nat \<Rightarrow> (string, mount_config) hmap \<Rightarrow> 'l fetcher"
where
  "fetcher_new ops cache membership chunk_size configured_block_size chunk_concurrency prefetch_depth prefetch_threshold
     prefetch_concurrency prefetch_origin_only cache_on_peer_fetch peer_lru_bytes peer_index peer_max_candidates
     peer_max_yes_attempts peer_max_maybe_attempts stampede_wait_ms mounts =
   \<lparr>f_cache = cache, f_membership = membership, f_peer_index = peer_index, f_chunk_size = chunk_size,
    f_block_size = (if configured_block_size = 0 then chunk_size else configured_block_size),
    f_peer_max_candidates = max peer_max_candidates 1, f_peer_max_yes_attempts = max peer_max_yes_attempts 1,
    f_peer_max_maybe_attempts = max peer_max_maybe_attempts 1, f_stampede_wait_ms = stampede_wait_ms, f_mounts = mounts,
    f_inflight = sf_new, f_chunk_concurrency = max chunk_concurrency 1, f_prefetch_permits = max prefetch_concurrency 1,
    f_inflight_writes = [], f_insert_failures = [], f_seq_state = [], f_prefetch_depth = prefetch_depth,
    f_prefetch_threshold = max prefetch_threshold 1, f_prefetch_origin_only = prefetch_origin_only,
    f_cache_on_peer_fetch = cache_on_peer_fetch,
    f_peer_lru = (if peer_lru_bytes > 0 then Some (peer_lru_new ops peer_lru_bytes) else None),
    f_counters = (\<lambda>_. 0), f_insert_tasks = [], f_clock = 0\<rparr>"

definition bump :: "string \<Rightarrow> int \<Rightarrow> 'l fetcher \<Rightarrow> 'l fetcher" where
  "bump name n f = f\<lparr>f_counters := (f_counters f)(name := f_counters f name + n)\<rparr>"

text \<open>The other tasks act; the second argument of \<open>fe_others\<close> is the channel this task waits on, if it
  waits on one.\<close>

definition await_on :: "'l fetch_env \<Rightarrow> (nat \<times> chunk_key) option \<Rightarrow> 'l fetcher \<Rightarrow> 'l fetcher" where
  "await_on env c f = (fe_others env (f_clock f) c f)\<lparr>f_clock := Suc (f_clock f)\<rparr>"

definition await :: "'l fetch_env \<Rightarrow> 'l fetcher \<Rightarrow> 'l fetcher" where
  "await env f = await_on env None f"

section \<open>Stores\<close>

text \<open>\<open>spawn_blocking(...).await\<close> of a cache operation: it runs, or the join fails.\<close>

definition blocking :: "'l fetch_env \<Rightarrow> (fs_env \<Rightarrow> disk_cache \<Rightarrow> 'a \<times> disk_cache) \<Rightarrow> 'l fetcher \<Rightarrow> (string + 'a) \<times> 'l fetcher" where
  "blocking env operation f =
     (case operation (fe_fs env (f_clock f)) (f_cache f) of
        (r, c) \<Rightarrow>
          let f' = await env (f\<lparr>f_cache := c\<rparr>) in
          (case fe_join env (f_clock f) of Some e \<Rightarrow> (Inl e, f') | None \<Rightarrow> (Inr r, f')))"

definition lru_lookup :: "'l fetch_env \<Rightarrow> chunk_key \<Rightarrow> nat \<Rightarrow> 'l fetcher \<Rightarrow> bytes option \<times> 'l fetcher" where
  "lru_lookup env key expected_len f =
     (case f_peer_lru f of
        None \<Rightarrow> (None, f)
      | Some p \<Rightarrow>
          (case peer_lru_get (fe_lru env) key p of
             (hit, p') \<Rightarrow>
               let f' = f\<lparr>f_peer_lru := Some p'\<rparr> in
               (case hit of
                  Some b \<Rightarrow> if length b = expected_len then (Some b, f') else (None, f')
                | None \<Rightarrow> (None, f'))))"

definition spawn_insert :: "chunk_key \<Rightarrow> bytes \<Rightarrow> 'l fetcher \<Rightarrow> 'l fetcher" where
  "spawn_insert key data f =
     bump ''inflight_writes'' 1
       (f\<lparr>f_inflight_writes := AList.update key data (f_inflight_writes f),
          f_insert_tasks := f_insert_tasks f @ [(key, data)]\<rparr>)"

definition record_insert_failure :: "chunk_key \<Rightarrow> string \<Rightarrow> 'l fetcher \<Rightarrow> 'l fetcher" where
  "record_insert_failure key err f =
     (if length (f_insert_failures f) < MAX_RECORDED_INSERT_FAILURES
      then f\<lparr>f_insert_failures := f_insert_failures f @ [(key, err)]\<rparr> else f)"

text \<open>The spawned task: \<open>outcome\<close> is the panic message of \<open>cache.insert\<close>, or the fault of its system
  calls. \<open>insert_task\<close> is one complete run of it, without the awaits.\<close>

definition insert_task ::
  "'l fetch_env \<Rightarrow> nat \<Rightarrow> nat \<Rightarrow> string + insert_fault \<Rightarrow> chunk_key \<times> bytes \<Rightarrow> 'l fetcher \<Rightarrow> 'l fetcher"
where
  "insert_task env pid nanos outcome kd f =
     (case kd of (key, data) \<Rightarrow>
       let f1 = f\<lparr>f_insert_tasks := remove1 kd (f_insert_tasks f)\<rparr>;
           f2 = (case outcome of
                   Inl e \<Rightarrow> bump ''cache_insert_failures'' 1 (record_insert_failure key (''panic: '' @ e) f1)
                 | Inr fault \<Rightarrow>
                     (case insert_chunk (fe_sha env) (fe_fs env (f_clock f)) pid nanos fault key data (f_cache f1) of
                        (Inr _, c) \<Rightarrow>
                          f1\<lparr>f_cache := c, f_peer_index := fst (note_local_insert (key_digest (fe_sha env) key) (f_peer_index f1))\<rparr>
                      | (Inl e, c) \<Rightarrow>
                          bump ''cache_insert_failures'' 1 (record_insert_failure key (show_error e) (f1\<lparr>f_cache := c\<rparr>)))) in
       bump ''inflight_writes'' (- 1) (f2\<lparr>f_inflight_writes := AList.delete key (f_inflight_writes f2)\<rparr>))"

definition seq_key :: "string \<Rightarrow> string \<Rightarrow> string" where
  "seq_key mount blob_path = mount @ [CHR 0x00] @ blob_path"

definition seq_entry :: "string \<Rightarrow> 'l fetcher \<Rightarrow> seq_state" where
  "seq_entry k f = (case map_of (f_seq_state f) k of Some e \<Rightarrow> e | None \<Rightarrow> \<lparr>last_end = 0, consecutive = 0, blob_streak = 0\<rparr>)"

definition note_fetch_origin :: "string \<Rightarrow> string \<Rightarrow> bool \<Rightarrow> 'l fetcher \<Rightarrow> 'l fetcher" where
  "note_fetch_origin mount blob_path from_blob f =
     (let k = seq_key mount blob_path; e = seq_entry k f in
      f\<lparr>f_seq_state := AList.update k
          (e\<lparr>blob_streak := (if from_blob then sat_add32 (blob_streak e) 1 else 0)\<rparr>) (f_seq_state f)\<rparr>)"

section \<open>Peers and origin\<close>

definition worker_addr :: "'l fetch_env \<Rightarrow> node_info \<Rightarrow> bytes option option" where
  "worker_addr env peer =
     (case ucx_worker_addr_b64 peer of
        Some encoded \<Rightarrow> (case fe_b64 env encoded of Some a \<Rightarrow> Some (Some a) | None \<Rightarrow> None)
      | None \<Rightarrow> if fe_rdma env then None else Some None)"

definition try_peer_fetch ::
  "'l fetch_env \<Rightarrow> node_info \<Rightarrow> chunk_key \<Rightarrow> nat \<Rightarrow> bool \<Rightarrow> nat \<Rightarrow> 'l fetcher \<Rightarrow> bytes option result \<times> 'l fetcher"
where
  "try_peer_fetch env peer key expected_len was_yes wait_ms f =
     (case worker_addr env peer of
        None \<Rightarrow> (Inr None, f)
      | Some addr \<Rightarrow>
          let peer_res = fe_peer env (f_clock f) (n_id peer) (transport_url peer) addr key (expected_len mod 2 ^ 32) wait_ms;
              f1 = await env f in
          (case peer_res of
             Inr data \<Rightarrow>
               if length data \<noteq> expected_len then (Inr None, bump ''peer_fetches_err'' 1 f1)
               else
                 let f2 = bump ''peer_fetch_bytes'' (int (length data)) (bump ''peer_fetches_ok'' 1 f1);
                     f3 = (if f_cache_on_peer_fetch f2 then spawn_insert key data f2
                           else case f_peer_lru f2 of
                             Some p \<Rightarrow> f2\<lparr>f_peer_lru := Some (peer_lru_put (fe_lru env) key data p)\<rparr>
                           | None \<Rightarrow> f2) in
                 (Inr (Some data), note_fetch_origin (key_mount key) (key_blob key) False f3)
           | Inl (NotFound _) \<Rightarrow>
               let f2 = bump ''peer_fetches_miss'' 1 f1 in
               (Inr None,
                if was_yes
                then bump ''peer_bloom_stale_drops'' 1
                       ((bump ''peer_bloom_false_positive'' 1 f2)\<lparr>f_peer_index := drop_remote (n_id peer) (f_peer_index f2)\<rparr>)
                else f2)
           | Inl e \<Rightarrow> (Inr None, bump ''peer_fetches_err'' 1 f1)))"

fun try_peers ::
  "'l fetch_env \<Rightarrow> chunk_key \<Rightarrow> nat \<Rightarrow> (bool \<times> node_info) list \<Rightarrow> 'l fetcher \<Rightarrow> bytes option result \<times> 'l fetcher"
where
  "try_peers env key expected_len [] f = (Inr None, f)"
| "try_peers env key expected_len ((was_yes, peer) # ps) f =
     (case try_peer_fetch env peer key expected_len was_yes 0 f of
        (Inl e, f') \<Rightarrow> (Inl e, f')
      | (Inr (Some data), f') \<Rightarrow> (Inr (Some data), f')
      | (Inr None, f') \<Rightarrow> try_peers env key expected_len ps f')"

definition stampede ::
  "'l fetch_env \<Rightarrow> node_info list \<Rightarrow> nat \<Rightarrow> chunk_key \<Rightarrow> nat \<Rightarrow> 'l fetcher \<Rightarrow> bytes option result \<times> 'l fetcher"
where
  "stampede env alive yes_count key expected_len f =
     (if yes_count = 0 \<and> f_stampede_wait_ms f > 0 \<and> alive \<noteq> [] then
        let top = hrw_top_id (fe_sha env) key alive (f_peer_index f) in
        if top \<noteq> pi_me_id (f_peer_index f) then
          (case find (\<lambda>n. n_id n = top) alive of
             None \<Rightarrow> (Inr None, f)
           | Some peer \<Rightarrow>
               (case try_peer_fetch env peer key expected_len False (f_stampede_wait_ms f) (bump ''peer_stampede_follower'' 1 f) of
                  (Inl e, f') \<Rightarrow> (Inl e, f')
                | (Inr (Some data), f') \<Rightarrow> (Inr (Some data), bump ''peer_stampede_follower_ok'' 1 f')
                | (Inr None, f') \<Rightarrow> (Inr None, bump ''peer_stampede_follower_timeout'' 1 f')))
        else (Inr None, bump ''peer_stampede_leader'' 1 f)
      else (Inr None, f))"

definition real_path :: "mount_config \<Rightarrow> string \<Rightarrow> string" where
  "real_path m blob_path =
     (if m_prefix m = [] then blob_path else trim_end_matches CHR ''/'' (m_prefix m) @ ''/'' @ blob_path)"

definition fetch_blob_direct ::
  "'l fetch_env \<Rightarrow> mount_config \<Rightarrow> string \<Rightarrow> chunk_key \<Rightarrow> nat \<Rightarrow> 'l fetcher \<Rightarrow> bytes result \<times> 'l fetcher"
where
  "fetch_blob_direct env m blob_path key expected_len f =
     (let r = fe_blob env (f_clock f) (m_name m) (m_account m) (m_container m) (real_path m blob_path) (key_offset key) (f_chunk_size f);
          f1 = await env f in
      case r of
        Inl e \<Rightarrow> (Inl e, f1)
      | Inr data \<Rightarrow>
          if length data \<noteq> expected_len
          then (Inl (Other (''blob returned wrong length: got '' @ show_dec (length data) @ '' want '' @ show_dec expected_len
                  @ '' for '' @ blob_path @ ''@'' @ show_dec (key_offset key))), f1)
          else (Inr data,
                note_fetch_origin (key_mount key) (key_blob key) True
                  (spawn_insert key data (bump ''blob_fetch_bytes'' (int (length data)) (bump ''blob_fetches'' 1 f1)))))"

definition ask_peers ::
  "'l fetch_env \<Rightarrow> chunk_key \<Rightarrow> nat \<Rightarrow> 'l fetcher \<Rightarrow> bytes option result \<times> 'l fetcher"
where
  "ask_peers env key expected_len f =
     (let alive = members_alive (f_membership f);
          cand = rank_candidates (fe_sha env) key alive (f_peer_max_yes_attempts f) (f_peer_max_maybe_attempts f) (f_peer_index f);
          yes_count = length (cand_yes cand);
          f1 = (if yes_count > 0 then bump ''peer_bloom_yes'' 1 f
                else if alive \<noteq> [] then bump ''peer_bloom_no_holder'' 1 f else f);
          ordered = map (Pair True) (cand_yes cand) @ map (Pair False) (cand_maybe cand) in
      case try_peers env key expected_len ordered f1 of
        (Inl e, f2) \<Rightarrow> (Inl e, f2)
      | (Inr (Some data), f2) \<Rightarrow> (Inr (Some data), f2)
      | (Inr None, f2) \<Rightarrow> stampede env alive yes_count key expected_len f2)"

definition do_fetch ::
  "'l fetch_env \<Rightarrow> mount_config \<Rightarrow> string \<Rightarrow> chunk_key \<Rightarrow> nat \<Rightarrow> bool \<Rightarrow> 'l fetcher \<Rightarrow> bytes result \<times> 'l fetcher"
where
  "do_fetch env m blob_path key expected_len bypass_peers f =
     (case (if bypass_peers then (Inr None, f) else ask_peers env key expected_len f) of
        (Inl e, f1) \<Rightarrow> (Inl e, f1)
      | (Inr (Some data), f1) \<Rightarrow> (Inr data, f1)
      | (Inr None, f1) \<Rightarrow> fetch_blob_direct env m blob_path key expected_len f1)"

section \<open>Fetching a chunk\<close>

definition sf_result :: "bytes result \<Rightarrow> sf_msg" where
  "sf_result r = (case r of Inr b \<Rightarrow> Inr b | Inl e \<Rightarrow> Inl (show_error e))"

definition lead ::
  "('l fetcher \<Rightarrow> bytes result \<times> 'l fetcher) \<Rightarrow> chunk_key \<Rightarrow> 'l fetcher \<Rightarrow> bytes result \<times> 'l fetcher"
where
  "lead fetch key f =
     (case fetch f of (r, f1) \<Rightarrow> (r, f1\<lparr>f_inflight := finish key (sf_result r) (f_inflight f1)\<rparr>))"

definition follow :: "'l fetch_env \<Rightarrow> chunk_key \<Rightarrow> nat \<Rightarrow> nat \<Rightarrow> 'l fetcher \<Rightarrow> bytes result \<times> 'l fetcher" where
  "follow env key expected_len ch f =
     (let f1 = await_on env (Some (ch, key)) f in
      case fe_recv env (f_clock f) (ch, key) (sf_sent (f_inflight f1)) of
        Received (Inr data) \<Rightarrow>
          (if length data \<noteq> expected_len
           then Inl (Other (''singleflight result wrong len: got '' @ show_dec (length data) @ '' want '' @ show_dec expected_len))
           else Inr data, f1)
      | Received (Inl e) \<Rightarrow> (Inl (Other e), f1)
      | RecvError \<Rightarrow>
          (case blocking env (\<lambda>fs. try_get (fe_sha env) fs key) f1 of
             (Inr (Some b), f2) \<Rightarrow>
               (if length b = expected_len then Inr b else Inl (Other ''singleflight leader dropped without result''), f2)
           | (_, f2) \<Rightarrow> (Inl (Other ''singleflight leader dropped without result''), f2)))"

definition join_or_lead ::
  "'l fetch_env \<Rightarrow> mount_config \<Rightarrow> string \<Rightarrow> chunk_key \<Rightarrow> nat \<Rightarrow> bool \<Rightarrow> 'l fetcher \<Rightarrow> bytes result \<times> 'l fetcher"
where
  "join_or_lead env m blob_path key expected_len bypass_peers f =
     (case elect key (f_inflight f) of
        (Some ch, s) \<Rightarrow> follow env key expected_len ch (bump ''singleflight_waits'' 1 (f\<lparr>f_inflight := s\<rparr>))
      | (None, s) \<Rightarrow> lead (do_fetch env m blob_path key expected_len bypass_peers) key (f\<lparr>f_inflight := s\<rparr>))"

definition lookup_stores ::
  "'l fetch_env \<Rightarrow> mount_config \<Rightarrow> string \<Rightarrow> chunk_key \<Rightarrow> nat \<Rightarrow> bool \<Rightarrow> 'l fetcher \<Rightarrow> bytes result \<times> 'l fetcher"
where
  "lookup_stores env m blob_path key expected_len bypass_peers f =
     (case lru_lookup env key expected_len f of
        (Some b, f1) \<Rightarrow> (Inr b, bump ''peer_lru_hits'' 1 f1)
      | (None, f1) \<Rightarrow>
          (case blocking env (\<lambda>fs. try_get (fe_sha env) fs key) f1 of
             (Inl e, f2) \<Rightarrow> (Inl (Other (''cache get join: '' @ e)), f2)
           | (Inr (Some b), f2) \<Rightarrow>
               if length b = expected_len then (Inr b, f2)
               else join_or_lead env m blob_path key expected_len bypass_peers
                      (snd (blocking env (\<lambda>fs. remove_chunk (fe_sha env) fs key) f2))
           | (Inr None, f2) \<Rightarrow> join_or_lead env m blob_path key expected_len bypass_peers f2))"

definition fetch_chunk_inner ::
  "'l fetch_env \<Rightarrow> mount_config \<Rightarrow> string \<Rightarrow> nat \<Rightarrow> nat \<Rightarrow> bool \<Rightarrow> 'l fetcher \<Rightarrow> bytes result \<times> 'l fetcher"
where
  "fetch_chunk_inner env m blob_path off expected_len bypass_peers f =
     (let key = \<lparr>key_mount = m_name m, key_blob = blob_path, key_offset = off\<rparr> in
      case map_of (f_inflight_writes f) key of
        Some b \<Rightarrow> if length b = expected_len then (Inr b, f) else lookup_stores env m blob_path key expected_len bypass_peers f
      | None \<Rightarrow> lookup_stores env m blob_path key expected_len bypass_peers f)"

definition fetch_chunk ::
  "'l fetch_env \<Rightarrow> mount_config \<Rightarrow> string \<Rightarrow> nat \<Rightarrow> nat \<Rightarrow> 'l fetcher \<Rightarrow> bytes result \<times> 'l fetcher"
where
  "fetch_chunk env m blob_path off expected_len f = fetch_chunk_inner env m blob_path off expected_len False f"

definition fetch_chunk_origin_only ::
  "'l fetch_env \<Rightarrow> mount_config \<Rightarrow> string \<Rightarrow> nat \<Rightarrow> nat \<Rightarrow> 'l fetcher \<Rightarrow> bytes result \<times> 'l fetcher"
where
  "fetch_chunk_origin_only env m blob_path off expected_len f = fetch_chunk_inner env m blob_path off expected_len True f"

definition byte_slice :: "nat \<Rightarrow> nat \<Rightarrow> bytes \<Rightarrow> bytes" where
  "byte_slice off len b = take len (drop off b)"

definition range_miss ::
  "'l fetch_env \<Rightarrow> mount_config \<Rightarrow> string \<Rightarrow> nat \<Rightarrow> nat \<Rightarrow> nat \<Rightarrow> nat \<Rightarrow> 'l fetcher \<Rightarrow> bytes result \<times> 'l fetcher"
where
  "range_miss env m blob_path chunk_offset sub_offset sub_len expected_chunk_len f =
     (case fetch_chunk_inner env m blob_path chunk_offset expected_chunk_len False f of
        (Inl e, f1) \<Rightarrow> (Inl e, f1)
      | (Inr full, f1) \<Rightarrow>
          (if sub_offset + sub_len > length full
           then Inl (Other (''fetched chunk shorter than requested byte_slice: have '' @ show_dec (length full)
                  @ '' need '' @ show_dec (sub_offset + sub_len)))
           else Inr (byte_slice sub_offset sub_len full), f1))"

definition range_cached ::
  "'l fetch_env \<Rightarrow> mount_config \<Rightarrow> string \<Rightarrow> nat \<Rightarrow> nat \<Rightarrow> nat \<Rightarrow> nat \<Rightarrow> 'l fetcher \<Rightarrow> bytes result \<times> 'l fetcher"
where
  "range_cached env m blob_path chunk_offset sub_offset sub_len expected_chunk_len f =
     (let key = \<lparr>key_mount = m_name m, key_blob = blob_path, key_offset = chunk_offset\<rparr> in
      case blocking env (\<lambda>fs. try_get_range (fe_sha env) fs key sub_offset sub_len) f of
        (Inl e, f1) \<Rightarrow> (Inl (Other (''cache get join: '' @ e)), f1)
      | (Inr (Some b), f1) \<Rightarrow> (Inr b, f1)
      | (Inr None, f1) \<Rightarrow> range_miss env m blob_path chunk_offset sub_offset sub_len expected_chunk_len f1)"

definition range_lru ::
  "'l fetch_env \<Rightarrow> mount_config \<Rightarrow> string \<Rightarrow> nat \<Rightarrow> nat \<Rightarrow> nat \<Rightarrow> nat \<Rightarrow> 'l fetcher \<Rightarrow> bytes result \<times> 'l fetcher"
where
  "range_lru env m blob_path chunk_offset sub_offset sub_len expected_chunk_len f =
     (let key = \<lparr>key_mount = m_name m, key_blob = blob_path, key_offset = chunk_offset\<rparr> in
      case lru_lookup env key expected_chunk_len f of
        (Some b, f1) \<Rightarrow>
          if sub_offset + sub_len \<le> length b
          then (Inr (byte_slice sub_offset sub_len b), bump ''peer_lru_hits'' 1 f1)
          else range_cached env m blob_path chunk_offset sub_offset sub_len expected_chunk_len f1
      | (None, f1) \<Rightarrow> range_cached env m blob_path chunk_offset sub_offset sub_len expected_chunk_len f1)"

definition fetch_chunk_range_inner ::
  "'l fetch_env \<Rightarrow> mount_config \<Rightarrow> string \<Rightarrow> nat \<Rightarrow> nat \<Rightarrow> nat \<Rightarrow> nat \<Rightarrow> 'l fetcher \<Rightarrow> bytes result \<times> 'l fetcher"
where
  "fetch_chunk_range_inner env m blob_path chunk_offset sub_offset sub_len expected_chunk_len f =
     (if sub_len = 0 then (Inr [], f)
      else
        let key = \<lparr>key_mount = m_name m, key_blob = blob_path, key_offset = chunk_offset\<rparr> in
        (case map_of (f_inflight_writes f) key of
           Some b \<Rightarrow>
             if sub_offset + sub_len \<le> length b then (Inr (byte_slice sub_offset sub_len b), f)
             else range_lru env m blob_path chunk_offset sub_offset sub_len expected_chunk_len f
         | None \<Rightarrow> range_lru env m blob_path chunk_offset sub_offset sub_len expected_chunk_len f))"

section \<open>Serving and pulling chunks\<close>

definition serve_lead ::
  "'l fetch_env \<Rightarrow> chunk_key \<Rightarrow> nat \<Rightarrow> 'l fetcher \<Rightarrow> bytes option \<times> 'l fetcher"
where
  "serve_lead env key expected_len f =
     (case map_of (f_mounts f) (key_mount key) of
        None \<Rightarrow> (None, f\<lparr>f_inflight := finish key (Inl ''unknown mount'') (f_inflight f)\<rparr>)
      | Some m \<Rightarrow>
          (case lead (fetch_blob_direct env m (key_blob key) key expected_len) key f of
             (Inr b, f1) \<Rightarrow> (Some b, f1)
           | (Inl _, f1) \<Rightarrow> (None, f1)))"

definition serve_join ::
  "'l fetch_env \<Rightarrow> chunk_key \<Rightarrow> nat \<Rightarrow> nat \<Rightarrow> 'l fetcher \<Rightarrow> bytes option \<times> 'l fetcher"
where
  "serve_join env key expected_len wait_ms f =
     (case elect key (f_inflight f) of
        (Some ch, s) \<Rightarrow>
          let f0 = f\<lparr>f_inflight := s\<rparr>; f1 = await_on env (Some (ch, key)) f0 in
          (if fe_timeout env (f_clock f0) then None
           else case fe_recv env (f_clock f0) (ch, key) (sf_sent (f_inflight f1)) of
             Received (Inr data) \<Rightarrow> if length data = expected_len then Some data else None
           | _ \<Rightarrow> None, f1)
      | (None, s) \<Rightarrow> serve_lead env key expected_len (f\<lparr>f_inflight := s\<rparr>))"

definition serve_peer_chunk ::
  "'l fetch_env \<Rightarrow> chunk_key \<Rightarrow> nat \<Rightarrow> nat \<Rightarrow> 'l fetcher \<Rightarrow> bytes option \<times> 'l fetcher"
where
  "serve_peer_chunk env key expected_len wait_ms f =
     (case blocking env (\<lambda>fs. try_get (fe_sha env) fs key) f of
        (Inr (Some b), f1) \<Rightarrow>
          if length b = expected_len then (Some b, f1) else serve_join env key expected_len wait_ms f1
      | (_, f1) \<Rightarrow> serve_join env key expected_len wait_ms f1)"

definition pull_from ::
  "'l fetch_env \<Rightarrow> mount_config \<Rightarrow> chunk_key \<Rightarrow> nat \<Rightarrow> string \<Rightarrow> string \<Rightarrow> bytes option \<Rightarrow> nat \<Rightarrow> 'l fetcher \<Rightarrow> bytes result \<times> 'l fetcher"
where
  "pull_from env m key expected_len peer url addr wait_ms f =
     (let r = fe_peer env (f_clock f) peer url addr key (expected_len mod 2 ^ 32) wait_ms; f1 = await env f in
      case r of
        Inr data \<Rightarrow>
          if length data \<noteq> expected_len
          then (Inl (Other (''broadcast peer '' @ peer @ '' returned wrong length: got '' @ show_dec (length data) @ '' want ''
                  @ show_dec expected_len @ '' for '' @ key_blob key @ ''@'' @ show_dec (key_offset key))),
                bump ''peer_fetches_err'' 1 f1)
          else (Inr data, spawn_insert key data (bump ''peer_fetch_bytes'' (int (length data)) (bump ''peer_fetches_ok'' 1 f1)))
      | Inl (NotFound _) \<Rightarrow>
          (case fetch_chunk_origin_only env m (key_blob key) (key_offset key) expected_len (bump ''broadcast_peer_not_found'' 1 f1) of
             (Inr d, f2) \<Rightarrow> (Inr d, bump ''broadcast_blob_fallback_ok'' 1 f2)
           | (Inl e, f2) \<Rightarrow>
               (Inl (Other (''broadcast peer '' @ peer @ '' NotFound and blob fallback failed for '' @ key_blob key @ ''@''
                  @ show_dec (key_offset key) @ '': '' @ show_error e)), bump ''broadcast_blob_fallback_err'' 1 f2))
      | Inl e \<Rightarrow> (Inl e, f1))"

definition pull_chunk_from_peer_wait ::
  "'l fetch_env \<Rightarrow> mount_config \<Rightarrow> string \<Rightarrow> nat \<Rightarrow> nat \<Rightarrow> string \<Rightarrow> string \<Rightarrow> bytes option \<Rightarrow> nat \<Rightarrow> 'l fetcher \<Rightarrow>
   bytes result \<times> 'l fetcher"
where
  "pull_chunk_from_peer_wait env m blob_path off expected_len peer url addr wait_ms f =
     (let key = \<lparr>key_mount = m_name m, key_blob = blob_path, key_offset = off\<rparr> in
      case try_get (fe_sha env) (fe_fs env (f_clock f)) key (f_cache f) of
        (Some b, c) \<Rightarrow>
          if length b = expected_len then (Inr b, f\<lparr>f_cache := c\<rparr>)
          else pull_from env m key expected_len peer url addr wait_ms (f\<lparr>f_cache := c\<rparr>)
      | (None, c) \<Rightarrow> pull_from env m key expected_len peer url addr wait_ms (f\<lparr>f_cache := c\<rparr>))"

definition pull_chunk_from_peer ::
  "'l fetch_env \<Rightarrow> mount_config \<Rightarrow> string \<Rightarrow> nat \<Rightarrow> nat \<Rightarrow> string \<Rightarrow> string \<Rightarrow> bytes option \<Rightarrow> 'l fetcher \<Rightarrow> bytes result \<times> 'l fetcher"
where
  "pull_chunk_from_peer env m blob_path off expected_len peer url addr f =
     pull_chunk_from_peer_wait env m blob_path off expected_len peer url addr 0 f"

definition take_insert_failures :: "'l fetcher \<Rightarrow> (chunk_key \<times> string) list \<times> 'l fetcher" where
  "take_insert_failures f = (f_insert_failures f, f\<lparr>f_insert_failures := []\<rparr>)"

partial_function (option) await_inserts_drained :: "'l fetch_env \<Rightarrow> 'l fetcher \<Rightarrow> 'l fetcher option" where
  "await_inserts_drained env f =
     (if f_inflight_writes f = [] then Some f else await_inserts_drained env (await env f))"

text \<open>\<open>clear_local_state\<close>; no result when the writes never drain.\<close>

definition clear_state :: "'l fetch_env \<Rightarrow> bool \<Rightarrow> 'l fetcher \<Rightarrow> (nat \<times> nat) result \<times> 'l fetcher" where
  "clear_state env dir_readable f =
     (case clear_all (fe_sha env) (fe_fs env (f_clock f)) dir_readable (f_cache f) of
        (Inl e, c) \<Rightarrow> (Inl e, f\<lparr>f_cache := c\<rparr>)
      | (Inr r, c) \<Rightarrow>
          (Inr r,
           f\<lparr>f_cache := c, f_inflight := sf_clear (f_inflight f), f_inflight_writes := [], f_seq_state := [],
             f_counters := (f_counters f)(''inflight_writes'' := 0),
             f_peer_lru := map_option (peer_lru_clear (fe_lru env)) (f_peer_lru f),
             f_peer_index := fst (rebuild_local_from_cache (fe_sha env) (live_keys c) (f_peer_index f))\<rparr>))"

definition clear_local_state :: "'l fetch_env \<Rightarrow> bool \<Rightarrow> 'l fetcher \<Rightarrow> ((nat \<times> nat) result \<times> 'l fetcher) option" where
  "clear_local_state env dir_readable f = map_option (clear_state env dir_readable) (await_inserts_drained env f)"

section \<open>Reading a range\<close>

text \<open>The \<open>while\<close> loop of \<open>fetch_range\<close> that cuts a read into chunk sub-ranges:
  chunk offset, start in the chunk, length, chunk length. A chunk size of 0 is rejected by \<open>validate\<close>.\<close>

function chunk_plan :: "nat \<Rightarrow> nat \<Rightarrow> nat \<Rightarrow> nat \<Rightarrow> nat \<Rightarrow> nat \<Rightarrow> (nat \<times> nat \<times> nat \<times> nat) list" where
  "chunk_plan cs off end_off file_size last_chunk o_cur =
     (if o_cur > last_chunk \<or> cs = 0 then []
      else
        let chunk_len = min cs (file_size - o_cur);
            take_start = max off o_cur - o_cur;
            take_end = min end_off (o_cur + chunk_len) - o_cur in
        (o_cur, take_start, take_end - take_start, chunk_len) #
        (if o_cur + cs > U64_MAX then [] else chunk_plan cs off end_off file_size last_chunk (o_cur + cs)))"
  by pat_completeness auto
termination by (relation "measure (\<lambda>(cs, off, e, fsz, l, cur). Suc l - cur)") auto

declare chunk_plan.simps [simp del]

text \<open>The spawned tasks and their joins. The first error is returned.\<close>

fun run_tasks ::
  "'l fetch_env \<Rightarrow> mount_config \<Rightarrow> string \<Rightarrow> (nat \<times> nat \<times> nat \<times> nat) list \<Rightarrow> 'l fetcher \<Rightarrow> (nat \<times> bytes) list result \<times> 'l fetcher"
where
  "run_tasks env m blob_path [] f = (Inr [], f)"
| "run_tasks env m blob_path ((o_cur, take_start, sub_len, chunk_len) # plan) f =
     (let f1 = bump ''chunk_permits_in_use'' 1 (await env f) in
      case fetch_chunk_range_inner env m blob_path o_cur take_start sub_len chunk_len f1 of
        (r, f2) \<Rightarrow>
          let f3 = await env (bump ''chunk_permits_in_use'' (- 1) f2);
              joined = (case fe_join env (f_clock f2) of Some e \<Rightarrow> Inl (Other (''join: '' @ e)) | None \<Rightarrow> r) in
          (case run_tasks env m blob_path plan f3 of
             (rest, f4) \<Rightarrow> (rbind joined (\<lambda>b. rbind rest (\<lambda>bs. Inr ((o_cur, b) # bs))), f4)))"

text \<open>\<open>maybe_trigger_prefetch\<close> with the chunks (offset, length) it spawns fetches for.\<close>

fun prefetch_loop ::
  "mount_config \<Rightarrow> string \<Rightarrow> nat \<Rightarrow> nat \<Rightarrow> nat list \<Rightarrow> 'l fetcher \<Rightarrow> (nat \<times> nat) list \<times> 'l fetcher"
where
  "prefetch_loop m blob_path cur_chunk file_size [] f = ([], f)"
| "prefetch_loop m blob_path cur_chunk file_size (i # is) f =
     (let cs = f_chunk_size f; off = u64_add cur_chunk (u64_mul i cs) in
      if off \<ge> file_size then ([], f)
      else
        let chunk_len = min cs (file_size - off);
            ck = \<lparr>key_mount = m_name m, key_blob = blob_path, key_offset = off\<rparr> in
        if entry_size ck (f_cache f) \<noteq> None
        then prefetch_loop m blob_path cur_chunk file_size is (bump ''prefetch_skipped_cached'' 1 f)
        else if map_of (f_inflight_writes f) ck \<noteq> None \<or> map_of (sf_inflight (f_inflight f)) ck \<noteq> None
        then prefetch_loop m blob_path cur_chunk file_size is (bump ''prefetch_skipped_inflight'' 1 f)
        else (case prefetch_loop m blob_path cur_chunk file_size is (bump ''prefetch_spawned'' 1 f) of
                (jobs, f') \<Rightarrow> ((off, chunk_len) # jobs, f')))"

definition note_read :: "string \<Rightarrow> nat \<Rightarrow> nat \<Rightarrow> 'l fetcher \<Rightarrow> seq_state \<times> 'l fetcher" where
  "note_read k req_offset req_end f =
     (let e = seq_entry k f;
          forward = (req_offset \<ge> last_end e \<and> req_offset - last_end e \<le> f_chunk_size f);
          e' = e\<lparr>consecutive := (if forward then sat_add32 (consecutive e) 1 else 1), last_end := req_end\<rparr> in
      (e', f\<lparr>f_seq_state := AList.update k e' (f_seq_state f)\<rparr>))"

definition maybe_trigger_prefetch ::
  "mount_config \<Rightarrow> string \<Rightarrow> nat \<Rightarrow> nat \<Rightarrow> nat \<Rightarrow> 'l fetcher \<Rightarrow> (nat \<times> nat) list \<times> 'l fetcher"
where
  "maybe_trigger_prefetch m blob_path req_offset req_end file_size f =
     (if f_prefetch_depth f = 0 then ([], f)
      else case note_read (seq_key (m_name m) blob_path) req_offset req_end f of
        (e, f1) \<Rightarrow>
          if consecutive e < f_prefetch_threshold f then ([], f1)
          else if f_prefetch_origin_only f \<and> blob_streak e = 0 then ([], bump ''prefetch_skipped_not_origin'' 1 f1)
          else
            let cur_chunk = (if req_end = 0 then 0 else ((req_end - 1) div f_chunk_size f) * f_chunk_size f) in
            prefetch_loop m blob_path cur_chunk file_size [1..<Suc (f_prefetch_depth f)] f1)"

text \<open>The spawned prefetch task.\<close>

definition prefetch_task ::
  "'l fetch_env \<Rightarrow> bool \<Rightarrow> mount_config \<Rightarrow> string \<Rightarrow> nat \<times> nat \<Rightarrow> 'l fetcher \<Rightarrow> 'l fetcher"
where
  "prefetch_task env origin_only m blob_path job f =
     (case (if origin_only then fetch_chunk_origin_only env m blob_path (fst job) (snd job) (await env f)
            else fetch_chunk env m blob_path (fst job) (snd job) (await env f)) of
        (Inr _, f') \<Rightarrow> bump ''prefetch_completed_ok'' 1 f'
      | (Inl _, f') \<Rightarrow> bump ''prefetch_completed_err'' 1 f')"

definition fetch_range ::
  "'l fetch_env \<Rightarrow> mount_config \<Rightarrow> string \<Rightarrow> nat \<Rightarrow> nat \<Rightarrow> nat \<Rightarrow> 'l fetcher \<Rightarrow> bytes result \<times> 'l fetcher"
where
  "fetch_range env m blob_path off len file_size f =
     (if len = 0 then (Inr [], f)
      else if len > MAX_READ_BYTES
      then (Inl (Other (''read length '' @ show_dec len @ '' exceeds MAX_READ_BYTES '' @ show_dec MAX_READ_BYTES)), f)
      else
        let cs = f_chunk_size f; end_off = min (sat_add off len) file_size in
        if end_off \<le> off then (Inr [], f)
        else
          let first_chunk = (off div cs) * cs; last_chunk = ((end_off - 1) div cs) * cs;
              f1 = snd (maybe_trigger_prefetch m blob_path off end_off file_size f) in
          (case run_tasks env m blob_path (chunk_plan cs off end_off file_size last_chunk first_chunk) f1 of
             (Inl e, f2) \<Rightarrow> (Inl e, f2)
           | (Inr chunks, f2) \<Rightarrow>
               let sorted_chunks = sort_key fst chunks in
               (Inr (if length sorted_chunks = 1 then snd (hd sorted_chunks) else concat (map snd sorted_chunks)), f2)))"

end
