(* ===== verification/FetchProps.thy ===== *)
theory FetchProps
  imports Fetcher
begin

text \<open>
  Properties of the fetcher: whatever the stores, the peers, concurrent tasks and failures do, a read
  returns exactly the requested bytes of the origin blob or an error; with a healthy origin it does not
  fail; reads are cut into the right chunk sub-ranges; and prefetching stays within its budget.
\<close>

section \<open>The world of a fetcher\<close>

text \<open>The environment, the blobs of the storage accounts, the mounts, the chunk size and the chunk keys
  the node handles, with no two file names of those keys colliding (\<open>genuine\<close> asks for that).\<close>

record 'l world =
  w_env :: "'l fetch_env"
  w_view :: "'l \<Rightarrow> (chunk_key \<times> bytes) list"
  w_blob :: "string \<Rightarrow> string \<Rightarrow> string \<Rightarrow> bytes"
  w_mounts :: "(string, mount_config) hmap"
  w_cs :: nat
  w_keys :: "chunk_key set"

definition origin :: "'l world \<Rightarrow> mount_config \<Rightarrow> string \<Rightarrow> bytes" where
  "origin w m blob_path = w_blob w (m_account m) (m_container m) (real_path m blob_path)"

definition chunk_of :: "'l world \<Rightarrow> chunk_key \<Rightarrow> bytes" where
  "chunk_of w key =
     (case map_of (w_mounts w) (key_mount key) of
        None \<Rightarrow> []
      | Some m \<Rightarrow> byte_slice (key_offset key) (w_cs w) (origin w m (key_blob key)))"

definition fetcher_ok :: "'l world \<Rightarrow> 'l fetcher \<Rightarrow> bool" where
  "fetcher_ok w f \<longleftrightarrow>
     f_chunk_size f = w_cs w \<and> f_mounts f = w_mounts w \<and>
     genuine (fe_sha (w_env w)) (chunk_of w) (w_keys w) (f_cache f) \<and>
     (\<forall>k b. map_of (f_inflight_writes f) k = Some b \<longrightarrow> k \<in> w_keys w \<longrightarrow> b = chunk_of w k) \<and>
     (\<forall>k b. (k, b) \<in> set (f_insert_tasks f) \<longrightarrow> k \<in> w_keys w \<and> b = chunk_of w k) \<and>
     (\<forall>p. f_peer_lru f = Some p \<longrightarrow> lru_genuine (fe_lru (w_env w)) (w_view w) (chunk_of w) (w_keys w) p) \<and>
     (\<forall>ch k b. (ch, k, Inr b) \<in> set (sf_sent (f_inflight f)) \<longrightarrow> k \<in> w_keys w \<longrightarrow> b = chunk_of w k)"

text \<open>What is assumed of the rest of the world: a receiver gets only messages sent on its channel; a
  chunk read from the origin holds that range of the blob; a peer's answer is the chunk asked for; and the other
  tasks of the node keep the invariant.\<close>

definition world_ok :: "'l world \<Rightarrow> bool" where
  "world_ok w \<longleftrightarrow>
     (\<forall>t ch key log m. fe_recv (w_env w) t (ch, key) log = Received m \<longrightarrow> (ch, key, m) \<in> set log) \<and>
     (\<forall>t m blob_path off d. \<lparr>key_mount = m_name m, key_blob = blob_path, key_offset = off\<rparr> \<in> w_keys w \<longrightarrow>
        fe_blob (w_env w) t (m_name m) (m_account m) (m_container m) (real_path m blob_path) off (w_cs w) = Inr d \<longrightarrow>
        d = byte_slice off (w_cs w) (origin w m blob_path)) \<and>
     (\<forall>t peer url addr key len wait d. fe_peer (w_env w) t peer url addr key len wait = Inr d \<longrightarrow>
        key \<in> w_keys w \<longrightarrow> d = chunk_of w key) \<and>
     (\<forall>t c f. fetcher_ok w f \<longrightarrow> fetcher_ok w (fe_others (w_env w) t c f))"

text \<open>A world without failures of the origin, of joins and of singleflight leaders (a task that waits for
  a running leader gets its result); peers may still fail.\<close>

definition healthy :: "'l world \<Rightarrow> bool" where
  "healthy w \<longleftrightarrow>
     (\<forall>t. fe_join (w_env w) t = None) \<and>
     (\<forall>t ch key f. map_of (sf_inflight (f_inflight f)) key = Some ch \<longrightarrow>
        (\<exists>b. fe_recv (w_env w) t (ch, key) (sf_sent (f_inflight (fe_others (w_env w) t (Some (ch, key)) f))) = Received (Inr b))) \<and>
     (\<forall>t m blob_path off. map_of (w_mounts w) (m_name m) = Some m \<longrightarrow>
        \<lparr>key_mount = m_name m, key_blob = blob_path, key_offset = off\<rparr> \<in> w_keys w \<longrightarrow>
        (\<exists>d. fe_blob (w_env w) t (m_name m) (m_account m) (m_container m) (real_path m blob_path) off (w_cs w) = Inr d))"

lemma fetcher_okD:
  assumes "fetcher_ok w f"
  shows "f_chunk_size f = w_cs w" "f_mounts f = w_mounts w"
    "genuine (fe_sha (w_env w)) (chunk_of w) (w_keys w) (f_cache f)"
    "map_of (f_inflight_writes f) k = Some b \<Longrightarrow> k \<in> w_keys w \<Longrightarrow> b = chunk_of w k"
    "(k, b) \<in> set (f_insert_tasks f) \<Longrightarrow> k \<in> w_keys w \<and> b = chunk_of w k"
    "f_peer_lru f = Some p \<Longrightarrow> lru_genuine (fe_lru (w_env w)) (w_view w) (chunk_of w) (w_keys w) p"
    "(ch, k, Inr b) \<in> set (sf_sent (f_inflight f)) \<Longrightarrow> k \<in> w_keys w \<Longrightarrow> b = chunk_of w k"
  using assms unfolding fetcher_ok_def by blast+

lemma world_okD:
  assumes "world_ok w"
  shows "fe_recv (w_env w) t (ch, key) log = Received m \<Longrightarrow> (ch, key, m) \<in> set log"
    "\<lparr>key_mount = m_name mc, key_blob = blob_path, key_offset = off\<rparr> \<in> w_keys w \<Longrightarrow>
     fe_blob (w_env w) t (m_name mc) (m_account mc) (m_container mc) (real_path mc blob_path) off (w_cs w) = Inr d \<Longrightarrow>
     d = byte_slice off (w_cs w) (origin w mc blob_path)"
    "fe_peer (w_env w) t peer url addr key len wait = Inr d \<Longrightarrow> key \<in> w_keys w \<Longrightarrow> d = chunk_of w key"
    "fetcher_ok w f \<Longrightarrow> fetcher_ok w (fe_others (w_env w) t c f)"
  using assms unfolding world_ok_def by simp_all

text \<open>Fields the invariant does not mention.\<close>

lemma fetcher_ok_frame [simp]:
  "fetcher_ok w (f\<lparr>f_clock := t\<rparr>) = fetcher_ok w f"
  "fetcher_ok w (f\<lparr>f_seq_state := q\<rparr>) = fetcher_ok w f"
  "fetcher_ok w (f\<lparr>f_peer_index := p\<rparr>) = fetcher_ok w f"
  "fetcher_ok w (f\<lparr>f_counters := c\<rparr>) = fetcher_ok w f"
  "fetcher_ok w (f\<lparr>f_insert_failures := i\<rparr>) = fetcher_ok w f"
  by (simp_all add: fetcher_ok_def)

lemma bump_ok [simp]: "fetcher_ok w (bump n i f) = fetcher_ok w f"
  by (simp add: bump_def)

lemma bump_fields [simp]:
  "f_peer_lru (bump n i f) = f_peer_lru f" "f_inflight (bump n i f) = f_inflight f" "f_clock (bump n i f) = f_clock f"
  "f_cache_on_peer_fetch (bump n i f) = f_cache_on_peer_fetch f" "f_chunk_size (bump n i f) = f_chunk_size f"
  "f_cache (bump n i f) = f_cache f" "f_inflight_writes (bump n i f) = f_inflight_writes f"
  by (simp_all add: bump_def)

lemma await_on_ok: "world_ok w \<Longrightarrow> fetcher_ok w f \<Longrightarrow> fetcher_ok w (await_on (w_env w) c f)"
  by (simp add: await_on_def world_ok_def)

lemma await_ok: "world_ok w \<Longrightarrow> fetcher_ok w f \<Longrightarrow> fetcher_ok w (await (w_env w) f)"
  by (simp add: await_def await_on_ok)

lemma cache_ok:
  "fetcher_ok w f \<Longrightarrow> genuine (fe_sha (w_env w)) (chunk_of w) (w_keys w) c \<Longrightarrow> fetcher_ok w (f\<lparr>f_cache := c\<rparr>)"
  by (simp add: fetcher_ok_def)

lemma note_fetch_origin_ok [simp]: "fetcher_ok w (note_fetch_origin a b c f) = fetcher_ok w f"
  by (simp add: note_fetch_origin_def Let_def)

lemma spawn_insert_ok:
  "fetcher_ok w f \<Longrightarrow> key \<in> w_keys w \<Longrightarrow> fetcher_ok w (spawn_insert key (chunk_of w key) f)"
  unfolding spawn_insert_def bump_ok by (auto simp: fetcher_ok_def map_simps)

lemma blocking_ok:
  assumes "world_ok w" "fetcher_ok w f" "blocking (w_env w) operation f = (r, f')"
    and "\<And>fs c. genuine (fe_sha (w_env w)) (chunk_of w) (w_keys w) c \<Longrightarrow>
      genuine (fe_sha (w_env w)) (chunk_of w) (w_keys w) (snd (operation fs c))"
  shows "fetcher_ok w f' \<and> (\<forall>a. r = Inr a \<longrightarrow> (\<exists>fs c'. operation fs (f_cache f) = (a, c'))) \<and>
    (fe_join (w_env w) (f_clock f) = None \<longrightarrow> (\<exists>a. r = Inr a))"
proof -
  obtain a c where o: "operation (fe_fs (w_env w) (f_clock f)) (f_cache f) = (a, c)" by force
  have "genuine (fe_sha (w_env w)) (chunk_of w) (w_keys w) c"
    using assms(4) [OF fetcher_okD(3) [OF assms(2)], of "fe_fs (w_env w) (f_clock f)"] o by simp
  then have "fetcher_ok w (await (w_env w) (f\<lparr>f_cache := c\<rparr>))"
    using await_ok [OF assms(1)] cache_ok [OF assms(2)] by blast
  with assms(3) o show ?thesis by (auto simp: blocking_def Let_def split: option.splits)
qed

lemma blocking_get_ok:
  assumes "world_ok w" "fetcher_ok w f" "key \<in> w_keys w"
    and "blocking (w_env w) (\<lambda>fs. try_get (fe_sha (w_env w)) fs key) f = (r, f')"
  shows "fetcher_ok w f' \<and> (\<forall>b. r = Inr (Some b) \<longrightarrow> b = chunk_of w key) \<and>
    (healthy w \<longrightarrow> (\<exists>a. r = Inr a))"
proof -
  have b: "fetcher_ok w f' \<and> (\<forall>a. r = Inr a \<longrightarrow> (\<exists>fs c'. try_get (fe_sha (w_env w)) fs key (f_cache f) = (a, c'))) \<and>
    (fe_join (w_env w) (f_clock f) = None \<longrightarrow> (\<exists>a. r = Inr a))"
    by (rule blocking_ok [OF assms(1,2,4)]) (rule disk.get_ok)
  moreover have "b = chunk_of w key" if "try_get (fe_sha (w_env w)) fs key (f_cache f) = (Some b, c')" for b fs c'
    using disk.get_sound [OF fetcher_okD(3) [OF assms(2)] assms(3) that] .
  ultimately show ?thesis by (auto simp: healthy_def)
qed

lemma lru_lookup_ok:
  assumes "fetcher_ok w f" "key \<in> w_keys w" "lru_lookup (w_env w) key len f = (r, f')"
  shows "fetcher_ok w f' \<and> (\<forall>b. r = Some b \<longrightarrow> b = chunk_of w key)"
proof (cases "f_peer_lru f")
  case (Some p)
  obtain hit p' where g: "peer_lru_get (fe_lru (w_env w)) key p = (hit, p')" by force
  note h = plru.get_genuine [OF fetcher_okD(6) [OF assms(1) Some] assms(2) g]
  then have "fetcher_ok w (f\<lparr>f_peer_lru := Some p'\<rparr>)" using assms(1) by (auto simp: fetcher_ok_def)
  with assms(3) Some g h show ?thesis by (auto simp: lru_lookup_def Let_def split: option.splits if_splits)
qed (use assms in \<open>simp add: lru_lookup_def\<close>)

section \<open>Peers and origin\<close>

lemma try_peer_fetch_ok:
  assumes "world_ok w" "fetcher_ok w f" "key \<in> w_keys w" "try_peer_fetch (w_env w) peer key len was_yes wait_ms f = (r, f')"
  shows "fetcher_ok w f' \<and> (\<exists>a. r = Inr a \<and> (\<forall>b. a = Some b \<longrightarrow> b = chunk_of w key))"
proof -
  have a: "fetcher_ok w (await (w_env w) f)" using await_ok [OF assms(1,2)] .
  have p: "d = chunk_of w key" if "fe_peer (w_env w) t i u ad key l wt = Inr d" for t i u ad l wt d
    using world_okD(3) [OF assms(1) that assms(3)] .
  have put: "fetcher_ok w (g\<lparr>f_peer_lru := Some (peer_lru_put (fe_lru (w_env w)) key (chunk_of w key) q)\<rparr>)"
    if "fetcher_ok w g" "f_peer_lru g = Some q" for g q
    using that plru.put_ok [OF fetcher_okD(6) [OF that] assms(3)] by (auto simp: fetcher_ok_def)
  show ?thesis
  proof (cases "worker_addr (w_env w) peer")
    case (Some addr)
    show ?thesis
    proof (cases "fe_peer (w_env w) (f_clock f) (n_id peer) (transport_url peer) addr key (len mod 2 ^ 32) wait_ms")
      case (Inl e)
      with assms(4) Some a show ?thesis by (cases e) (auto simp: try_peer_fetch_def Let_def split: if_splits)
    next
      case (Inr d)
      then have d: "d = chunk_of w key" by (rule p)
      let ?f2 = "bump ''peer_fetch_bytes'' (int (length d)) (bump ''peer_fetches_ok'' 1 (await (w_env w) f))"
      let ?f3 = "if f_cache_on_peer_fetch ?f2 then spawn_insert key d ?f2
        else case f_peer_lru ?f2 of Some q \<Rightarrow> ?f2\<lparr>f_peer_lru := Some (peer_lru_put (fe_lru (w_env w)) key d q)\<rparr> | None \<Rightarrow> ?f2"
      have f2: "fetcher_ok w ?f2" using a by simp
      have "fetcher_ok w ?f3"
      proof (cases "f_cache_on_peer_fetch ?f2")
        case True
        with spawn_insert_ok [OF f2 assms(3)] d show ?thesis by simp
      next
        case False
        with put [OF f2] f2 d show ?thesis by (cases "f_peer_lru ?f2") simp_all
      qed
      then show ?thesis using assms(4) a unfolding try_peer_fetch_def Some Let_def option.case Inr sum.case
        by (cases "length d = len") (auto simp: d)
    qed
  qed (use assms in \<open>auto simp: try_peer_fetch_def\<close>)
qed

lemma try_peers_ok:
  assumes "world_ok w" "fetcher_ok w f" "key \<in> w_keys w" "try_peers (w_env w) key len ps f = (r, f')"
  shows "fetcher_ok w f' \<and> (\<exists>a. r = Inr a \<and> (\<forall>b. a = Some b \<longrightarrow> b = chunk_of w key))"
  using assms(2,4)
proof (induction ps arbitrary: f)
  case (Cons p ps)
  obtain y q where p: "p = (y, q)" by force
  obtain s g where g: "try_peer_fetch (w_env w) q key len y 0 f = (s, g)" by force
  note t = try_peer_fetch_ok [OF assms(1) Cons.prems(1) assms(3) g]
  with Cons p g show ?case by (auto split: option.splits)
qed auto

lemma stampede_ok:
  assumes "world_ok w" "fetcher_ok w f" "key \<in> w_keys w" "stampede (w_env w) alive n key len f = (r, f')"
  shows "fetcher_ok w f' \<and> (\<exists>a. r = Inr a \<and> (\<forall>b. a = Some b \<longrightarrow> b = chunk_of w key))"
proof -
  have t: "fetcher_ok w g \<and> (\<exists>a. s = Inr a \<and> (\<forall>b. a = Some b \<longrightarrow> b = chunk_of w key))"
    if "try_peer_fetch (w_env w) peer key len False wt (bump ''peer_stampede_follower'' 1 f) = (s, g)" for peer wt s g
    using try_peer_fetch_ok [OF assms(1) _ assms(3) that] assms(2) by simp
  let ?top = "hrw_top_id (fe_sha (w_env w)) key alive (f_peer_index f)"
  show ?thesis
  proof (cases "n = 0 \<and> f_stampede_wait_ms f > 0 \<and> alive \<noteq> [] \<and> ?top \<noteq> pi_me_id (f_peer_index f)")
    case cond: True
    show ?thesis
    proof (cases "find (\<lambda>n. n_id n = ?top) alive")
      case None
      with cond assms(4,2) show ?thesis by (auto simp: stampede_def Let_def)
    next
      case (Some peer)
      obtain s g where g: "try_peer_fetch (w_env w) peer key len False (f_stampede_wait_ms f) (bump ''peer_stampede_follower'' 1 f) = (s, g)"
        by force
      from t [OF g] obtain a where a: "fetcher_ok w g" "s = Inr a" "\<forall>b. a = Some b \<longrightarrow> b = chunk_of w key" by blast
      with cond Some g assms(4) show ?thesis by (cases a) (auto simp: stampede_def Let_def)
    qed
  next
    case False
    with assms(4,2) show ?thesis by (auto simp: stampede_def Let_def split: if_splits)
  qed
qed

lemma ask_peers_ok:
  assumes "world_ok w" "fetcher_ok w f" "key \<in> w_keys w" "ask_peers (w_env w) key len f = (r, f')"
  shows "fetcher_ok w f' \<and> (\<exists>a. r = Inr a \<and> (\<forall>b. a = Some b \<longrightarrow> b = chunk_of w key))"
proof -
  let ?alive = "members_alive (f_membership f)"
  let ?c = "rank_candidates (fe_sha (w_env w)) key ?alive (f_peer_max_yes_attempts f) (f_peer_max_maybe_attempts f) (f_peer_index f)"
  let ?f1 = "if length (cand_yes ?c) > 0 then bump ''peer_bloom_yes'' 1 f
      else if ?alive \<noteq> [] then bump ''peer_bloom_no_holder'' 1 f else f"
  obtain s g where g: "try_peers (w_env w) key len (map (Pair True) (cand_yes ?c) @ map (Pair False) (cand_maybe ?c)) ?f1 = (s, g)" by force
  have "fetcher_ok w ?f1" using assms(2) by simp
  note t = try_peers_ok [OF assms(1) this assms(3) g]
  show ?thesis
  proof (cases "s = Inr None")
    case True
    with assms(4) g have "stampede (w_env w) ?alive (length (cand_yes ?c)) key len g = (r, f')"
      by (simp add: ask_peers_def Let_def)
    with stampede_ok [OF assms(1) conjunct1 [OF t] assms(3)] show ?thesis by blast
  next
    case False
    with t obtain b where "s = Inr (Some b)" by (metis not_Some_eq)
    with t assms(4) g show ?thesis by (auto simp: ask_peers_def Let_def)
  qed
qed

lemma fetch_blob_direct_ok:
  assumes "world_ok w" "fetcher_ok w f" "key \<in> w_keys w" "map_of (w_mounts w) (m_name m) = Some m"
    and "key = \<lparr>key_mount = m_name m, key_blob = blob_path, key_offset = off\<rparr>"
    and "fetch_blob_direct (w_env w) m blob_path key len f = (r, f')"
  shows "fetcher_ok w f' \<and> (\<forall>b. r = Inr b \<longrightarrow> b = chunk_of w key) \<and>
    (healthy w \<and> len = length (chunk_of w key) \<longrightarrow> r = Inr (chunk_of w key))"
proof -
  have a: "fetcher_ok w (await (w_env w) f)" using await_ok [OF assms(1,2)] .
  let ?r = "fe_blob (w_env w) (f_clock f) (m_name m) (m_account m) (m_container m) (real_path m blob_path) (key_offset key) (f_chunk_size f)"
  have d: "d = chunk_of w key" if "?r = Inr d" for d
  proof -
    have "d = byte_slice off (w_cs w) (origin w m blob_path)"
      using world_okD(2) [OF assms(1), of m blob_path off] assms(3,5) that fetcher_okD(1) [OF assms(2)] by simp
    then show ?thesis using assms(4,5) by (simp add: chunk_of_def)
  qed
  show ?thesis
  proof (cases ?r)
    case (Inl e)
    have "\<exists>d. ?r = Inr d" if "healthy w"
      using that assms(3-5) fetcher_okD(1) [OF assms(2)] unfolding healthy_def by simp
    with Inl have "\<not> healthy w" by auto
    with Inl assms(6) a show ?thesis by (auto simp: fetch_blob_direct_def Let_def)
  next
    case (Inr b)
    with d have "?r = Inr (chunk_of w key)" by blast
    with assms(6) a show ?thesis
      by (auto simp: fetch_blob_direct_def Let_def spawn_insert_ok [OF _ assms(3)] split: if_splits)
  qed
qed

lemma do_fetch_ok:
  assumes "world_ok w" "fetcher_ok w f" "key \<in> w_keys w" "map_of (w_mounts w) (m_name m) = Some m"
    and "key = \<lparr>key_mount = m_name m, key_blob = blob_path, key_offset = off\<rparr>"
    and "do_fetch (w_env w) m blob_path key len bypass f = (r, f')"
  shows "fetcher_ok w f' \<and> (\<forall>b. r = Inr b \<longrightarrow> b = chunk_of w key) \<and>
    (healthy w \<and> len = length (chunk_of w key) \<longrightarrow> r = Inr (chunk_of w key))"
proof -
  obtain s g where g: "(if bypass then (Inr None, f) else ask_peers (w_env w) key len f) = (s, g)" by force
  have t: "fetcher_ok w g \<and> (\<exists>a. s = Inr a \<and> (\<forall>b. a = Some b \<longrightarrow> b = chunk_of w key))"
    using ask_peers_ok [OF assms(1-3)] g assms(2) by (auto split: if_splits)
  show ?thesis
  proof (cases "s = Inr None")
    case True
    with assms(6) g have "fetch_blob_direct (w_env w) m blob_path key len g = (r, f')" by (simp add: do_fetch_def)
    from fetch_blob_direct_ok [OF assms(1) conjunct1 [OF t] assms(3,4,5) this] show ?thesis .
  next
    case False
    with t obtain b where "s = Inr (Some b)" "b = chunk_of w key" by (metis not_Some_eq)
    with t assms(6) g show ?thesis by (auto simp: do_fetch_def)
  qed
qed

section \<open>Fetching a chunk\<close>

lemma inflight_ok:
  "fetcher_ok w f \<Longrightarrow> sf_sent s = sf_sent (f_inflight f) \<Longrightarrow> fetcher_ok w (f\<lparr>f_inflight := s\<rparr>)"
  by (simp add: fetcher_ok_def)

lemma elect_sent: "sf_sent (snd (elect key s)) = sf_sent s"
  by (simp add: elect_def split: option.splits)

lemma finish_ok:
  assumes "fetcher_ok w f" "\<And>b. msg = Inr b \<Longrightarrow> b = chunk_of w key"
  shows "fetcher_ok w (f\<lparr>f_inflight := finish key msg (f_inflight f)\<rparr>)"
  using assms by (auto simp: fetcher_ok_def finish_def disarm_def split: option.splits)

lemma lead_ok:
  assumes "fetcher_ok w f" "lead fetch key f = (r, f')"
    and "\<And>s g. fetch f = (s, g) \<Longrightarrow> fetcher_ok w g \<and> (\<forall>b. s = Inr b \<longrightarrow> b = chunk_of w key) \<and>
      (healthy w \<and> len = length (chunk_of w key) \<longrightarrow> s = Inr (chunk_of w key))"
  shows "fetcher_ok w f' \<and> (\<forall>b. r = Inr b \<longrightarrow> b = chunk_of w key) \<and>
    (healthy w \<and> len = length (chunk_of w key) \<longrightarrow> r = Inr (chunk_of w key))"
proof -
  obtain s g where g: "fetch f = (s, g)" by force
  note t = assms(3) [OF g]
  have "fetcher_ok w (g\<lparr>f_inflight := finish key (sf_result s) (f_inflight g)\<rparr>)"
  proof (rule finish_ok)
    show "fetcher_ok w g" using t by blast
    show "b = chunk_of w key" if "sf_result s = Inr b" for b using t that by (cases s) (simp_all add: sf_result_def)
  qed
  moreover have "r = s" "f' = g\<lparr>f_inflight := finish key (sf_result s) (f_inflight g)\<rparr>"
    using assms(2) g by (auto simp: lead_def)
  ultimately show ?thesis using t by blast
qed

lemma follow_ok:
  assumes "world_ok w" "fetcher_ok w f" "key \<in> w_keys w" "follow (w_env w) key len ch f = (r, f')"
    and "map_of (sf_inflight (f_inflight f)) key = Some ch"
  shows "fetcher_ok w f' \<and> (\<forall>b. r = Inr b \<longrightarrow> b = chunk_of w key) \<and>
    (healthy w \<and> len = length (chunk_of w key) \<longrightarrow> r = Inr (chunk_of w key))"
proof -
  let ?f1 = "await_on (w_env w) (Some (ch, key)) f"
  have a: "fetcher_ok w ?f1" using await_on_ok [OF assms(1,2)] .
  have recv: "b = chunk_of w key" if "fe_recv (w_env w) (f_clock f) (ch, key) (sf_sent (f_inflight ?f1)) = Received (Inr b)" for b
  proof -
    have "(ch, key, Inr b) \<in> set (sf_sent (f_inflight ?f1))" using world_okD(1) [OF assms(1) that] .
    from fetcher_okD(7) [OF a this assms(3)] show ?thesis .
  qed
  have get: "fetcher_ok w g \<and> (\<forall>b. s = Inr (Some b) \<longrightarrow> b = chunk_of w key)"
    if "blocking (w_env w) (\<lambda>fs. try_get (fe_sha (w_env w)) fs key) ?f1 = (s, g)" for s g
    using blocking_get_ok [OF assms(1) a assms(3) that] by blast
  have heal: "\<exists>b. fe_recv (w_env w) (f_clock f) (ch, key) (sf_sent (f_inflight ?f1)) = Received (Inr b)" if "healthy w"
    using that assms(5) by (simp add: healthy_def await_on_def)
  show ?thesis
  proof (cases "fe_recv (w_env w) (f_clock f) (ch, key) (sf_sent (f_inflight ?f1))")
    case (Received m)
    show ?thesis
    proof (cases m)
      case (Inl e)
      with Received have "\<not> healthy w" using heal by (metis recv_result.inject sum.distinct(1))
      with Inl Received assms(4) a show ?thesis by (auto simp: follow_def Let_def)
    next
      case (Inr b)
      with Received recv have b: "b = chunk_of w key" by blast
      from Inr Received assms(4) a b show ?thesis by (auto simp: follow_def Let_def split: if_splits)
    qed
  next
    case RecvError
    then have "\<not> healthy w" using heal by (metis recv_result.distinct(1))
    with RecvError assms(4) a get show ?thesis
      by (auto simp: follow_def Let_def split: if_splits prod.splits sum.splits option.splits)
  qed
qed

lemma join_or_lead_ok:
  assumes "world_ok w" "fetcher_ok w f" "key \<in> w_keys w" "map_of (w_mounts w) (m_name m) = Some m"
    and "key = \<lparr>key_mount = m_name m, key_blob = blob_path, key_offset = off\<rparr>"
    and "join_or_lead (w_env w) m blob_path key len bypass f = (r, f')"
  shows "fetcher_ok w f' \<and> (\<forall>b. r = Inr b \<longrightarrow> b = chunk_of w key) \<and>
    (healthy w \<and> len = length (chunk_of w key) \<longrightarrow> r = Inr (chunk_of w key))"
proof -
  obtain c s where e: "elect key (f_inflight f) = (c, s)" by force
  have ok: "fetcher_ok w (f\<lparr>f_inflight := s\<rparr>)"
    by (rule inflight_ok [OF assms(2)]) (use elect_sent [of key "f_inflight f"] e in simp)
  show ?thesis
  proof (cases c)
    case None
    with e assms(6) have "lead (do_fetch (w_env w) m blob_path key len bypass) key (f\<lparr>f_inflight := s\<rparr>) = (r, f')"
      by (simp add: join_or_lead_def)
    then show ?thesis by (rule lead_ok [OF ok _ do_fetch_ok [OF assms(1) ok assms(3,4,5)]])
  next
    case (Some ch)
    with e assms(6) have "follow (w_env w) key len ch (bump ''singleflight_waits'' 1 (f\<lparr>f_inflight := s\<rparr>)) = (r, f')"
      by (simp add: join_or_lead_def)
    moreover have "fetcher_ok w (bump ''singleflight_waits'' 1 (f\<lparr>f_inflight := s\<rparr>))" using ok by simp
    moreover have "map_of (sf_inflight (f_inflight (bump ''singleflight_waits'' 1 (f\<lparr>f_inflight := s\<rparr>)))) key = Some ch"
      using e Some by (auto simp: elect_def split: option.splits)
    ultimately show ?thesis using follow_ok [OF assms(1) _ assms(3)] by blast
  qed
qed

lemma lookup_stores_ok:
  assumes "world_ok w" "fetcher_ok w f" "key \<in> w_keys w" "map_of (w_mounts w) (m_name m) = Some m"
    and "key = \<lparr>key_mount = m_name m, key_blob = blob_path, key_offset = off\<rparr>"
    and "lookup_stores (w_env w) m blob_path key len bypass f = (r, f')"
  shows "fetcher_ok w f' \<and> (\<forall>b. r = Inr b \<longrightarrow> b = chunk_of w key) \<and>
    (healthy w \<and> len = length (chunk_of w key) \<longrightarrow> r = Inr (chunk_of w key))"
proof -
  obtain hit f1 where l: "lru_lookup (w_env w) key len f = (hit, f1)" by force
  note l' = lru_lookup_ok [OF assms(2,3) l]
  obtain g f2 where g: "blocking (w_env w) (\<lambda>fs. try_get (fe_sha (w_env w)) fs key) f1 = (g, f2)" by force
  note g' = blocking_get_ok [OF assms(1) conjunct1 [OF l'] assms(3) g]
  note join = join_or_lead_ok [OF assms(1) _ assms(3,4,5)]
  obtain x f3 where rm: "blocking (w_env w) (\<lambda>fs. remove_chunk (fe_sha (w_env w)) fs key) f2 = (x, f3)" by force
  have f3: "fetcher_ok w f3"
    using blocking_ok [OF assms(1) conjunct1 [OF g'] rm remove_chunk_genuine] by blast
  show ?thesis
  proof (cases hit)
    case (Some b)
    with l l' assms(6) have "r = Inr b" "f' = bump ''peer_lru_hits'' 1 f1" by (auto simp: lookup_stores_def)
    with Some l' show ?thesis by simp
  next
    case None
    note step = assms(6) [unfolded lookup_stores_def l None prod.case option.case g]
    consider (err) e where "g = Inl e" | (hit) b where "g = Inr (Some b)" "length b = len"
      | (wrong) b where "g = Inr (Some b)" "length b \<noteq> len" | (miss) "g = Inr None"
      by (metis not_None_eq sum.exhaust)
    then show ?thesis
    proof cases
      case err
      then have "\<not> healthy w" using g' by auto
      with err step g' show ?thesis by auto
    next
      case hit
      with step g' show ?thesis by auto
    next
      case wrong
      with step rm have "join_or_lead (w_env w) m blob_path key len bypass f3 = (r, f')" by simp
      from join [OF f3 this] show ?thesis .
    next
      case miss
      with step have "join_or_lead (w_env w) m blob_path key len bypass f2 = (r, f')" by simp
      from join [OF conjunct1 [OF g'] this] show ?thesis .
    qed
  qed
qed

lemma fetch_chunk_inner_ok:
  assumes "world_ok w" "fetcher_ok w f" "map_of (w_mounts w) (m_name m) = Some m"
    and "key = \<lparr>key_mount = m_name m, key_blob = blob_path, key_offset = off\<rparr>" "key \<in> w_keys w"
    and "fetch_chunk_inner (w_env w) m blob_path off len bypass f = (r, f')"
  shows "fetcher_ok w f' \<and> (\<forall>b. r = Inr b \<longrightarrow> b = chunk_of w key) \<and>
    (healthy w \<and> len = length (chunk_of w key) \<longrightarrow> r = Inr (chunk_of w key))"
proof (cases "\<exists>b. map_of (f_inflight_writes f) key = Some b \<and> length b = len")
  case True
  then obtain b where b: "map_of (f_inflight_writes f) key = Some b" "length b = len" by blast
  with assms(4,6) have "r = Inr b" "f' = f" by (auto simp: fetch_chunk_inner_def Let_def)
  with fetcher_okD(4) [OF assms(2) b(1) assms(5)] assms(2) show ?thesis by simp
next
  case False
  with assms(4,6) have "lookup_stores (w_env w) m blob_path key len bypass f = (r, f')"
    by (auto simp: fetch_chunk_inner_def Let_def split: option.splits if_splits)
  from lookup_stores_ok [OF assms(1,2,5,3,4) this] show ?thesis .
qed

section \<open>Sub-ranges and reads\<close>

lemma slice_slice: "a + n \<le> m \<Longrightarrow> byte_slice a n (byte_slice off m data) = byte_slice (off + a) n data"
  by (simp add: byte_slice_def take_drop min_def add.commute)

lemma range_miss_ok:
  assumes "world_ok w" "fetcher_ok w f" "map_of (w_mounts w) (m_name m) = Some m"
    and "key = \<lparr>key_mount = m_name m, key_blob = blob_path, key_offset = co\<rparr>" "key \<in> w_keys w"
    and "range_miss (w_env w) m blob_path co so sl len f = (r, f')"
  shows "fetcher_ok w f' \<and> (\<forall>b. r = Inr b \<longrightarrow> so + sl \<le> length (chunk_of w key) \<and> b = byte_slice so sl (chunk_of w key)) \<and>
    (healthy w \<and> len = length (chunk_of w key) \<and> so + sl \<le> len \<longrightarrow> (\<exists>b. r = Inr b))"
proof -
  obtain x g where g: "fetch_chunk_inner (w_env w) m blob_path co len False f = (x, g)" by force
  note t = fetch_chunk_inner_ok [OF assms(1-5) g]
  show ?thesis
  proof (cases x)
    case (Inl e)
    with g assms(6) have "r = Inl e" "f' = g" by (auto simp: range_miss_def)
    with t Inl show ?thesis by auto
  next
    case (Inr b)
    with t have b: "b = chunk_of w key" by blast
    show ?thesis
    proof (cases "so + sl > length b")
      case True
      with g assms(6) Inr have f: "f' = g" "\<exists>e. r = Inl e" by (auto simp: range_miss_def)
      have "fetcher_ok w f'" "\<And>c. r \<noteq> Inr c" using t f by auto
      moreover have "\<not> so + sl \<le> length (chunk_of w key)" using True b by simp
      ultimately show ?thesis by blast
    next
      case False
      with g assms(6) Inr have "f' = g" "r = Inr (byte_slice so sl b)" by (auto simp: range_miss_def)
      moreover have "fetcher_ok w g" "so + sl \<le> length (chunk_of w key)" using t False b by auto
      ultimately show ?thesis unfolding b by simp
    qed
  qed
qed

lemma range_cached_ok:
  assumes "world_ok w" "fetcher_ok w f" "map_of (w_mounts w) (m_name m) = Some m"
    and "key = \<lparr>key_mount = m_name m, key_blob = blob_path, key_offset = co\<rparr>" "key \<in> w_keys w" "0 < sl"
    and "range_cached (w_env w) m blob_path co so sl len f = (r, f')"
  shows "fetcher_ok w f' \<and> (\<forall>b. r = Inr b \<longrightarrow> so + sl \<le> length (chunk_of w key) \<and> b = byte_slice so sl (chunk_of w key)) \<and>
    (healthy w \<and> len = length (chunk_of w key) \<and> so + sl \<le> len \<longrightarrow> (\<exists>b. r = Inr b))"
proof -
  let ?op = "\<lambda>fs. try_get_range (fe_sha (w_env w)) fs key so sl"
  obtain x g where g: "blocking (w_env w) ?op f = (x, g)" by force
  have t: "fetcher_ok w g \<and> (\<forall>a. x = Inr a \<longrightarrow> (\<exists>fs c'. ?op fs (f_cache f) = (a, c'))) \<and>
      (fe_join (w_env w) (f_clock f) = None \<longrightarrow> (\<exists>a. x = Inr a))"
    by (rule blocking_ok [OF assms(1,2) g]) (rule try_get_genuine)
  note step = assms(7) [unfolded range_cached_def Let_def assms(4) [symmetric] g prod.case]
  consider (err) e where "x = Inl e" | (hit) b where "x = Inr (Some b)" | (miss) "x = Inr None"
    by (metis not_None_eq sum.exhaust)
  then show ?thesis
  proof cases
    case err
    then have "\<not> healthy w" using t by (auto simp: healthy_def)
    with err step t show ?thesis by auto
  next
    case hit
    with t obtain fs c' where "?op fs (f_cache f) = (Some b, c')" by blast
    from range_genuine [OF fetcher_okD(3) [OF assms(2)] assms(5,6) this] hit step t
    show ?thesis by (auto simp: byte_slice_def)
  next
    case miss
    with step have "range_miss (w_env w) m blob_path co so sl len g = (r, f')" by simp
    from range_miss_ok [OF assms(1) conjunct1 [OF t] assms(3,4,5) this] show ?thesis .
  qed
qed

lemma range_lru_ok:
  assumes "world_ok w" "fetcher_ok w f" "map_of (w_mounts w) (m_name m) = Some m"
    and "key = \<lparr>key_mount = m_name m, key_blob = blob_path, key_offset = co\<rparr>" "key \<in> w_keys w" "0 < sl"
    and "range_lru (w_env w) m blob_path co so sl len f = (r, f')"
  shows "fetcher_ok w f' \<and> (\<forall>b. r = Inr b \<longrightarrow> so + sl \<le> length (chunk_of w key) \<and> b = byte_slice so sl (chunk_of w key)) \<and>
    (healthy w \<and> len = length (chunk_of w key) \<and> so + sl \<le> len \<longrightarrow> (\<exists>b. r = Inr b))"
proof -
  obtain hit g where g: "lru_lookup (w_env w) key len f = (hit, g)" by force
  note t = lru_lookup_ok [OF assms(2,5) g]
  note step = assms(7) [unfolded range_lru_def Let_def assms(4) [symmetric] g prod.case]
  show ?thesis
  proof (cases "\<exists>b. hit = Some b \<and> so + sl \<le> length b")
    case True
    then obtain b where b: "hit = Some b" "so + sl \<le> length b" by blast
    with step have "r = Inr (byte_slice so sl b)" "f' = bump ''peer_lru_hits'' 1 g" by auto
    with b t show ?thesis by simp
  next
    case False
    with step have "range_cached (w_env w) m blob_path co so sl len g = (r, f')" by (cases hit) auto
    from range_cached_ok [OF assms(1) conjunct1 [OF t] assms(3-6) this] show ?thesis .
  qed
qed

lemma fetch_chunk_range_inner_ok:
  assumes "world_ok w" "fetcher_ok w f" "map_of (w_mounts w) (m_name m) = Some m"
    and "key = \<lparr>key_mount = m_name m, key_blob = blob_path, key_offset = co\<rparr>" "key \<in> w_keys w" "0 < sl"
    and "fetch_chunk_range_inner (w_env w) m blob_path co so sl len f = (r, f')"
  shows "fetcher_ok w f' \<and> (\<forall>b. r = Inr b \<longrightarrow> so + sl \<le> length (chunk_of w key) \<and> b = byte_slice so sl (chunk_of w key)) \<and>
    (healthy w \<and> len = length (chunk_of w key) \<and> so + sl \<le> len \<longrightarrow> (\<exists>b. r = Inr b))"
proof (cases "\<exists>b. map_of (f_inflight_writes f) key = Some b \<and> so + sl \<le> length b")
  case True
  then obtain b where b: "map_of (f_inflight_writes f) key = Some b" "so + sl \<le> length b" by blast
  with assms(4,6,7) have "r = Inr (byte_slice so sl b)" "f' = f" by (auto simp: fetch_chunk_range_inner_def Let_def)
  with fetcher_okD(4) [OF assms(2) b(1) assms(5)] b(2) assms(2) show ?thesis by simp
next
  case False
  with assms(4,6,7) have "range_lru (w_env w) m blob_path co so sl len f = (r, f')"
    by (auto simp: fetch_chunk_range_inner_def Let_def split: option.splits if_splits)
  from range_lru_ok [OF assms(1-6) this] show ?thesis .
qed

text \<open>The plan tiles the requested range.\<close>

lemma chunk_plan_tiles:
  assumes "0 < cs" "off < e" "e \<le> length data" "length data \<le> U64_MAX"
    and "cs dvd cur" "cur < e" "off < cur + cs"
  shows "let plan = chunk_plan cs off e (length data) ((e - 1) div cs * cs) cur in
    concat (map (\<lambda>(p, s, l, n). byte_slice s l (byte_slice p cs data)) plan) = byte_slice (max off cur) (e - max off cur) data \<and>
    (\<forall>(p, s, l, n) \<in> set plan. cur \<le> p \<and> cs dvd p \<and> p < e \<and> 0 < l \<and> s + l \<le> n \<and> n = length (byte_slice p cs data)) \<and>
    sorted_wrt (<) (map fst plan)"
  using assms(5-7)
proof (induction "e - cur" arbitrary: cur rule: less_induct)
  case less
  let ?plan = "chunk_plan cs off e (length data) ((e - 1) div cs * cs)"
  let ?n = "min cs (length data - cur)" and ?s = "max off cur - cur"
  let ?t = "min e (cur + ?n) - cur"
  obtain q where q: "cur = cs * q" using less.prems(1) by blast
  have le: "cur \<le> (e - 1) div cs * cs"
  proof -
    have "q \<le> (e - 1) div cs" using less.prems(2) q assms(1) by (simp add: less_eq_div_iff_mult_less_eq mult.commute)
    then show ?thesis using q by (simp add: mult.commute)
  qed
  have n: "?n = length (byte_slice cur cs data)" by (simp add: byte_slice_def)
  have t: "?t = min (e - cur) ?n" by auto
  have st: "?s < ?t" using less.prems assms(1,2,3) by auto
  have sum: "?s + (?t - ?s) = ?t" using st by (intro le_add_diff_inverse less_imp_le)
  have elem: "cur \<le> cur \<and> cs dvd cur \<and> cur < e \<and> 0 < ?t - ?s \<and> ?s + (?t - ?s) \<le> ?n \<and> ?n = length (byte_slice cur cs data)"
  proof (intro conjI)
    show "0 < ?t - ?s" using st by (rule zero_less_diff [THEN iffD2])
    show "?s + (?t - ?s) \<le> ?n" by (subst sum, subst t) (rule min.cobounded2)
  qed (use less.prems(1,2) n in \<open>simp_all\<close>)
  have head: "byte_slice ?s (?t - ?s) (byte_slice cur cs data) = byte_slice (max off cur) (min e (cur + cs) - max off cur) data"
  proof -
    have "?s + (?t - ?s) \<le> cs" by (subst sum, subst t) (simp add: min_le_iff_disj)
    from slice_slice [OF this, of cur data] have "byte_slice ?s (?t - ?s) (byte_slice cur cs data) = byte_slice (cur + ?s) (?t - ?s) data" .
    moreover have "cur + ?s = max off cur" by auto
    moreover have "?t - ?s = min e (cur + cs) - max off cur" using assms(3) less.prems by auto
    ultimately show ?thesis by simp
  qed
  show ?case
  proof (cases "cur + cs < e")
    case False
    have "(e - 1) div cs * cs \<le> e - 1" by (rule div_times_less_eq_dividend)
    then have last: "cur + cs > (e - 1) div cs * cs" using False less.prems(2) by linarith
    have nil: "?plan (cur + cs) = []" using last by (subst chunk_plan.simps) simp
    have plan: "?plan cur = [(cur, ?s, ?t - ?s, ?n)]"
      using le assms(1) nil by (subst chunk_plan.simps) (simp add: Let_def)
    have m: "min e (cur + cs) = e" using False by simp
    have "concat (map (\<lambda>(p, s, l, n). byte_slice s l (byte_slice p cs data)) (?plan cur)) = byte_slice (max off cur) (e - max off cur) data"
      unfolding plan using head by (simp only: list.map concat.simps prod.case append_Nil2 m)
    moreover have "\<forall>(p, s, l, n) \<in> set (?plan cur). cur \<le> p \<and> cs dvd p \<and> p < e \<and> 0 < l \<and> s + l \<le> n \<and> n = length (byte_slice p cs data)"
      unfolding plan list.set ball_simps prod.case using elem by blast
    moreover have "sorted_wrt (<) (map fst (?plan cur))" unfolding plan by simp
    ultimately show ?thesis unfolding Let_def by blast
  next
    case True
    let ?c = "cur + cs"
    have u: "?c \<le> U64_MAX" using True assms(3,4) by linarith
    have plan: "?plan cur = (cur, ?s, ?t - ?s, ?n) # ?plan ?c"
      using le u assms(1) by (subst chunk_plan.simps) (simp add: Let_def)
    have IH: "let plan = ?plan ?c in
      concat (map (\<lambda>(p, s, l, n). byte_slice s l (byte_slice p cs data)) plan) = byte_slice (max off ?c) (e - max off ?c) data \<and>
      (\<forall>(p, s, l, n) \<in> set plan. ?c \<le> p \<and> cs dvd p \<and> p < e \<and> 0 < l \<and> s + l \<le> n \<and> n = length (byte_slice p cs data)) \<and>
      sorted_wrt (<) (map fst plan)"
      by (rule less.hyps) (use True less.prems assms(1) in auto)
    have m: "max off ?c = ?c" "min e ?c = ?c" using less.prems(3) True by auto
    have app: "byte_slice (max off cur) (?c - max off cur) data @ byte_slice ?c (e - ?c) data = byte_slice (max off cur) (e - max off cur) data"
    proof -
      have "byte_slice ?c (e - ?c) data = take (e - ?c) (drop (?c - max off cur) (drop (max off cur) data))"
        using less.prems(3) by (simp add: byte_slice_def)
      moreover have "e - max off cur = (?c - max off cur) + (e - ?c)" using less.prems(3) True by auto
      ultimately show ?thesis unfolding byte_slice_def by (metis take_add)
    qed
    note IH' = IH [unfolded Let_def]
    have "concat (map (\<lambda>(p, s, l, n). byte_slice s l (byte_slice p cs data)) (?plan cur)) = byte_slice (max off cur) (e - max off cur) data"
      unfolding plan using conjunct1 [OF IH'] head app by (simp only: list.map concat.simps prod.case m)
    moreover have "\<forall>(p, s, l, n) \<in> set (?plan cur). cur \<le> p \<and> cs dvd p \<and> p < e \<and> 0 < l \<and> s + l \<le> n \<and> n = length (byte_slice p cs data)"
    proof -
      have "\<forall>(p, s, l, n) \<in> set (?plan ?c). cur \<le> p \<and> cs dvd p \<and> p < e \<and> 0 < l \<and> s + l \<le> n \<and> n = length (byte_slice p cs data)"
        using conjunct1 [OF conjunct2 [OF IH']] by fastforce
      with elem show ?thesis unfolding plan list.set ball_simps prod.case by blast
    qed
    moreover have "sorted_wrt (<) (map fst (?plan cur))"
    proof -
      have "\<forall>q \<in> set (map fst (?plan ?c)). cur < q" using conjunct1 [OF conjunct2 [OF IH']] assms(1) by fastforce
      with conjunct2 [OF conjunct2 [OF IH']] show ?thesis unfolding plan by (simp only: list.map fst_conv sorted_wrt.simps)
    qed
    ultimately show ?thesis unfolding Let_def by blast
  qed
qed

lemma run_tasks_ok:
  assumes "world_ok w" "map_of (w_mounts w) (m_name m) = Some m"
    and "\<forall>(p, s, l, n) \<in> set plan. \<lparr>key_mount = m_name m, key_blob = blob_path, key_offset = p\<rparr> \<in> w_keys w \<and> 0 < l \<and> s + l \<le> n \<and>
      n = length (chunk_of w \<lparr>key_mount = m_name m, key_blob = blob_path, key_offset = p\<rparr>)"
    and "fetcher_ok w f" "run_tasks (w_env w) m blob_path plan f = (r, f')"
  shows "fetcher_ok w f' \<and>
    (\<forall>cs. r = Inr cs \<longrightarrow> cs = map (\<lambda>(p, s, l, n). (p, byte_slice s l (chunk_of w \<lparr>key_mount = m_name m, key_blob = blob_path, key_offset = p\<rparr>))) plan) \<and>
    (healthy w \<longrightarrow> (\<exists>cs. r = Inr cs))"
  using assms(3-5)
proof (induction plan arbitrary: f r f')
  case (Cons x plan)
  obtain p s l n where x: "x = (p, s, l, n)" by (metis surj_pair)
  let ?k = "\<lparr>key_mount = m_name m, key_blob = blob_path, key_offset = p\<rparr>"
  from Cons.prems(1) x have k: "?k \<in> w_keys w" "0 < l" "s + l \<le> n" "n = length (chunk_of w ?k)" by auto
  let ?f1 = "bump ''chunk_permits_in_use'' 1 (await (w_env w) f)"
  obtain r1 f2 where g: "fetch_chunk_range_inner (w_env w) m blob_path p s l n ?f1 = (r1, f2)" by force
  have f1: "fetcher_ok w ?f1" using await_ok [OF assms(1) Cons.prems(2)] by simp
  note t = fetch_chunk_range_inner_ok [OF assms(1) f1 assms(2) refl k(1,2) g]
  let ?f3 = "await (w_env w) (bump ''chunk_permits_in_use'' (- 1) f2)"
  have f3: "fetcher_ok w ?f3" using await_ok [OF assms(1)] t by simp
  obtain rest f4 where rest: "run_tasks (w_env w) m blob_path plan ?f3 = (rest, f4)" by force
  from Cons.prems(1) have "\<forall>(p, s, l, n) \<in> set plan. \<lparr>key_mount = m_name m, key_blob = blob_path, key_offset = p\<rparr> \<in> w_keys w \<and> 0 < l \<and> s + l \<le> n \<and>
      n = length (chunk_of w \<lparr>key_mount = m_name m, key_blob = blob_path, key_offset = p\<rparr>)" by simp
  note IH = Cons.IH [OF this f3 rest]
  let ?j = "case fe_join (w_env w) (f_clock f2) of Some e \<Rightarrow> Inl (Other (''join: '' @ e)) | None \<Rightarrow> r1"
  have step: "r = rbind ?j (\<lambda>b. rbind rest (\<lambda>bs. Inr ((p, b) # bs)))" "f' = f4"
    using Cons.prems(3) x g rest by (simp_all add: Let_def)
  have j1: "b = byte_slice s l (chunk_of w ?k)" if "?j = Inr b" for b using that t by (auto split: option.splits)
  have j2: "\<exists>b. ?j = Inr b" if "healthy w" using that t k by (auto simp: healthy_def)
  show ?case using IH j1 j2 unfolding step x by (fastforce simp: rbind_Inr_iff)
qed auto

lemma prefetch_loop_ok: "fetcher_ok w f \<Longrightarrow> fetcher_ok w (snd (prefetch_loop m blob_path cur n js f))"
proof (induction js arbitrary: f)
  case (Cons j js)
  have "fetcher_ok w (snd (prefetch_loop m blob_path cur n js (bump c i f)))" for c i
    using Cons.prems by (intro Cons.IH) simp
  with Cons.prems show ?case by (simp add: Let_def split: prod.splits) (metis snd_conv)
qed simp

lemma maybe_trigger_prefetch_ok: "fetcher_ok w f \<Longrightarrow> fetcher_ok w (snd (maybe_trigger_prefetch m blob_path a b n f))"
  by (auto simp: maybe_trigger_prefetch_def note_read_def Let_def intro!: prefetch_loop_ok)

lemma clamp_slice: "length data \<le> U64_MAX \<Longrightarrow> take (min (sat_add off len) (length data) - off) (drop off data) = take len (drop off data)"
  by (rule nth_equalityI) (auto simp: sat_add_def)

lemma fetch_range_ok:
  assumes "world_ok w" "fetcher_ok w f" "map_of (w_mounts w) (m_name m) = Some m" "0 < w_cs w"
    and "length (origin w m blob_path) \<le> U64_MAX"
    and "\<And>p. w_cs w dvd p \<Longrightarrow> p < length (origin w m blob_path) \<Longrightarrow>
      \<lparr>key_mount = m_name m, key_blob = blob_path, key_offset = p\<rparr> \<in> w_keys w"
    and "fetch_range (w_env w) m blob_path off len (length (origin w m blob_path)) f = (r, f')"
  shows "fetcher_ok w f' \<and> (\<forall>b. r = Inr b \<longrightarrow> b = take len (drop off (origin w m blob_path))) \<and>
    (healthy w \<and> len \<le> MAX_READ_BYTES \<longrightarrow> (\<exists>b. r = Inr b))"
proof -
  let ?data = "origin w m blob_path" and ?cs = "w_cs w"
  let ?e = "min (sat_add off len) (length ?data)"
  let ?k = "\<lambda>p. \<lparr>key_mount = m_name m, key_blob = blob_path, key_offset = p\<rparr>"
  consider (zero) "len = 0" | (big) "len > MAX_READ_BYTES" | (empty) "0 < len" "len \<le> MAX_READ_BYTES" "?e \<le> off"
    | (read) "0 < len" "len \<le> MAX_READ_BYTES" "off < ?e" by linarith
  then show ?thesis
  proof cases
    case zero
    with assms(2,7) show ?thesis by (auto simp: fetch_range_def)
  next
    case big
    with assms(2,7) show ?thesis by (auto simp: fetch_range_def)
  next
    case empty
    then have "length ?data \<le> off" using assms(5) by (auto simp: sat_add_def min_def split: if_splits)
    with empty assms(2,7) show ?thesis by (auto simp: fetch_range_def Let_def)
  next
    case read
    let ?plan = "chunk_plan ?cs off ?e (length ?data) ((?e - 1) div ?cs * ?cs) (off div ?cs * ?cs)"
    let ?f1 = "snd (maybe_trigger_prefetch m blob_path off ?e (length ?data) f)"
    have le: "off div ?cs * ?cs \<le> off" by (rule div_times_less_eq_dividend)
    have cur: "?cs dvd off div ?cs * ?cs" "off div ?cs * ?cs < ?e" "off < off div ?cs * ?cs + ?cs"
      "max off (off div ?cs * ?cs) = off"
      using le_less_trans [OF le read(3)] dividend_less_div_times [OF assms(4), of off] le by (auto simp: add.commute)
    note tiles = chunk_plan_tiles [OF assms(4) read(3) min.cobounded2 assms(5) cur(1,2,3), unfolded Let_def cur(4)]
    have content: "chunk_of w (?k p) = byte_slice p ?cs ?data" for p using assms(3) by (simp add: chunk_of_def)
    have plan_ok: "\<forall>(p, s, l, n) \<in> set ?plan. ?k p \<in> w_keys w \<and> 0 < l \<and> s + l \<le> n \<and> n = length (chunk_of w (?k p))"
    proof
      fix x assume x: "x \<in> set ?plan"
      obtain p s l n where e: "x = (p, s, l, n)" by (metis surj_pair)
      have "off div ?cs * ?cs \<le> p \<and> ?cs dvd p \<and> p < ?e \<and> 0 < l \<and> s + l \<le> n \<and> n = length (byte_slice p ?cs ?data)"
        using bspec [OF conjunct1 [OF conjunct2 [OF tiles]] x] unfolding e prod.case .
      then show "case x of (p, s, l, n) \<Rightarrow> ?k p \<in> w_keys w \<and> 0 < l \<and> s + l \<le> n \<and> n = length (chunk_of w (?k p))"
        unfolding e prod.case content using assms(6) [of p] by simp
    qed
    obtain x f2 where run: "run_tasks (w_env w) m blob_path ?plan ?f1 = (x, f2)" by force
    note t = run_tasks_ok [OF assms(1,3) plan_ok maybe_trigger_prefetch_ok [OF assms(2)] run]
    have step: "f' = f2 \<and> r = rbind x (\<lambda>cs. Inr (if length (sort_key fst cs) = 1 then snd (hd (sort_key fst cs)) else concat (map snd (sort_key fst cs))))"
    proof -
      have guards: "\<not> len = 0" "\<not> len > MAX_READ_BYTES" "\<not> ?e \<le> off" using read by (simp_all only: not_less not_le not_gr0)
      show ?thesis
        using assms(7) unfolding fetch_range_def Let_def fetcher_okD(1) [OF assms(2)] if_not_P [OF guards(1)] if_not_P [OF guards(2)]
          if_not_P [OF guards(3)] run
        by (cases x) auto
    qed
    have whole: "(if length (sort_key fst cs) = 1 then snd (hd (sort_key fst cs)) else concat (map snd (sort_key fst cs))) = take len (drop off ?data)"
      if "x = Inr cs" for cs
    proof -
      have cs: "cs = map (\<lambda>(p, s, l, n). (p, byte_slice s l (byte_slice p ?cs ?data))) ?plan" using t that content by simp
      have "map fst cs = map fst ?plan" unfolding cs by (simp add: comp_def case_prod_beta)
      then have "sorted (map fst cs)" using conjunct2 [OF conjunct2 [OF tiles]] by (simp only: strict_sorted_imp_sorted)
      then have "sort_key fst cs = cs" by (rule sort_key_id_if_sorted)
      moreover have "map snd cs = map (\<lambda>(p, s, l, n). byte_slice s l (byte_slice p ?cs ?data)) ?plan"
        unfolding cs by (simp add: comp_def case_prod_beta)
      then have "concat (map snd cs) = take (?e - off) (drop off ?data)"
        using conjunct1 [OF tiles] unfolding byte_slice_def by (simp only:)
      moreover have "length cs = 1 \<Longrightarrow> snd (hd cs) = concat (map snd cs)" by (cases cs) auto
      ultimately show ?thesis using clamp_slice [OF assms(5), of off len] by simp
    qed
    show ?thesis
    proof (cases x)
      case (Inl e)
      then have "r = Inl e" "f' = f2" using step by simp_all
      with t Inl show ?thesis by blast
    next
      case (Inr cs)
      then have "r = Inr (take len (drop off ?data))" "f' = f2" using step whole [OF Inr] by (simp_all only: rbind_simps)
      with t show ?thesis by blast
    qed
  qed
qed

section \<open>The other operations keep the invariant\<close>

lemma insert_task_ok:
  assumes "fetcher_ok w f" "kd \<in> set (f_insert_tasks f)"
  shows "fetcher_ok w (insert_task (w_env w) pid nanos outcome kd f)"
proof -
  obtain k b where kd: "kd = (k, b)" by force
  have k: "k \<in> w_keys w" "b = chunk_of w k" using fetcher_okD(5) [OF assms(1)] assms(2) kd by auto
  let ?f1 = "f\<lparr>f_insert_tasks := remove1 kd (f_insert_tasks f)\<rparr>"
  have f1: "fetcher_ok w ?f1"
    using assms(1) set_remove1_subset [of kd "f_insert_tasks f"] unfolding fetcher_ok_def by (simp add: subset_iff) blast
  have del: "fetcher_ok w (bump n i (g\<lparr>f_inflight_writes := AList.delete k (f_inflight_writes g)\<rparr>))" if "fetcher_ok w g" for g n i
    unfolding bump_ok using that by (auto simp: fetcher_ok_def map_simps)
  have rec: "fetcher_ok w (record_insert_failure k e g) = fetcher_ok w g" for e g by (simp add: record_insert_failure_def)
  have c: "fetcher_ok w (?f1\<lparr>f_cache := snd (insert_chunk (fe_sha (w_env w)) fs pid nanos fault k b (f_cache ?f1))\<rparr>)" for fs fault
    using disk.put_ok [OF fetcher_okD(3) [OF f1] k(1)] unfolding k(2) by (intro cache_ok [OF f1])
  show ?thesis
  proof (cases outcome)
    case (Inl e)
    then show ?thesis unfolding insert_task_def kd prod.case Let_def sum.case
      by (intro del) (use f1 in \<open>simp add: rec kd\<close>)
  next
    case (Inr fault)
    obtain r d where i: "insert_chunk (fe_sha (w_env w)) (fe_fs (w_env w) (f_clock f)) pid nanos fault k b (f_cache ?f1) = (r, d)" by force
    with c [of "fe_fs (w_env w) (f_clock f)" fault] have d: "fetcher_ok w (?f1\<lparr>f_cache := d\<rparr>)" by simp
    show ?thesis unfolding insert_task_def kd prod.case Let_def Inr sum.case using i d
      by (intro del) (cases r; simp add: rec kd)
  qed
qed

lemma clear_state_ok:
  assumes "fetcher_ok w f" "clear_state (w_env w) dir_readable f = (r, f')"
  shows "fetcher_ok w f'"
proof -
  obtain x c where c: "clear_all (fe_sha (w_env w)) (fe_fs (w_env w) (f_clock f)) dir_readable (f_cache f) = (x, c)" by force
  have g: "genuine (fe_sha (w_env w)) (chunk_of w) (w_keys w) c"
    using clear_all_genuine [OF fetcher_okD(3) [OF assms(1)]] c by (metis snd_conv)
  have l: "lru_genuine (fe_lru (w_env w)) (w_view w) (chunk_of w) (w_keys w) (peer_lru_clear (fe_lru (w_env w)) p)"
    if "f_peer_lru f = Some p" for p
    using fetcher_okD(6) [OF assms(1) that] lawsD(3) [of "fe_lru (w_env w)" "w_view w"]
    by (auto simp: lru_genuine_def lru_acc_def peer_lru_clear_def)
  show ?thesis
  proof (cases x)
    case (Inl e)
    with assms(2) c have "f' = f\<lparr>f_cache := c\<rparr>" by (auto simp: clear_state_def)
    with cache_ok [OF assms(1) g] show ?thesis by simp
  next
    case (Inr n)
    with assms c g l show ?thesis by (auto simp: clear_state_def fetcher_ok_def sf_clear_def)
  qed
qed

lemma serve_lead_ok:
  assumes "world_ok w" "fetcher_ok w f" "key \<in> w_keys w" "serve_lead (w_env w) key len f = (r, f')"
    and "\<forall>(n, m) \<in> set (w_mounts w). m_name m = n"
  shows "fetcher_ok w f' \<and> (\<forall>b. r = Some b \<longrightarrow> b = chunk_of w key)"
proof (cases "map_of (f_mounts f) (key_mount key)")
  case None
  with assms(4) have "r = None" "f' = f\<lparr>f_inflight := finish key (Inl ''unknown mount'') (f_inflight f)\<rparr>" by (auto simp: serve_lead_def)
  with finish_ok [OF assms(2), of "Inl ''unknown mount''" key] show ?thesis by simp
next
  case (Some m)
  have m: "map_of (w_mounts w) (key_mount key) = Some m" using Some fetcher_okD(2) [OF assms(2)] by simp
  then have name: "m_name m = key_mount key" using assms(5) by (auto dest!: map_of_SomeD)
  let ?fetch = "fetch_blob_direct (w_env w) m (key_blob key) key len"
  obtain x g where l: "lead ?fetch key f = (x, g)" by force
  have "fetcher_ok w g \<and> (\<forall>b. x = Inr b \<longrightarrow> b = chunk_of w key) \<and> (healthy w \<and> len = length (chunk_of w key) \<longrightarrow> x = Inr (chunk_of w key))"
    by (rule lead_ok [OF assms(2) l fetch_blob_direct_ok [OF assms(1,2,3), of m "key_blob key" "key_offset key" len]])
      (use m name in simp_all)
  with Some l assms(4) show ?thesis by (cases x) (auto simp: serve_lead_def)
qed

lemma serve_join_ok:
  assumes "world_ok w" "fetcher_ok w f" "key \<in> w_keys w" "serve_join (w_env w) key len wait_ms f = (r, f')"
    and "\<forall>(n, m) \<in> set (w_mounts w). m_name m = n"
  shows "fetcher_ok w f' \<and> (\<forall>b. r = Some b \<longrightarrow> b = chunk_of w key)"
proof -
  obtain c s where e: "elect key (f_inflight f) = (c, s)" by force
  let ?f0 = "f\<lparr>f_inflight := s\<rparr>"
  have ok: "fetcher_ok w ?f0"
    by (rule inflight_ok [OF assms(2)]) (use elect_sent [of key "f_inflight f"] e in simp)
  show ?thesis
  proof (cases c)
    case None
    with e assms(4) have "serve_lead (w_env w) key len ?f0 = (r, f')" by (simp add: serve_join_def)
    from serve_lead_ok [OF assms(1) ok assms(3) this assms(5)] show ?thesis .
  next
    case (Some ch)
    let ?f1 = "await_on (w_env w) (Some (ch, key)) ?f0"
    have a: "fetcher_ok w ?f1" using await_on_ok [OF assms(1) ok] .
    have recv: "b = chunk_of w key" if "fe_recv (w_env w) (f_clock ?f0) (ch, key) (sf_sent (f_inflight ?f1)) = Received (Inr b)" for b
      using fetcher_okD(7) [OF a world_okD(1) [OF assms(1) that] assms(3)] .
    have step: "f' = ?f1" "r = (if fe_timeout (w_env w) (f_clock ?f0) then None
        else case fe_recv (w_env w) (f_clock ?f0) (ch, key) (sf_sent (f_inflight ?f1)) of
          Received (Inr data) \<Rightarrow> if length data = len then Some data else None | _ \<Rightarrow> None)"
      using e Some assms(4) by (auto simp: serve_join_def Let_def)
    have "b = chunk_of w key" if "r = Some b" for b
      using that recv unfolding step(2) by (auto split: if_splits recv_result.splits sum.splits)
    with a step(1) show ?thesis by simp
  qed
qed

lemma serve_peer_chunk_ok:
  assumes "world_ok w" "fetcher_ok w f" "key \<in> w_keys w" "serve_peer_chunk (w_env w) key len wait_ms f = (r, f')"
    and "\<forall>(n, m) \<in> set (w_mounts w). m_name m = n"
  shows "fetcher_ok w f' \<and> (\<forall>b. r = Some b \<longrightarrow> b = chunk_of w key)"
proof -
  obtain x g where b: "blocking (w_env w) (\<lambda>fs. try_get (fe_sha (w_env w)) fs key) f = (x, g)" by force
  note t = blocking_get_ok [OF assms(1,2,3) b]
  note step = assms(4) [unfolded serve_peer_chunk_def b prod.case]
  show ?thesis
  proof (cases "\<exists>b. x = Inr (Some b) \<and> length b = len")
    case True
    then obtain b where b: "x = Inr (Some b)" "length b = len" by blast
    then have "r = Some b" "f' = g" using step by simp_all
    with t b show ?thesis by simp
  next
    case False
    have "serve_join (w_env w) key len wait_ms g = (r, f')"
    proof (cases x)
      case (Inr y)
      with False step show ?thesis by (cases y) auto
    qed (use step in simp)
    from serve_join_ok [OF assms(1) conjunct1 [OF t] assms(3) this assms(5)] show ?thesis .
  qed
qed

lemma pull_from_ok:
  assumes "world_ok w" "fetcher_ok w f" "map_of (w_mounts w) (m_name m) = Some m"
    and "key = \<lparr>key_mount = m_name m, key_blob = blob_path, key_offset = off\<rparr>" "key \<in> w_keys w"
    and "pull_from (w_env w) m key len peer url addr wait_ms f = (r, f')"
  shows "fetcher_ok w f' \<and> (\<forall>b. r = Inr b \<longrightarrow> b = chunk_of w key)"
proof -
  let ?p = "fe_peer (w_env w) (f_clock f) peer url addr key (len mod 2 ^ 32) wait_ms"
  let ?f1 = "await (w_env w) f"
  have a: "fetcher_ok w ?f1" using await_ok [OF assms(1,2)] .
  show ?thesis
  proof (cases ?p)
    case (Inr d)
    have d: "d = chunk_of w key" using world_okD(3) [OF assms(1) Inr assms(5)] .
    show ?thesis
    proof (cases "length d = len")
      case True
      let ?g = "bump ''peer_fetch_bytes'' (int (length d)) (bump ''peer_fetches_ok'' 1 ?f1)"
      have "fetcher_ok w ?g" using a by simp
      from spawn_insert_ok [OF this assms(5)] have "fetcher_ok w (spawn_insert key d ?g)" unfolding d .
      with assms(6) Inr True d show ?thesis unfolding pull_from_def Let_def Inr sum.case by auto
    next
      case False
      with assms(6) Inr a show ?thesis by (auto simp: pull_from_def Let_def)
    qed
  next
    case (Inl e)
    show ?thesis
    proof (cases "\<exists>x. e = NotFound x")
      case True
      obtain s g where g: "fetch_chunk_origin_only (w_env w) m (key_blob key) (key_offset key) len (bump ''broadcast_peer_not_found'' 1 ?f1) = (s, g)"
        by force
      have "fetcher_ok w g \<and> (\<forall>b. s = Inr b \<longrightarrow> b = chunk_of w key)"
        using fetch_chunk_inner_ok [OF assms(1) _ assms(3) assms(4,5) g [unfolded fetch_chunk_origin_only_def assms(4) chunk_key.select_convs]] a by simp
      with assms(6) Inl True g show ?thesis by (cases s) (auto simp: pull_from_def Let_def)
    next
      case False
      with assms(6) Inl a show ?thesis by (cases e) (auto simp: pull_from_def Let_def)
    qed
  qed
qed

lemma pull_ok:
  assumes "world_ok w" "fetcher_ok w f" "map_of (w_mounts w) (m_name m) = Some m"
    and "key = \<lparr>key_mount = m_name m, key_blob = blob_path, key_offset = off\<rparr>" "key \<in> w_keys w"
    and "pull_chunk_from_peer_wait (w_env w) m blob_path off len peer url addr wait_ms f = (r, f')"
  shows "fetcher_ok w f' \<and> (\<forall>b. r = Inr b \<longrightarrow> b = chunk_of w key)"
proof -
  obtain x c where g: "try_get (fe_sha (w_env w)) (fe_fs (w_env w) (f_clock f)) key (f_cache f) = (x, c)" by force
  note h = disk.get_genuine [OF fetcher_okD(3) [OF assms(2)] assms(5) g]
  then have ok: "fetcher_ok w (f\<lparr>f_cache := c\<rparr>)" using cache_ok [OF assms(2)] by blast
  note step = assms(6) [unfolded pull_chunk_from_peer_wait_def Let_def assms(4) [symmetric] g prod.case]
  show ?thesis
  proof (cases "\<exists>b. x = Some b \<and> length b = len")
    case True
    with step h ok show ?thesis by auto
  next
    case False
    with step have "pull_from (w_env w) m key len peer url addr wait_ms (f\<lparr>f_cache := c\<rparr>) = (r, f')"
      by (auto split: option.splits if_splits)
    from pull_from_ok [OF assms(1) ok assms(3,4,5) this] show ?thesis .
  qed
qed

section \<open>A concrete world\<close>

text \<open>One mount whose blobs all hold three bytes, a chunk size of four, peers that know nothing, and tasks
  that complete the fetch another task waits for.\<close>

definition small_env :: "(chunk_key \<times> bytes) list fetch_env" where
  "small_env = \<lparr>fe_sha = (\<lambda>b. b), fe_fs = (\<lambda>_. sample_env), fe_join = (\<lambda>_. None), fe_lru = list_lru,
     fe_others = (\<lambda>t c f. case c of None \<Rightarrow> f
       | Some (ch, key) \<Rightarrow> f\<lparr>f_inflight := finish key (Inr (byte_slice (key_offset key) 4 [1, 2, 3])) (f_inflight f)\<rparr>),
     fe_recv = (\<lambda>t c log. case find (\<lambda>e. fst e = fst c \<and> fst (snd e) = snd c) log of Some e \<Rightarrow> Received (snd (snd e)) | None \<Rightarrow> RecvError),
     fe_timeout = (\<lambda>_. False), fe_rdma = False, fe_b64 = (\<lambda>_. None),
     fe_peer = (\<lambda>_ _ _ _ _ _ _. Inl (NotFound ''peer miss'')),
     fe_blob = (\<lambda>_ _ _ _ _ off n. Inr (byte_slice off n [1, 2, 3]))\<rparr>"

definition small_world :: "(chunk_key \<times> bytes) list world" where
  "small_world = \<lparr>w_env = small_env, w_view = AList.clearjunk, w_blob = (\<lambda>_ _ _. [1, 2, 3]),
     w_mounts = [(''m'', sample_mount ''m'')], w_cs = 4, w_keys = {sample_key 0}\<rparr>"

definition small_fetcher :: "(chunk_key \<times> bytes) list fetcher" where
  "small_fetcher = fetcher_new list_lru (empty_cache 10) (membership_new (sample_node ''n'' ''h'' 1) no_stats) 4 0 1 2 1 1 False True 100
     (peer_index_new ''n'' 64) 1 1 1 0 [(''m'', sample_mount ''m'')]"

lemma small_chunk: "chunk_of small_world (sample_key 0) = [1, 2, 3]"
  by (simp add: chunk_of_def small_world_def origin_def sample_key_def byte_slice_def)

lemma small_fetcher_ok: "fetcher_ok small_world small_fetcher"
proof -
  have "lru_genuine list_lru AList.clearjunk (chunk_of small_world) {sample_key 0} (peer_lru_new list_lru 100)"
    using list_lru_laws by (simp add: lru_genuine_def lru_acc_def peer_lru_new_def list_lru_def)
  then show ?thesis
    by (simp add: fetcher_ok_def small_fetcher_def fetcher_new_def small_world_def small_env_def genuine_def empty_cache_def sf_new_def)
qed

lemma small_world_ok: "world_ok small_world"
proof -
  have others: "fetcher_ok small_world (fe_others (w_env small_world) t c f)" if "fetcher_ok small_world f" for t c f
  proof (cases c)
    case None
    with that show ?thesis by (simp add: small_world_def small_env_def)
  next
    case (Some p)
    obtain ch key where p: "p = (ch, key)" by force
    let ?b = "byte_slice (key_offset key) 4 [1, 2, 3] :: bytes"
    have k: "key \<in> w_keys small_world \<Longrightarrow> ?b = chunk_of small_world key"
      using small_chunk by (simp add: small_world_def sample_key_def byte_slice_def)
    have "fetcher_ok small_world (f\<lparr>f_inflight := finish key (Inr ?b) (f_inflight f)\<rparr>)"
      using that k by (auto simp: fetcher_ok_def finish_def disarm_def split: option.splits)
    then show ?thesis by (simp add: small_world_def small_env_def Some p)
  qed
  have "(ch, key, m) \<in> set log" if "fe_recv (w_env small_world) t (ch, key) log = Received m" for t ch key log m
    using that by (auto simp: small_world_def small_env_def find_Some_iff split: option.splits)
  with others show ?thesis by (auto simp: world_ok_def small_world_def small_env_def origin_def)
qed

lemma small_world_healthy: "healthy small_world"
  by (auto simp: healthy_def small_world_def small_env_def finish_def disarm_def)

section \<open>Properties\<close>

text \<open>C5: Reads return the origin's bytes. In any world where channels deliver only what was sent, the
  origin answers ranges correctly, peers answer with the chunk asked for and the other tasks keep the
  invariant, and from any state that satisfies it: a read of \<open>len\<close> bytes at \<open>off\<close>, served from any
  mixture of in-flight writes, the peer LRU, the disk cache, concurrent fetches, peers and the origin,
  returns exactly those bytes of the blob (fewer at its end) or an error, and keeps the invariant. If
  moreover the origin, joins and leaders do not fail, it succeeds whatever the peers do.\<close>
theorem fetch_range_correct:
  assumes "world_ok w" "fetcher_ok w f" "map_of (w_mounts w) (m_name m) = Some m" "0 < w_cs w"
    and "length (origin w m blob_path) \<le> U64_MAX"
    and "\<And>p. w_cs w dvd p \<Longrightarrow> p < length (origin w m blob_path) \<Longrightarrow>
      \<lparr>key_mount = m_name m, key_blob = blob_path, key_offset = p\<rparr> \<in> w_keys w"
    and "fetch_range (w_env w) m blob_path off len (length (origin w m blob_path)) f = (r, f')"
  shows "fetcher_ok w f' \<and> (\<forall>b. r = Inr b \<longrightarrow> b = take len (drop off (origin w m blob_path)))
    \<and> (healthy w \<and> len \<le> MAX_READ_BYTES \<longrightarrow> r = Inr (take len (drop off (origin w m blob_path))))"
  using fetch_range_ok [OF assms] by blast

lemma small_origin: "origin small_world (sample_mount ''m'') ''b'' = [1, 2, 3]"
  by (simp add: origin_def small_world_def)

theorem fetch_range_correct_witness:
  "fst (fetch_range small_env (sample_mount ''m'') ''b'' 1 5 3 small_fetcher) = Inr [2, 3]"
proof -
  obtain r f' where run: "fetch_range small_env (sample_mount ''m'') ''b'' 1 5 3 small_fetcher = (r, f')" by force
  have "\<lparr>key_mount = m_name (sample_mount ''m''), key_blob = ''b'', key_offset = p\<rparr> \<in> w_keys small_world"
    if "w_cs small_world dvd p" "p < length (origin small_world (sample_mount ''m'') ''b'')" for p
  proof -
    have "p = 0" using that by (auto simp: small_world_def small_origin [unfolded small_world_def] dvd_def)
    then show ?thesis by (simp add: small_world_def sample_key_def sample_mount_def)
  qed
  note keys = this
  have len: "length (origin small_world (sample_mount ''m'') ''b'') = 3" and env: "w_env small_world = small_env"
    by (simp add: small_origin, simp add: small_world_def)
  have mount: "map_of (w_mounts small_world) (m_name (sample_mount ''m'')) = Some (sample_mount ''m'')" "0 < w_cs small_world"
    by (simp_all add: small_world_def sample_mount_def)
  have u: "length (origin small_world (sample_mount ''m'') ''b'') \<le> U64_MAX" unfolding len by (simp add: U64_MAX_def)
  have run': "fetch_range (w_env small_world) (sample_mount ''m'') ''b'' 1 5 (length (origin small_world (sample_mount ''m'') ''b'')) small_fetcher = (r, f')"
    unfolding len env by (rule run)
  have max: "(5::nat) \<le> MAX_READ_BYTES" by (simp add: MAX_READ_BYTES_def)
  have "r = Inr (take 5 (drop 1 (origin small_world (sample_mount ''m'') ''b'')))"
    using fetch_range_correct [OF small_world_ok small_fetcher_ok mount u keys run'] small_world_healthy max by blast
  then show ?thesis unfolding run small_origin by simp
qed

text \<open>C15: The rest of the node keeps the invariant that reads rely on. Completing or failing a background
  insert, serving a chunk to a peer, pulling one from a peer, fetching one from the origin and clearing
  the cache preserve it from any state, and what is served or pulled is the genuine chunk.\<close>
theorem node_operations_sound:
  assumes "world_ok w" "fetcher_ok w f" "\<forall>(n, m) \<in> set (w_mounts w). m_name m = n"
    and "key = \<lparr>key_mount = m_name m, key_blob = blob_path, key_offset = off\<rparr>" "key \<in> w_keys w"
    and "map_of (w_mounts w) (m_name m) = Some m"
  shows "(kd \<in> set (f_insert_tasks f) \<longrightarrow> fetcher_ok w (insert_task (w_env w) pid nanos outcome kd f))
    \<and> (serve_peer_chunk (w_env w) key len wait_ms f = (served, f1) \<longrightarrow> fetcher_ok w f1 \<and> served \<in> {None, Some (chunk_of w key)})
    \<and> (pull_chunk_from_peer_wait (w_env w) m blob_path off len peer url addr wait_ms f = (pulled, f2) \<longrightarrow>
        fetcher_ok w f2 \<and> (\<forall>b. pulled = Inr b \<longrightarrow> b = chunk_of w key))
    \<and> (fetch_chunk_origin_only (w_env w) m blob_path off len f = (fetched, f3) \<longrightarrow>
        fetcher_ok w f3 \<and> (\<forall>b. fetched = Inr b \<longrightarrow> b = chunk_of w key))
    \<and> (clear_state (w_env w) dir_readable f = (cleared, f4) \<longrightarrow> fetcher_ok w f4)"
proof -
  have "served \<in> {None, Some (chunk_of w key)}" if "serve_peer_chunk (w_env w) key len wait_ms f = (served, f1)"
    using serve_peer_chunk_ok [OF assms(1,2,5) that assms(3)] by (cases served) auto
  then show ?thesis
    using insert_task_ok [OF assms(2)] serve_peer_chunk_ok [OF assms(1,2,5) _ assms(3)] pull_ok [OF assms(1,2,6,4,5)]
      fetch_chunk_inner_ok [OF assms(1,2,6,4,5), of len True] clear_state_ok [OF assms(2)]
    unfolding fetch_chunk_origin_only_def by blast
qed

theorem node_operations_sound_witness:
  "fst (serve_peer_chunk small_env (sample_key 0) 3 100 small_fetcher) \<in> {None, Some [1, 2, 3]}"
proof -
  obtain r f' where run: "serve_peer_chunk (w_env small_world) (sample_key 0) 3 100 small_fetcher = (r, f')" by force
  have "r \<in> {None, Some (chunk_of small_world (sample_key 0))}"
    using node_operations_sound [OF small_world_ok small_fetcher_ok, of "sample_key 0" "sample_mount ''m''" "''b''" 0
        "(sample_key 0, [])" 0 0 "Inl []" 3 100 r f'] run
    by (simp add: small_world_def sample_mount_def sample_key_def)
  with run show ?thesis by (simp add: small_chunk) (simp add: small_world_def)
qed

definition untouched :: "mount_config \<Rightarrow> string \<Rightarrow> nat \<Rightarrow> 'l fetcher \<Rightarrow> bool" where
  "untouched m blob_path p f \<longleftrightarrow>
     (let ck = \<lparr>key_mount = m_name m, key_blob = blob_path, key_offset = p\<rparr> in
      entry_size ck (f_cache f) = None \<and> map_of (f_inflight_writes f) ck = None \<and> map_of (sf_inflight (f_inflight f)) ck = None)"

lemma untouched_bump [simp]: "untouched m blob_path p (bump c i f) = untouched m blob_path p f"
  by (simp add: untouched_def)

lemma prefetch_loop_jobs:
  assumes "sorted_wrt (<) js" "\<forall>j \<in> set js. cur + j * f_chunk_size f < 2 ^ 64"
    and "prefetch_loop m blob_path cur n js f = (jobs, f')" "0 < f_chunk_size f"
  shows "length jobs \<le> length js \<and> sorted_wrt (<) (map fst jobs) \<and>
    (\<forall>(p, l) \<in> set jobs. p < n \<and> l = min (f_chunk_size f) (n - p) \<and> (\<exists>j \<in> set js. p = cur + j * f_chunk_size f) \<and> untouched m blob_path p f)"
  using assms
proof (induction js arbitrary: f jobs)
  case (Cons j js)
  let ?cs = "f_chunk_size f"
  have "j * ?cs < 2 ^ 64" "cur + j * ?cs < 2 ^ 64" using Cons.prems(2) by auto
  then have off: "u64_add cur (u64_mul j ?cs) = cur + j * ?cs" by (simp add: u64_add_def u64_mul_def)
  let ?p = "cur + j * ?cs"
  have IH: "length jb \<le> length js \<and> sorted_wrt (<) (map fst jb) \<and>
    (\<forall>(p, l) \<in> set jb. p < n \<and> l = min ?cs (n - p) \<and> (\<exists>j \<in> set js. p = cur + j * ?cs) \<and> untouched m blob_path p f)"
    if "prefetch_loop m blob_path cur n js (bump c i f) = (jb, f')" for c i jb
    using Cons.IH [OF _ _ that] Cons.prems by simp
  have later: "?p < p" if "\<exists>j \<in> set js. p = cur + j * ?cs" for p using that Cons.prems(1,4) by auto
  note step = Cons.prems(3) [unfolded prefetch_loop.simps Let_def off]
  consider (stop) "?p \<ge> n" | (skip) c where "?p < n" "\<not> untouched m blob_path ?p f" "prefetch_loop m blob_path cur n js (bump c 1 f) = (jobs, f')"
    | (go) jb where "?p < n" "untouched m blob_path ?p f" "jobs = (?p, min ?cs (n - ?p)) # jb" "prefetch_loop m blob_path cur n js (bump ''prefetch_spawned'' 1 f) = (jb, f')"
    using step by (auto simp: untouched_def Let_def split: if_splits prod.splits)
  then show ?case
  proof cases
    case stop
    with step show ?thesis by simp
  next
    case skip
    show ?thesis using IH [OF skip(3)] by fastforce
  next
    case go
    note h = IH [OF go(4)]
    have "\<forall>q \<in> set (map fst jb). ?p < q" using h later by fastforce
    with h go(1-3) show ?thesis by fastforce
  qed
qed simp




end
