(* ===== verification/Pool.thy ===== *)
theory Pool
  imports AzureProps FetchProps
begin

text \<open>
  The pool of blob workers (\<open>src/blob_fetcher_pool.rs\<close>): every worker has a client per mount, ranged reads
  go round robin over the workers, metadata calls use the first one. The properties compose the pool and
  the blob client with the fetcher, whose origin they are. A worker's runtime is not modelled; a panic in
  a spawned task reaches the caller as a join error, whose text is a parameter.
\<close>

section \<open>The pool\<close>

type_synonym worker = "(string, blob_client) hmap"

record blob_pool =
  bp_workers :: "worker list"
  bp_next :: nat
  bp_view :: worker

text \<open>The clients of one worker; \<open>http\<close> is the outcome of building an HTTP client.\<close>

fun worker_clients ::
  "(mount_config \<Rightarrow> idp) \<Rightarrow> string option \<Rightarrow> nat \<Rightarrow> mount_config list \<Rightarrow> worker \<Rightarrow> auth_state \<Rightarrow> (string + worker) \<times> auth_state"
where
  "worker_clients p http i [] blobs st = (Inr blobs, st)"
| "worker_clients p http i (m # ms) blobs st =
     (case resolve (p m) (m_sas_token m) st of
        (Inl _, st) \<Rightarrow> (Inl (''resolve credentials for mount '' @ m_name m @ '' (worker '' @ show_dec i @ '')''), st)
      | (Inr cred, st) \<Rightarrow>
          (case blob_client_new http cred of
             Inl e \<Rightarrow> (Inl (show_error e), st)
           | Inr cl \<Rightarrow> worker_clients p http i ms (AList.update (m_name m) cl blobs) st))"

text \<open>The loop over the workers still to build; \<open>rt i\<close> tells whether runtime \<open>i\<close> can be built.\<close>

fun build_workers ::
  "(nat \<Rightarrow> mount_config \<Rightarrow> idp) \<Rightarrow> (nat \<Rightarrow> bool) \<Rightarrow> string option \<Rightarrow> mount_config list \<Rightarrow> nat list \<Rightarrow> worker list \<Rightarrow> auth_state \<Rightarrow>
   (string + worker list) \<times> auth_state"
where
  "build_workers p rt http mounts [] ws st = (Inr ws, st)"
| "build_workers p rt http mounts (i # is) ws st =
     (if \<not> rt i then (Inl (''build blob worker runtime '' @ show_dec i), st)
      else (case worker_clients (p i) http i mounts [] st of
              (Inl e, st) \<Rightarrow> (Inl e, st)
            | (Inr blobs, st) \<Rightarrow> build_workers p rt http mounts is (ws @ [blobs]) st))"

definition pool_new ::
  "(nat \<Rightarrow> mount_config \<Rightarrow> idp) \<Rightarrow> (nat \<Rightarrow> bool) \<Rightarrow> string option \<Rightarrow> mount_config list \<Rightarrow> nat \<Rightarrow> auth_state \<Rightarrow>
   (string + blob_pool) \<times> auth_state"
where
  "pool_new p rt http mounts n_workers st =
     (case build_workers p rt http mounts [0..<max n_workers 1] [] st of
        (Inl e, st) \<Rightarrow> (Inl e, st)
      | (Inr ws, st) \<Rightarrow> (Inr \<lparr>bp_workers = ws, bp_next = 0, bp_view = ws ! 0\<rparr>, st))"

definition worker_count :: "blob_pool \<Rightarrow> nat" where
  "worker_count pool = length (bp_workers pool)"

definition blob_for :: "blob_pool \<Rightarrow> string \<Rightarrow> blob_client option" where
  "blob_for pool mount = map_of (bp_view pool) mount"

text \<open>\<open>next.fetch_add(1) % workers.len()\<close>, with the wrap-around of the counter.\<close>

definition pick :: "blob_pool \<Rightarrow> nat \<times> blob_pool" where
  "pick pool = (bp_next pool mod length (bp_workers pool), pool\<lparr>bp_next := u64_add (bp_next pool) 1\<rparr>)"

definition pool_get_blob_range ::
  "('u, 'w) azure_env \<Rightarrow> string \<Rightarrow> string \<Rightarrow> string \<Rightarrow> string \<Rightarrow> string \<Rightarrow> nat \<Rightarrow> nat \<Rightarrow> blob_pool \<Rightarrow> ('u, 'w) az_state \<Rightarrow>
   bytes result \<times> blob_pool \<times> ('u, 'w) az_state"
where
  "pool_get_blob_range env panic mount account container blob_path offset len pool st =
     (case pick pool of
        (i, pool) \<Rightarrow>
          (case map_of (bp_workers pool ! i) mount of
             None \<Rightarrow> (Inl (Other (''no blob client for mount '' @ mount)), pool, st)
           | Some client \<Rightarrow>
               (case get_blob_range env client account container blob_path offset len st of
                  (Some r, st) \<Rightarrow> (r, pool, st)
                | (None, st) \<Rightarrow> (Inl (Other (''blob worker join: '' @ panic)), pool, st))))"

section \<open>Lemmas\<close>

definition client_ok :: "auth_state \<Rightarrow> blob_client \<Rightarrow> bool" where
  "client_ok st cl \<longleftrightarrow> bc_max_retries cl = 10 \<and> (\<forall>i. bc_credential cl = Bearer i \<longrightarrow> i = 0 \<and> length (as_sources st) = 1)"

lemma resolve_keeps:
  assumes "ambient_ok st" and "resolve p sas st = (r, st')"
  shows "ambient_ok st' \<and> (\<forall>cl. client_ok st cl \<longrightarrow> client_ok st' cl) \<and>
    (\<forall>c. r = Inr c \<longrightarrow> client_ok st' \<lparr>bc_credential = c, bc_max_retries = 10\<rparr>)"
proof -
  obtain ra st1 where ra: "resolve_ambient p st = (ra, st1)" by (cases "resolve_ambient p st")
  note ok = resolve_ambient_ok [OF assms(1) ra]
  have src: "length (as_sources st1) = 1" if "length (as_sources st) = 1"
  proof -
    from that assms(1) obtain c where "as_ambient st = Some c" by (cases "as_ambient st") (auto simp: ambient_ok_def)
    with ra that show ?thesis by (simp add: resolve_ambient_def)
  qed
  have amb: "client_ok st1 \<lparr>bc_credential = c, bc_max_retries = 10\<rparr>" if "ra = Inr c" for c
  proof -
    have "length (as_sources st1) = 1" if "c = Bearer 0" "as_ambient st1 = Some c"
      using ok that by (simp add: ambient_ok_def)
    then show ?thesis using ok that by (auto simp: client_ok_def)
  qed
  consider "st' = st" "\<And>c i. r = Inr c \<Longrightarrow> c \<noteq> Bearer i" | "r = ra" "st' = st1"
    using assms(2) ra by (auto simp: resolve_def from_env_def split: option.splits)
  then show ?thesis
  proof cases
    case 1
    then show ?thesis using assms(1) by (auto simp: client_ok_def)
  next
    case 2
    then show ?thesis using ok amb src by (auto simp: client_ok_def)
  qed
qed

lemma worker_clients_ok:
  assumes "worker_clients p http i ms blobs st = (Inr w, st')" "ambient_ok st" "\<forall>cl \<in> ran (map_of blobs). client_ok st cl"
  shows "ambient_ok st' \<and> (\<forall>cl. client_ok st cl \<longrightarrow> client_ok st' cl) \<and> (\<forall>cl \<in> ran (map_of w). client_ok st' cl) \<and>
    dom (map_of w) = dom (map_of blobs) \<union> m_name ` set ms"
  using assms
proof (induction p http i ms blobs st rule: worker_clients.induct)
  case (1 p http i blobs st)
  then show ?case by auto
next
  case (2 p http i m ms blobs st)
  obtain r st1 where r: "resolve (p m) (m_sas_token m) st = (r, st1)" by (cases "resolve (p m) (m_sas_token m) st")
  note keep = resolve_keeps [OF "2.prems"(2) r]
  obtain cred where cred: "r = Inr cred" using "2.prems"(1) r by (cases r) auto
  obtain cl where cl: "blob_client_new http cred = Inr cl"
    using "2.prems"(1) r cred by (cases "blob_client_new http cred") auto
  then have "cl = \<lparr>bc_credential = cred, bc_max_retries = 10\<rparr>" by (simp add: blob_client_new_def split: option.splits)
  then have c: "client_ok st1 cl" using keep cred by blast
  have rec: "worker_clients p http i ms (AList.update (m_name m) cl blobs) st1 = (Inr w, st')"
    using "2.prems"(1) r cred cl by simp
  have "\<forall>cl \<in> ran (map_of (AList.update (m_name m) cl blobs)). client_ok st1 cl"
    using "2.prems"(3) keep c by (auto simp: update_conv' ran_def split: if_splits)
  from "2.IH" [OF r [symmetric] cred cl rec _ this] keep
  have "ambient_ok st' \<and> (\<forall>cl. client_ok st1 cl \<longrightarrow> client_ok st' cl) \<and> (\<forall>cl \<in> ran (map_of w). client_ok st' cl) \<and>
    dom (map_of w) = dom (map_of (AList.update (m_name m) cl blobs)) \<union> m_name ` set ms" by blast
  then show ?case using keep by (auto simp: update_conv')
qed

lemma build_workers_ok:
  assumes "build_workers p rt http ms is ws st = (Inr ws', st')" "ambient_ok st"
    "\<forall>w \<in> set ws. (\<forall>cl \<in> ran (map_of w). client_ok st cl) \<and> dom (map_of w) = m_name ` set ms"
  shows "ambient_ok st' \<and> length ws' = length ws + length is \<and>
    (\<forall>w \<in> set ws'. (\<forall>cl \<in> ran (map_of w). client_ok st' cl) \<and> dom (map_of w) = m_name ` set ms)"
  using assms
proof (induction p rt http ms "is" ws st rule: build_workers.induct)
  case (1 p rt http ms ws st)
  then show ?case by auto
next
  case (2 p rt http ms i "is" ws st)
  have rt: "\<not> \<not> rt i" using "2.prems"(1) by (auto split: if_splits)
  obtain r st1 where r: "worker_clients (p i) http i ms [] st = (r, st1)" by (cases "worker_clients (p i) http i ms [] st")
  obtain w where w: "r = Inr w" using "2.prems"(1) r rt by (cases r) auto
  have ok: "ambient_ok st1 \<and> (\<forall>cl. client_ok st cl \<longrightarrow> client_ok st1 cl) \<and> (\<forall>cl \<in> ran (map_of w). client_ok st1 cl) \<and>
    dom (map_of w) = m_name ` set ms"
    using worker_clients_ok [OF r [unfolded w] "2.prems"(2)] by auto
  have rec: "build_workers p rt http ms is (ws @ [w]) st1 = (Inr ws', st')" using "2.prems"(1) r w rt by simp
  have "\<forall>w \<in> set (ws @ [w]). (\<forall>cl \<in> ran (map_of w). client_ok st1 cl) \<and> dom (map_of w) = m_name ` set ms"
    using "2.prems"(3) ok by auto
  from "2.IH" [OF rt r [symmetric] w rec _ this] ok show ?case by simp
qed

fun picks :: "nat \<Rightarrow> blob_pool \<Rightarrow> nat list" where
  "picks 0 pool = []"
| "picks (Suc m) pool = (case pick pool of (i, pool') \<Rightarrow> i # picks m pool')"

lemma picks_eq: "bp_next pool + m \<le> 2 ^ 64 \<Longrightarrow> picks m pool = map (\<lambda>j. (bp_next pool + j) mod worker_count pool) [0..<m]"
proof (induction m arbitrary: pool)
  case (Suc m)
  show ?case
  proof (cases m)
    case 0
    then show ?thesis by (simp add: pick_def worker_count_def)
  next
    case (Suc k)
    with Suc.prems have "u64_add (bp_next pool) 1 = bp_next pool + 1" by (intro u64_add_small) linarith
    then have "picks m (snd (pick pool)) = map (\<lambda>j. (bp_next pool + Suc j) mod worker_count pool) [0..<m]"
      using Suc.IH [of "snd (pick pool)"] Suc.prems by (simp add: pick_def worker_count_def)
    then show ?thesis
      by (simp add: pick_def worker_count_def map_upt_Suc del: upt_Suc)
  qed
qed simp

lemma mod_block_inj:
  fixes a b c n :: nat
  assumes "(c + a) mod n = (c + b) mod n" "a \<le> b" "b < a + n"
  shows "a = b"
proof -
  have "n dvd (c + b) - (c + a)" using assms(1,2) mod_eq_dvd_iff_nat [of "c + a" "c + b" n] by simp
  then have "n dvd b - a" by simp
  moreover have "b - a < n" using assms(2,3) by linarith
  ultimately have "b - a = 0" using nat_dvd_not_less [of "b - a" n] by blast
  with assms(2) show ?thesis by simp
qed

lemma count_block: "0 < n \<Longrightarrow> i < n \<Longrightarrow> length (filter (\<lambda>j. (c + j) mod n = i) [0..<k * n]) = k"
proof (induction k)
  case (Suc k)
  have "card {j \<in> {k * n..<k * n + n}. (c + j) mod n = i} = 1"
  proof -
    have "\<exists>!j. j \<in> {k * n..<k * n + n} \<and> (c + j) mod n = i"
    proof -
      define j where "j = k * n + (i + (n - c mod n)) mod n"
      have "(c + j) mod n = (c mod n + (i + (n - c mod n))) mod n"
        unfolding j_def by (metis (no_types, lifting) add.left_commute mod_add_left_eq mod_add_right_eq mod_mult_self3)
      also have "c mod n + (i + (n - c mod n)) = i + n" using mod_less_divisor [OF Suc.prems(1), of c] by linarith
      finally have "(c + j) mod n = i" using Suc.prems(2) by simp
      moreover have "j \<in> {k * n..<k * n + n}" using Suc.prems(1) by (simp add: j_def)
      moreover have "j' = j''" if "j' \<in> {k * n..<k * n + n}" "j'' \<in> {k * n..<k * n + n}" "(c + j') mod n = (c + j'') mod n" for j' j''
        using that mod_block_inj [of c j' n j''] mod_block_inj [of c j'' n j'] by (cases "j' \<le> j''") auto
      ultimately show ?thesis by blast
    qed
    then obtain j where "{j \<in> {k * n..<k * n + n}. (c + j) mod n = i} = {j}" by auto
    then show ?thesis by simp
  qed
  moreover have "length (filter (\<lambda>j. (c + j) mod n = i) [k * n..<k * n + n]) = card {j \<in> {k * n..<k * n + n}. (c + j) mod n = i}"
    by (simp add: distinct_card [symmetric] Int_def conj_commute)
  moreover have "[0..<Suc k * n] = [0..<k * n] @ [k * n..<k * n + n]"
    using upt_add_eq_append [of 0 "k * n" n] by (simp add: add.commute)
  ultimately show ?case using Suc by simp
qed simp

text \<open>The origin of a fetcher is this pool: at every time some state of the pool and of its clients.\<close>

definition pooled ::
  "'l world \<Rightarrow> ('u, 'w) azure_env \<Rightarrow> string \<Rightarrow> (nat \<Rightarrow> blob_pool) \<Rightarrow> (nat \<Rightarrow> ('u, 'w) az_state) \<Rightarrow> bool"
where
  "pooled w env panic pools states \<longleftrightarrow>
     (\<forall>t mount account container path off n. fe_blob (w_env w) t mount account container path off n =
        fst (pool_get_blob_range env panic mount account container path off n (pools t) (states t)))"

text \<open>What is left to assume of the rest of the node: channels, peers and the other tasks.\<close>

definition node_ok :: "'l world \<Rightarrow> bool" where
  "node_ok w \<longleftrightarrow>
     (\<forall>t ch key log m. fe_recv (w_env w) t (ch, key) log = Received m \<longrightarrow> (ch, key, m) \<in> set log) \<and>
     (\<forall>t peer url addr key len wait d. fe_peer (w_env w) t peer url addr key len wait = Inr d \<longrightarrow>
        key \<in> w_keys w \<longrightarrow> d = chunk_of w key) \<and>
     (\<forall>t c f. fetcher_ok w f \<longrightarrow> fetcher_ok w (fe_others (w_env w) t c f))"

lemma pool_range_genuine:
  assumes "honest env served blob_at" "0 < n" "off + n \<le> U64_MAX"
    and "\<And>url. blob_url env account container path = Inr url \<Longrightarrow> blob_at url = content"
    and "fst (pool_get_blob_range env panic mount account container path off n pool st) = Inr d"
  shows "d = take n (drop off content)"
proof -
  obtain cl st' where g: "get_blob_range env cl account container path off n st = (Some (Inr d), st')"
    using assms(5) by (auto simp: pool_get_blob_range_def split: prod.splits option.splits)
  obtain url where url: "blob_url env account container path = Inr url"
    using g by (cases "blob_url env account container path") (auto simp: get_blob_range_def)
  from get_blob_range_genuine [OF assms(1) url assms(2,3) g] assms(4) [OF url] show ?thesis by simp
qed

lemma pooled_world_ok:
  assumes "pooled w env panic pools states" "honest env served blob_at" "node_ok w" "0 < w_cs w"
    and "\<And>account container path url. blob_url env account container path = Inr url \<Longrightarrow> blob_at url = w_blob w account container path"
    and "\<And>key. key \<in> w_keys w \<Longrightarrow> key_offset key + w_cs w \<le> U64_MAX"
  shows "world_ok w"
proof -
  have "d = byte_slice off (w_cs w) (origin w m path)"
    if k: "\<lparr>key_mount = m_name m, key_blob = path, key_offset = off\<rparr> \<in> w_keys w"
      and d: "fe_blob (w_env w) t (m_name m) (m_account m) (m_container m) (real_path m path) off (w_cs w) = Inr d" for t m path off d
  proof -
    have "fst (pool_get_blob_range env panic (m_name m) (m_account m) (m_container m) (real_path m path) off (w_cs w) (pools t) (states t)) = Inr d"
      using assms(1) d unfolding pooled_def by simp
    moreover have "off + w_cs w \<le> U64_MAX" using assms(6) [OF k] by simp
    ultimately show ?thesis
      using pool_range_genuine [OF assms(2,4) _ assms(5)] unfolding origin_def byte_slice_def by blast
  qed
  then have "\<forall>t m blob_path off d. \<lparr>key_mount = m_name m, key_blob = blob_path, key_offset = off\<rparr> \<in> w_keys w \<longrightarrow>
        fe_blob (w_env w) t (m_name m) (m_account m) (m_container m) (real_path m blob_path) off (w_cs w) = Inr d \<longrightarrow>
        d = byte_slice off (w_cs w) (origin w m blob_path)" by blast
  with assms(3) show ?thesis unfolding world_ok_def node_ok_def by (elim conjE) (intro conjI; assumption)
qed

section \<open>Properties\<close>

text \<open>A pool that could be built has at least one worker and the configured number of them; every
  worker has a client for exactly the configured mounts, so a round-robin read of a mount never misses
  its client; every bearer credential of every worker refers to the one shared token source; and reads
  are spread evenly: of any \<open>k\<close> rounds before the counter wraps, every worker serves exactly \<open>k\<close> reads.\<close>

theorem pool_round_robin:
  assumes "pool_new p rt http mounts n st = (Inr pool, st')" "ambient_ok st"
  shows "worker_count pool = max n 1 \<and> bp_view pool = bp_workers pool ! 0 \<and>
    (\<forall>w \<in> set (bp_workers pool). dom (map_of w) = m_name ` set mounts \<and>
       (\<forall>mount cl i. map_of w mount = Some cl \<and> bc_credential cl = Bearer i \<longrightarrow> i = 0 \<and> length (as_sources st') = 1)) \<and>
    (\<forall>k c i. c + k * worker_count pool \<le> 2 ^ 64 \<and> i < worker_count pool \<longrightarrow>
       length (filter (\<lambda>j. j = i) (picks (k * worker_count pool) (pool\<lparr>bp_next := c\<rparr>))) = k)"
proof -
  obtain ws where ws: "build_workers p rt http mounts [0..<max n 1] [] st = (Inr ws, st')"
    and pool: "pool = \<lparr>bp_workers = ws, bp_next = 0, bp_view = ws ! 0\<rparr>"
    using assms(1) by (auto simp: pool_new_def split: prod.splits sum.splits)
  have ok: "length ws = max n 1" "\<forall>w \<in> set ws. (\<forall>cl \<in> ran (map_of w). client_ok st' cl) \<and> dom (map_of w) = m_name ` set mounts"
    using build_workers_ok [OF ws assms(2)] by auto
  then have n: "worker_count pool = max n 1" by (simp add: worker_count_def pool)
  have "length (filter (\<lambda>j. j = i) (picks (k * worker_count pool) (pool\<lparr>bp_next := c\<rparr>))) = k"
    if "c + k * worker_count pool \<le> 2 ^ 64" "i < worker_count pool" for k c i
  proof -
    have "picks (k * worker_count pool) (pool\<lparr>bp_next := c\<rparr>) = map (\<lambda>j. (c + j) mod worker_count pool) [0..<k * worker_count pool]"
      using picks_eq [of "pool\<lparr>bp_next := c\<rparr>"] that(1) by (simp add: worker_count_def)
    then show ?thesis using count_block [of "worker_count pool" i c k] that(2) n by (simp add: filter_map o_def)
  qed
  moreover have "i = 0 \<and> length (as_sources st') = 1"
    if "w \<in> set ws" "map_of w mount = Some cl" "bc_credential cl = Bearer i" for w mount cl i
    using ok(2) that unfolding client_ok_def by (meson ranI)
  ultimately show ?thesis using n ok(2) by (simp add: pool) blast
qed

definition tiny_pool :: blob_pool where
  "tiny_pool = \<lparr>bp_workers = [[(''m'', tiny_client)], [(''m'', tiny_client)]], bp_next = 0, bp_view = [(''m'', tiny_client)]\<rparr>"

definition anon_idp :: idp where
  "anon_idp = no_idp\<lparr>idp_get := (\<lambda>_. Inl [])\<rparr>"

lemma tiny_pool_new:
  "pool_new (\<lambda>_ _. anon_idp) (\<lambda>_. True) None [sample_mount ''m''] 2 \<lparr>as_ambient = None, as_sources = []\<rparr> =
     (Inr tiny_pool, \<lparr>as_ambient = None, as_sources = []\<rparr>)"
proof -
  have two: "[0..<max 2 1] = [0, Suc 0]" by (simp add: upt_rec)
  have r: "resolve anon_idp None \<lparr>as_ambient = None, as_sources = []\<rparr> = (Inr Anonymous, \<lparr>as_ambient = None, as_sources = []\<rparr>)"
    by (simp add: resolve_def from_env_def resolve_ambient_def get_storage_token_workload_def get_storage_token_imds_def
        anon_idp_def no_idp_def)
  show ?thesis unfolding pool_new_def two
    by (simp add: r sample_mount_def blob_client_new_def tiny_pool_def tiny_client_def)
qed

theorem pool_round_robin_witness:
  "worker_count tiny_pool = 2 \<and> length (filter (\<lambda>j. j = 1) (picks (3 * worker_count tiny_pool) (tiny_pool\<lparr>bp_next := 7\<rparr>))) = 3"
proof -
  have "ambient_ok \<lparr>as_ambient = None, as_sources = []\<rparr>" by (simp add: ambient_ok_def)
  note w = pool_round_robin [OF tiny_pool_new this]
  have n: "worker_count tiny_pool = 2" by (simp add: worker_count_def tiny_pool_def)
  from w have "7 + 3 * worker_count tiny_pool \<le> 2 ^ 64 \<and> 1 < worker_count tiny_pool \<longrightarrow>
      length (filter (\<lambda>j. j = 1) (picks (3 * worker_count tiny_pool) (tiny_pool\<lparr>bp_next := 7\<rparr>))) = 3" by blast
  then show ?thesis by (simp add: n)
qed

text \<open>C1: from the file read down to the HTTP request. For a fetcher whose origin is this pool and blob client,
  with an honest storage service behind URLs that name the mounts' blobs, and channels, peers and other
  tasks as before: a read returns exactly the requested bytes of the blob or an error, whatever retries,
  token refreshes, worker choices and concurrent activity happen on the way; and it succeeds if chunk
  reads of the origin, joins and leaders succeed.\<close>

theorem end_to_end_read:
  assumes "pooled w env panic pools states" "honest env served blob_at" "node_ok w" "0 < w_cs w"
    and "\<And>account container path url. blob_url env account container path = Inr url \<Longrightarrow> blob_at url = w_blob w account container path"
    and "\<And>key. key \<in> w_keys w \<Longrightarrow> key_offset key + w_cs w \<le> U64_MAX"
    and "fetcher_ok w f" "map_of (w_mounts w) (m_name m) = Some m" "length (origin w m blob_path) \<le> U64_MAX"
    and "\<And>p. w_cs w dvd p \<Longrightarrow> p < length (origin w m blob_path) \<Longrightarrow>
      \<lparr>key_mount = m_name m, key_blob = blob_path, key_offset = p\<rparr> \<in> w_keys w"
    and "fetch_range (w_env w) m blob_path off len (length (origin w m blob_path)) f = (r, f')"
  shows "fetcher_ok w f' \<and> (\<forall>b. r = Inr b \<longrightarrow> b = take len (drop off (origin w m blob_path))) \<and>
    (healthy w \<and> len \<le> MAX_READ_BYTES \<longrightarrow> r = Inr (take len (drop off (origin w m blob_path))))"
  using fetch_range_ok [OF pooled_world_ok [OF assms(1-6)] assms(7,8,4,9-11)] by blast

text \<open>The small world of the fetcher, on top of the small storage service.\<close>

definition pooled_world :: "(chunk_key \<times> bytes) list world" where
  "pooled_world = small_world\<lparr>w_env := small_env\<lparr>fe_blob := (\<lambda>t mount account container path off n.
     fst (pool_get_blob_range tiny_env [] mount account container path off n tiny_pool tiny_state))\<rparr>\<rparr>"

lemma pooled_same:
  "chunk_of pooled_world = chunk_of small_world"
  "fe_recv (w_env pooled_world) = fe_recv (w_env small_world)" "fe_peer (w_env pooled_world) = fe_peer (w_env small_world)"
  "fe_others (w_env pooled_world) = fe_others (w_env small_world)" "fe_join (w_env pooled_world) = fe_join (w_env small_world)"
  "fe_sha (w_env pooled_world) = fe_sha (w_env small_world)" "fe_lru (w_env pooled_world) = fe_lru (w_env small_world)"
  "w_keys pooled_world = w_keys small_world" "w_cs pooled_world = w_cs small_world"
  "w_mounts pooled_world = w_mounts small_world" "w_view pooled_world = w_view small_world"
  by (simp_all add: fun_eq_iff chunk_of_def pooled_world_def small_world_def origin_def)

lemma pooled_fetcher_ok: "fetcher_ok pooled_world f \<longleftrightarrow> fetcher_ok small_world f"
  unfolding fetcher_ok_def pooled_same ..

lemma tiny_pool_get:
  "fst (pool_get_blob_range tiny_env [] ''m'' ''acc'' ''c'' ''b'' 0 4 tiny_pool tiny_state) = Inr [1, 2, 3]"
  by (simp add: pool_get_blob_range_def pick_def tiny_pool_def tiny_get)

lemma pooled_world_facts:
  "pooled pooled_world tiny_env [] (\<lambda>_. tiny_pool) (\<lambda>_. tiny_state)" "node_ok pooled_world" "healthy pooled_world"
proof -
  show "pooled pooled_world tiny_env [] (\<lambda>_. tiny_pool) (\<lambda>_. tiny_state)" by (simp add: pooled_def pooled_world_def)
  show "node_ok pooled_world"
    using small_world_ok unfolding node_ok_def world_ok_def pooled_fetcher_ok pooled_same
    by (elim conjE) (intro conjI; assumption)
  have "\<exists>d. fe_blob (w_env pooled_world) t (m_name m) (m_account m) (m_container m) (real_path m path) off (w_cs pooled_world) = Inr d"
    if "map_of (w_mounts pooled_world) (m_name m) = Some m" "\<lparr>key_mount = m_name m, key_blob = path, key_offset = off\<rparr> \<in> w_keys pooled_world"
    for t m path off
  proof -
    have "m = sample_mount ''m''" "path = ''b''" "off = 0"
      using that by (auto simp: pooled_world_def small_world_def sample_key_def split: if_splits)
    then show ?thesis using tiny_pool_get by (simp add: pooled_world_def small_world_def sample_mount_def real_path_def)
  qed
  then have "\<forall>t m blob_path off. map_of (w_mounts pooled_world) (m_name m) = Some m \<longrightarrow>
      \<lparr>key_mount = m_name m, key_blob = blob_path, key_offset = off\<rparr> \<in> w_keys pooled_world \<longrightarrow>
      (\<exists>d. fe_blob (w_env pooled_world) t (m_name m) (m_account m) (m_container m) (real_path m blob_path) off (w_cs pooled_world) = Inr d)"
    by blast
  with small_world_healthy show "healthy pooled_world" unfolding healthy_def pooled_same by (elim conjE) (intro conjI; assumption)
qed

theorem end_to_end_read_witness:
  "fst (fetch_range (w_env pooled_world) (sample_mount ''m'') ''b'' 1 5 3 small_fetcher) = Inr [2, 3]"
proof -
  have o: "origin pooled_world (sample_mount ''m'') ''b'' = [1, 2, 3]" by (simp add: pooled_world_def small_world_def origin_def)
  obtain r f' where run: "fetch_range (w_env pooled_world) (sample_mount ''m'') ''b'' 1 5
      (length (origin pooled_world (sample_mount ''m'') ''b'')) small_fetcher = (r, f')" by force
  have cs: "w_cs pooled_world = 4" "w_keys pooled_world = {sample_key 0}" by (simp_all add: pooled_world_def small_world_def)
  have keys: "\<lparr>key_mount = m_name (sample_mount ''m''), key_blob = ''b'', key_offset = p\<rparr> \<in> w_keys pooled_world"
    if "w_cs pooled_world dvd p" "p < length (origin pooled_world (sample_mount ''m'') ''b'')" for p
  proof -
    have "p = 0" using that unfolding cs o by (auto simp: dvd_def)
    then show ?thesis unfolding cs by (simp add: sample_key_def sample_mount_def)
  qed
  have "(5::nat) \<le> MAX_READ_BYTES" by (simp add: MAX_READ_BYTES_def)
  moreover have "r = Inr (take 5 (drop 1 (origin pooled_world (sample_mount ''m'') ''b'')))" if "(5::nat) \<le> MAX_READ_BYTES"
  proof (rule end_to_end_read [OF pooled_world_facts(1) tiny_honest pooled_world_facts(2) _ _ _ _ _ _ keys run, THEN conjunct2, THEN conjunct2, THEN mp])
    show "0 < w_cs pooled_world" by (simp add: cs)
    show "[1, 2, 3] = w_blob pooled_world account container path" for account container path
      by (simp add: pooled_world_def small_world_def)
    show "key_offset key + w_cs pooled_world \<le> U64_MAX" if "key \<in> w_keys pooled_world" for key
      using that by (simp add: cs sample_key_def U64_MAX_def)
    show "fetcher_ok pooled_world small_fetcher" by (simp add: pooled_fetcher_ok small_fetcher_ok)
    show "map_of (w_mounts pooled_world) (m_name (sample_mount ''m'')) = Some (sample_mount ''m'')"
      by (simp add: pooled_world_def small_world_def sample_mount_def)
    show "length (origin pooled_world (sample_mount ''m'') ''b'') \<le> U64_MAX" by (simp add: o U64_MAX_def)
    show "healthy pooled_world \<and> 5 \<le> MAX_READ_BYTES" using pooled_world_facts(3) that by blast
  qed
  ultimately have "r = Inr [2, 3]" by (simp add: o)
  moreover have "length (origin pooled_world (sample_mount ''m'') ''b'') = 3" by (simp add: o)
  ultimately show ?thesis using run by simp
qed

end
