(* ===== verification/Hydrate.thy ===== *)
theory Hydrate
  imports Pool
begin

text \<open>
  Hydration (\<open>src/hydrate.rs\<close>): a coordinator lists the blobs of a mount, cuts them into chunks, deals the
  chunks round robin to the alive nodes, lets every node fetch its share from the origin (phase A) and
  then, on request, spreads the shares over all nodes by broadcast or around a ring (phase B).

  The tasks a handler spawns run one after the other here; what runs beside them acts at every await, as
  in \<open>Fetcher\<close>. Semaphores only delay and are not modelled. What other nodes answer, the clocks and which
  timeouts fire are parameters (\<open>hydrate_env\<close>), indexed by the time of the call. The throughput figures
  (\<open>f64\<close>) are not modelled. A handler that waits for the background inserts has no result if they never
  drain.
\<close>

section \<open>Messages\<close>

record chunk_spec =
  sp_blob :: string
  sp_offset :: nat
  sp_len :: nat

record shard_request =
  sh_mount :: string
  sh_chunks :: "chunk_spec list"

record shard_response =
  sr_fetched :: nat
  sr_bytes :: nat
  sr_errors :: "string list"
  sr_elapsed_ms :: nat
  sr_start_unix_ms :: nat
  sr_end_unix_ms :: nat

datatype hydrate_mode = DefaultMode | Broadcast | Ring

record hydrate_request =
  hr_mount :: string
  hr_path :: string
  hr_recursive :: "bool option"
  hr_mode :: "hydrate_mode option"

record broadcast_source =
  src_node_id :: string
  src_transport_url :: string
  src_worker_b64 :: "string option"
  src_chunks :: "chunk_spec list"

record broadcast_request =
  bq_mount :: string
  bq_sources :: "broadcast_source list"

record broadcast_response = shard_response +
  br_assigned :: nat

record ring_request =
  rr_mount :: string
  rr_step :: nat
  rr_source_node_id :: string
  rr_prev_node_id :: string
  rr_prev_transport_url :: string
  rr_prev_worker_b64 :: "string option"
  rr_chunks :: "chunk_spec list"

record ring_response =
  rp_fetched :: nat
  rp_bytes :: nat
  rp_errors :: "string list"
  rp_pulls_ms :: nat
  rp_drain_ms :: nat
  rp_start_unix_ms :: nat
  rp_end_unix_ms :: nat

record ring_step_per_pod =
  pp_node_id :: string
  pp_fetched :: nat
  pp_bytes :: nat
  pp_pulls_ms :: nat
  pp_drain_ms :: nat
  pp_n_errors :: nat

record ring_step_stat =
  rs_step :: nat
  rs_source_rank :: nat
  rs_start_unix_ms :: nat
  rs_end_unix_ms :: nat
  rs_elapsed_ms :: nat
  rs_bytes :: nat
  rs_n_chunks :: nat
  rs_n_errors :: nat
  rs_per_pod :: "ring_step_per_pod list"

record peer_stats =
  ps_node_id :: string
  ps_assigned :: nat
  ps_fetched :: nat
  ps_bytes :: nat
  ps_errors :: "string list"
  ps_elapsed_ms :: nat
  ps_start_unix_ms :: nat
  ps_end_unix_ms :: nat

record hydrate_response =
  hp_mount :: string
  hp_path :: string
  hp_total_files :: nat
  hp_total_chunks :: nat
  hp_total_bytes :: nat
  hp_elapsed_ms :: nat
  hp_peers :: "peer_stats list"
  hp_mode :: hydrate_mode
  hp_phase_a_elapsed_ms :: "nat option"
  hp_phase_b_elapsed_ms :: "nat option"
  hp_broadcast_peers :: "peer_stats list"
  hp_ring_steps :: "ring_step_stat list"

text \<open>An HTTP call fails (\<open>Inl\<close>), or its reply cannot be decoded, or is decoded.\<close>

type_synonym 'a post_reply = "string + string + 'a"

record hydrate_env =
  he_unix_ms :: "nat \<Rightarrow> nat"
  he_instant_ms :: "nat \<Rightarrow> nat"
  he_post_shard :: "nat \<Rightarrow> string \<Rightarrow> shard_request \<Rightarrow> shard_response post_reply"
  he_post_broadcast :: "nat \<Rightarrow> string \<Rightarrow> broadcast_request \<Rightarrow> broadcast_response post_reply"
  he_post_ring :: "nat \<Rightarrow> string \<Rightarrow> ring_request \<Rightarrow> ring_response post_reply"
  he_task_join :: "nat \<Rightarrow> string \<Rightarrow> string option"
  he_timeout :: "nat \<Rightarrow> bool"
  he_timeout_secs :: "string option"
  he_mode_var :: "string option"

section \<open>Worker side\<close>

definition push_error :: "string \<Rightarrow> string list \<Rightarrow> string list" where
  "push_error e errors = (if length errors < 32 then errors @ [e] else errors)"

text \<open>The spawned chunk tasks, each under a chunk permit, with the outcome of joining them.\<close>

fun run_jobs ::
  "'l fetch_env \<Rightarrow> ('c \<Rightarrow> 'l fetcher \<Rightarrow> bytes result \<times> 'l fetcher) \<Rightarrow> 'c list \<Rightarrow> 'l fetcher \<Rightarrow>
   ('c \<times> (string + bytes result)) list \<times> 'l fetcher"
where
  "run_jobs env work [] f = ([], f)"
| "run_jobs env work (c # cs) f =
     (let f1 = bump ''chunk_permits_in_use'' 1 (await env f) in
      case work c f1 of
        (r, f2) \<Rightarrow>
          let f3 = await env (bump ''chunk_permits_in_use'' (- 1) f2);
              joined = (case fe_join env (f_clock f2) of Some e \<Rightarrow> Inl e | None \<Rightarrow> Inr r) in
          (case run_jobs env work cs f3 of (rest, f4) \<Rightarrow> ((c, joined) # rest, f4)))"

text \<open>The loop over the joined tasks: number fetched, bytes and errors so far.\<close>

fun tally ::
  "('c \<Rightarrow> bc_error \<Rightarrow> string) \<Rightarrow> (string \<Rightarrow> string) \<Rightarrow> ('c \<times> (string + bytes result)) list \<Rightarrow> nat \<times> nat \<times> string list \<Rightarrow>
   nat \<times> nat \<times> string list"
where
  "tally failed unjoined [] acc = acc"
| "tally failed unjoined ((c, joined) # rest) (fetched, bytes, errors) =
     tally failed unjoined rest
       (case joined of
          Inr (Inr b) \<Rightarrow> (fetched + 1, u64_add bytes (length b), errors)
        | Inr (Inl e) \<Rightarrow> (fetched, bytes, push_error (failed c e) errors)
        | Inl e \<Rightarrow> (fetched, bytes, push_error (unjoined e) errors))"

definition at_offset :: "chunk_spec \<Rightarrow> string" where
  "at_offset c = sp_blob c @ ''@'' @ show_dec (sp_offset c)"

definition insert_error :: "chunk_key \<Rightarrow> string \<Rightarrow> string" where
  "insert_error k e = ''insert: '' @ key_blob k @ ''@'' @ show_dec (key_offset k) @ '': '' @ e"

definition run_shard ::
  "hydrate_env \<Rightarrow> 'l fetch_env \<Rightarrow> (string, mount_config) hmap \<Rightarrow> shard_request \<Rightarrow> 'l fetcher \<Rightarrow> (shard_response \<times> 'l fetcher) option"
where
  "run_shard he env mounts req f =
     (case map_of mounts (sh_mount req) of
        None \<Rightarrow>
          Some (\<lparr>sr_fetched = 0, sr_bytes = 0, sr_errors = [''unknown mount '' @ sh_mount req], sr_elapsed_ms = 0,
                 sr_start_unix_ms = he_unix_ms he (f_clock f), sr_end_unix_ms = he_unix_ms he (f_clock f)\<rparr>, f)
      | Some m \<Rightarrow>
          (case run_jobs env (\<lambda>c f. fetch_chunk_origin_only env m (sp_blob c) (sp_offset c) (sp_len c) f) (sh_chunks req) f of
             (results, f1) \<Rightarrow>
               (case tally (\<lambda>c e. at_offset c @ '': '' @ show_error e) (\<lambda>e. ''join: '' @ e) results (0, 0, []) of
                  (fetched, bytes, errors) \<Rightarrow>
                    (case await_inserts_drained env f1 of
                       None \<Rightarrow> None
                     | Some f2 \<Rightarrow>
                         (case take_insert_failures f2 of
                            (lost, f3) \<Rightarrow>
                              let errors = fold (\<lambda>(k, e). push_error (insert_error k e))
                                             lost errors in
                              Some (\<lparr>sr_fetched = fetched, sr_bytes = bytes, sr_errors = errors,
                                     sr_elapsed_ms = he_instant_ms he (f_clock f3) - he_instant_ms he (f_clock f),
                                     sr_start_unix_ms = he_unix_ms he (f_clock f), sr_end_unix_ms = he_unix_ms he (f_clock f3)\<rparr>, f3))))))"

text \<open>One chunk of every source per round, until no source has chunks left.\<close>

function rounds :: "('s \<times> 'c list) list \<Rightarrow> ('s \<times> 'c) list" where
  "rounds ss =
     (if list_all (\<lambda>s. snd s = []) ss then []
      else map (\<lambda>s. (fst s, hd (snd s))) (filter (\<lambda>s. snd s \<noteq> []) ss) @ rounds (map (\<lambda>s. (fst s, tl (snd s))) ss))"
  by pat_completeness auto

lemma tl_total: "\<not> list_all (\<lambda>s. snd s = []) ss \<Longrightarrow>
  sum_list (map (\<lambda>s. length (tl (snd s))) ss) < sum_list (map (\<lambda>s. length (snd s)) (ss :: ('s \<times> 'c list) list))"
proof (induction ss)
  case (Cons s ss)
  show ?case
  proof (cases "snd s = []")
    case True
    with Cons show ?thesis by simp
  next
    case False
    have "sum_list (map (\<lambda>s. length (tl (snd s))) ss) \<le> sum_list (map (\<lambda>s. length (snd s)) ss)"
      by (rule sum_list_mono) simp
    moreover have "length (tl (snd s)) < length (snd s)" using False by simp
    ultimately show ?thesis by simp
  qed
qed simp

termination rounds
proof (relation "measure (\<lambda>ss. sum_list (map (\<lambda>s. length (snd s)) ss))")
  fix ss :: "('s \<times> 'c list) list"
  assume "\<not> list_all (\<lambda>s. snd s = []) ss"
  from tl_total [OF this] show "(map (\<lambda>s. (fst s, tl (snd s))) ss, ss) \<in> measure (\<lambda>ss. sum_list (map (\<lambda>s. length (snd s)) ss))"
    by (simp add: o_def)
qed simp

declare rounds.simps [simp del]

definition assigned_of :: "broadcast_source list \<Rightarrow> nat" where
  "assigned_of sources = sum_list (map (\<lambda>s. length (src_chunks s)) sources)"

definition source_addr :: "'l fetch_env \<Rightarrow> broadcast_source \<Rightarrow> bytes option" where
  "source_addr env s = Option.bind (src_worker_b64 s) (fe_b64 env)"

text \<open>The chunk tasks of a broadcast shard, in the order they are spawned.\<close>

definition broadcast_jobs :: "broadcast_source list \<Rightarrow> (broadcast_source \<times> chunk_spec) list" where
  "broadcast_jobs sources = rounds (map (\<lambda>s. (s, src_chunks s)) sources)"

definition silent_loss :: "string \<Rightarrow> nat \<Rightarrow> nat \<Rightarrow> string list \<Rightarrow> string list" where
  "silent_loss label assigned fetched errors =
     (let accounted = sat_add fetched (length errors) in
      if accounted < assigned
      then errors @ [label @ '' assigned='' @ show_dec assigned @ '' fetched='' @ show_dec fetched @ '' reported_errors=''
                       @ show_dec (length errors) @ '' lost='' @ show_dec (assigned - accounted)]
      else errors)"

definition run_broadcast_shard ::
  "hydrate_env \<Rightarrow> 'l fetch_env \<Rightarrow> (string, mount_config) hmap \<Rightarrow> broadcast_request \<Rightarrow> 'l fetcher \<Rightarrow> (broadcast_response \<times> 'l fetcher) option"
where
  "run_broadcast_shard he env mounts req f =
     (case map_of mounts (bq_mount req) of
        None \<Rightarrow>
          Some (\<lparr>sr_fetched = 0, sr_bytes = 0, sr_errors = [''unknown mount '' @ bq_mount req], sr_elapsed_ms = 0,
                 sr_start_unix_ms = he_unix_ms he (f_clock f), sr_end_unix_ms = he_unix_ms he (f_clock f), br_assigned = 0\<rparr>, f)
      | Some m \<Rightarrow>
          (case run_jobs env (\<lambda>(s, c) f. pull_chunk_from_peer env m (sp_blob c) (sp_offset c) (sp_len c)
                                 (src_node_id s) (src_transport_url s) (source_addr env s) f)
                  (broadcast_jobs (bq_sources req)) f of
             (results, f1) \<Rightarrow>
               (case tally (\<lambda>(s, c) e. ''from '' @ src_node_id s @ '' '' @ at_offset c @ '': '' @ show_error e)
                       (\<lambda>e. ''join: '' @ e) results (0, 0, []) of
                  (fetched, bytes, errors) \<Rightarrow>
                    (case await_inserts_drained env f1 of
                       None \<Rightarrow> None
                     | Some f2 \<Rightarrow>
                         Some (\<lparr>sr_fetched = fetched, sr_bytes = bytes,
                                sr_errors = silent_loss ''silent loss:'' (assigned_of (bq_sources req)) fetched errors,
                                sr_elapsed_ms = he_instant_ms he (f_clock f2) - he_instant_ms he (f_clock f),
                                sr_start_unix_ms = he_unix_ms he (f_clock f), sr_end_unix_ms = he_unix_ms he (f_clock f2),
                                br_assigned = assigned_of (bq_sources req)\<rparr>, f2)))))"

definition ring_failure :: "hydrate_env \<Rightarrow> 'l fetcher \<Rightarrow> string \<Rightarrow> ring_response" where
  "ring_failure he f e =
     \<lparr>rp_fetched = 0, rp_bytes = 0, rp_errors = [e], rp_pulls_ms = 0, rp_drain_ms = 0,
      rp_start_unix_ms = he_unix_ms he (f_clock f), rp_end_unix_ms = he_unix_ms he (f_clock f)\<rparr>"

text \<open>\<open>b64_error\<close> is the text of a base64 decoding error.\<close>

definition run_ring_step ::
  "hydrate_env \<Rightarrow> 'l fetch_env \<Rightarrow> string \<Rightarrow> (string, mount_config) hmap \<Rightarrow> ring_request \<Rightarrow> 'l fetcher \<Rightarrow> (ring_response \<times> 'l fetcher) option"
where
  "run_ring_step he env b64_error mounts req f =
     (case map_of mounts (rr_mount req) of
        None \<Rightarrow> Some (ring_failure he f (''unknown mount '' @ rr_mount req), f)
      | Some m \<Rightarrow>
          if rr_prev_worker_b64 req \<noteq> None \<and> Option.bind (rr_prev_worker_b64 req) (fe_b64 env) = None
          then Some (ring_failure he f (''bad prev worker addr: '' @ b64_error), f)
          else
            (case run_jobs env (\<lambda>c f. pull_chunk_from_peer_wait env m (sp_blob c) (sp_offset c) (sp_len c)
                                   (rr_prev_node_id req) (rr_prev_transport_url req)
                                   (Option.bind (rr_prev_worker_b64 req) (fe_b64 env)) 0 f)
                    (rr_chunks req) f of
               (results, f1) \<Rightarrow>
                 (case tally (\<lambda>c e. ''step '' @ show_dec (rr_step req) @ '' from '' @ rr_prev_node_id req @ '' '' @ at_offset c
                                      @ '': '' @ show_error e)
                         (\<lambda>e. ''step '' @ show_dec (rr_step req) @ '' join: '' @ e) results (0, 0, []) of
                    (fetched, bytes, errors) \<Rightarrow>
                      (case await_inserts_drained env f1 of
                         None \<Rightarrow> None
                       | Some f2 \<Rightarrow>
                           Some (\<lparr>rp_fetched = fetched, rp_bytes = bytes, rp_errors = errors,
                                  rp_pulls_ms = he_instant_ms he (f_clock f1) - he_instant_ms he (f_clock f),
                                  rp_drain_ms = he_instant_ms he (f_clock f2) - he_instant_ms he (f_clock f1),
                                  rp_start_unix_ms = he_unix_ms he (f_clock f), rp_end_unix_ms = he_unix_ms he (f_clock f2)\<rparr>, f2)))))"

section \<open>The plan\<close>

definition hydrate_mode_of :: "string option \<Rightarrow> hydrate_mode option \<Rightarrow> hydrate_mode" where
  "hydrate_mode_of var request_mode =
     (let fallback = (case request_mode of Some m \<Rightarrow> m | None \<Rightarrow> DefaultMode) in
      case var of
        Some s \<Rightarrow>
          if to_lowercase s = ''broadcast'' then Broadcast
          else if to_lowercase s = ''ring'' then Ring
          else fallback
      | None \<Rightarrow> fallback)"

definition combined_prefix :: "mount_config \<Rightarrow> string \<Rightarrow> string" where
  "combined_prefix m path =
     (if m_prefix m = [] then path
      else if path = [] then m_prefix m
      else trim_end_matches CHR ''/'' (m_prefix m) @ (if starts_with path ''/'' then path else ''/'' @ path))"

definition blob_path_of :: "mount_config \<Rightarrow> string \<Rightarrow> string" where
  "blob_path_of m name =
     (if m_prefix m \<noteq> [] \<and> starts_with name (m_prefix m)
      then trim_start_matches CHR ''/'' (drop (length (m_prefix m)) name)
      else name)"

text \<open>The loop that cuts a blob; with a chunk size of zero it does not end.\<close>

partial_function (option) chunk_loop :: "nat \<Rightarrow> string \<Rightarrow> nat \<Rightarrow> nat \<Rightarrow> chunk_spec list option" where
  "chunk_loop chunk_size blob content_length off =
     (if off < content_length then
        let len = min chunk_size (content_length - off) in
        Option.bind (chunk_loop chunk_size blob content_length (off + len))
          (\<lambda>rest. Some (\<lparr>sp_blob = blob, sp_offset = off, sp_len = len\<rparr> # rest))
      else Some [])"

fun enumerate_chunks :: "nat \<Rightarrow> mount_config \<Rightarrow> listed_blob list \<Rightarrow> (nat \<times> chunk_spec list) option" where
  "enumerate_chunks chunk_size m [] = Some (0, [])"
| "enumerate_chunks chunk_size m (b # bs) =
     (if lb_content_length b = 0 then enumerate_chunks chunk_size m bs
      else Option.bind (chunk_loop chunk_size (blob_path_of m (lb_name b)) (lb_content_length b) 0) (\<lambda>cs.
             Option.bind (enumerate_chunks chunk_size m bs) (\<lambda>(files, rest). Some (files + 1, cs @ rest))))"

type_synonym target = "string \<times> string option \<times> string option"

definition hydrate_targets :: "string \<Rightarrow> node_info list \<Rightarrow> target list" where
  "hydrate_targets me ns =
     (me, None, Option.bind (find (\<lambda>n. n_id n = me) ns) ucx_worker_addr_b64) #
     map (\<lambda>n. (n_id n, Some (transport_url n), ucx_worker_addr_b64 n)) (filter (\<lambda>n. n_state n = Alive \<and> n_id n \<noteq> me) ns)"

text \<open>\<open>buckets[i % n_targets].push(c)\<close>.\<close>

fun deal :: "nat \<Rightarrow> 'c list \<Rightarrow> 'c list list \<Rightarrow> 'c list list" where
  "deal i [] buckets = buckets"
| "deal i (c # cs) buckets =
     (let b = i mod length buckets in deal (i + 1) cs (buckets[b := buckets ! b @ [c]]))"

definition make_plan :: "string \<Rightarrow> target list \<Rightarrow> chunk_spec list list \<Rightarrow> broadcast_source list" where
  "make_plan me_url ts buckets =
     map (\<lambda>((node_id, url, b64), chunks).
            \<lparr>src_node_id = node_id, src_transport_url = (case url of Some u \<Rightarrow> u | None \<Rightarrow> me_url), src_worker_b64 = b64,
             src_chunks = chunks\<rparr>) (zip ts buckets)"

end
