(* ===== verification/Coordinator.thy ===== *)
theory Coordinator
  imports Hydrate
begin

text \<open>The coordinator side of hydration: phase A, the two forms of phase B, and \<open>run_coordinator\<close> itself.\<close>

section \<open>Endpoints and statistics\<close>

function trim_start_str :: "string \<Rightarrow> string \<Rightarrow> string" where
  "trim_start_str p s = (if p \<noteq> [] \<and> prefix p s then trim_start_str p (drop (length p) s) else s)"
  by pat_completeness auto
termination by (relation "measure (\<lambda>(p, s). length s)") (auto simp: prefix_def)

declare trim_start_str.simps [simp del]

definition endpoint :: "string \<Rightarrow> string \<Rightarrow> string" where
  "endpoint url path =
     ''http://'' @ takeWhile (\<lambda>c. c \<noteq> CHR '':'') (trim_start_str ''http://'' url) @ '':7773/'' @ path"

definition stats_of :: "string \<Rightarrow> nat \<Rightarrow> ('z) shard_response_scheme \<Rightarrow> peer_stats" where
  "stats_of node assigned r =
     \<lparr>ps_node_id = node, ps_assigned = assigned, ps_fetched = sr_fetched r, ps_bytes = sr_bytes r, ps_errors = sr_errors r,
      ps_elapsed_ms = sr_elapsed_ms r, ps_start_unix_ms = sr_start_unix_ms r, ps_end_unix_ms = sr_end_unix_ms r\<rparr>"

definition failed_stats :: "hydrate_env \<Rightarrow> nat \<Rightarrow> nat \<Rightarrow> string \<Rightarrow> nat \<Rightarrow> string \<Rightarrow> peer_stats" where
  "failed_stats he t0 t1 node assigned e =
     \<lparr>ps_node_id = node, ps_assigned = assigned, ps_fetched = 0, ps_bytes = 0, ps_errors = [e],
      ps_elapsed_ms = he_instant_ms he t1 - he_instant_ms he t0, ps_start_unix_ms = he_unix_ms he t0, ps_end_unix_ms = he_unix_ms he t1\<rparr>"

definition unjoined_stats :: "string \<Rightarrow> peer_stats" where
  "unjoined_stats e =
     \<lparr>ps_node_id = ''unknown'', ps_assigned = 0, ps_fetched = 0, ps_bytes = 0, ps_errors = [''join: '' @ e],
      ps_elapsed_ms = 0, ps_start_unix_ms = 0, ps_end_unix_ms = 0\<rparr>"

definition joined_stats :: "hydrate_env \<Rightarrow> nat \<Rightarrow> string \<Rightarrow> peer_stats \<Rightarrow> peer_stats" where
  "joined_stats he t node s = (case he_task_join he t node of Some e \<Rightarrow> unjoined_stats e | None \<Rightarrow> s)"

definition timeout_secs :: "hydrate_env \<Rightarrow> nat" where
  "timeout_secs he = (case Option.bind (he_timeout_secs he) parse_u64 of Some n \<Rightarrow> n | None \<Rightarrow> 3700)"

definition timeout_stats :: "hydrate_env \<Rightarrow> nat \<Rightarrow> string \<Rightarrow> peer_stats" where
  "timeout_stats he t label =
     \<lparr>ps_node_id = ''coordinator'', ps_assigned = 0, ps_fetched = 0, ps_bytes = 0,
      ps_errors = [label @ show_dec (timeout_secs he) @ ''s; aborted outstanding shards''],
      ps_elapsed_ms = timeout_secs he * 1000, ps_start_unix_ms = 0, ps_end_unix_ms = he_unix_ms he t\<rparr>"

section \<open>Phase A\<close>

definition post_shard :: "hydrate_env \<Rightarrow> nat \<Rightarrow> nat \<Rightarrow> string \<Rightarrow> string \<Rightarrow> shard_request \<Rightarrow> peer_stats" where
  "post_shard he t0 t1 node url req =
     (let assigned = length (sh_chunks req) in
      case he_post_shard he t0 (endpoint url ''hydrate-shard'') req of
        Inl e \<Rightarrow> failed_stats he t0 t1 node assigned (''post: '' @ e)
      | Inr (Inl e) \<Rightarrow> failed_stats he t0 t1 node assigned (''decode: '' @ e)
      | Inr (Inr r) \<Rightarrow> stats_of node assigned r)"

fun phase_a ::
  "hydrate_env \<Rightarrow> 'l fetch_env \<Rightarrow> (string, mount_config) hmap \<Rightarrow> string \<Rightarrow> (target \<times> chunk_spec list) list \<Rightarrow> 'l fetcher \<Rightarrow>
   (peer_stats list \<times> 'l fetcher) option"
where
  "phase_a he env mounts mount [] f = Some ([], f)"
| "phase_a he env mounts mount (((node, url, b64), chunks) # rest) f =
     (let req = \<lparr>sh_mount = mount, sh_chunks = chunks\<rparr> in
      Option.bind
        (case url of
           None \<Rightarrow> map_option (\<lambda>(r, f1). (stats_of node (length chunks) r, f1)) (run_shard he env mounts req f)
         | Some u \<Rightarrow> (let f1 = await env f in Some (post_shard he (f_clock f) (f_clock f1) node u req, f1)))
        (\<lambda>(s, f1). map_option (\<lambda>(ss, f2). (joined_stats he (f_clock f1) node s # ss, f2)) (phase_a he env mounts mount rest f1)))"

definition run_phase_a ::
  "hydrate_env \<Rightarrow> 'l fetch_env \<Rightarrow> (string, mount_config) hmap \<Rightarrow> string \<Rightarrow> (target \<times> chunk_spec list) list \<Rightarrow> 'l fetcher \<Rightarrow>
   (peer_stats list \<times> 'l fetcher) option"
where
  "run_phase_a he env mounts mount work f =
     (if he_timeout he (f_clock f)
      then (let f1 = await env f in Some ([timeout_stats he (f_clock f1) ''coordinator timeout after ''], f1))
      else phase_a he env mounts mount work f)"

section \<open>Phase B: broadcast\<close>

definition other_sources :: "string \<Rightarrow> broadcast_source list \<Rightarrow> broadcast_source list" where
  "other_sources receiver plan = filter (\<lambda>s. src_node_id s \<noteq> receiver) plan"

text \<open>The coordinator's cross-check of what a receiver reports.\<close>

definition check_receiver :: "nat \<Rightarrow> broadcast_response \<Rightarrow> string list" where
  "check_receiver assigned r =
     (let errors = (if br_assigned r \<noteq> 0 \<and> br_assigned r \<noteq> assigned
                    then (''protocol skew: coordinator assigned='' @ show_dec assigned @ '' receiver assigned='' @ show_dec (br_assigned r)) # sr_errors r
                    else sr_errors r) in
      silent_loss ''coordinator silent-loss check:'' assigned (sr_fetched r) errors)"

definition post_broadcast :: "hydrate_env \<Rightarrow> nat \<Rightarrow> nat \<Rightarrow> string \<Rightarrow> string \<Rightarrow> broadcast_request \<Rightarrow> peer_stats" where
  "post_broadcast he t0 t1 node url req =
     (let assigned = assigned_of (bq_sources req) in
      case he_post_broadcast he t0 (endpoint url ''hydrate-broadcast-shard'') req of
        Inl e \<Rightarrow> failed_stats he t0 t1 node assigned (''post: '' @ e)
      | Inr (Inl e) \<Rightarrow> failed_stats he t0 t1 node assigned (''decode: '' @ e)
      | Inr (Inr r) \<Rightarrow> (stats_of node assigned r)\<lparr>ps_errors := check_receiver assigned r\<rparr>)"

fun broadcast_loop ::
  "hydrate_env \<Rightarrow> 'l fetch_env \<Rightarrow> (string, mount_config) hmap \<Rightarrow> string \<Rightarrow> string \<Rightarrow> broadcast_source list \<Rightarrow> broadcast_source list \<Rightarrow>
   'l fetcher \<Rightarrow> (peer_stats list \<times> 'l fetcher) option"
where
  "broadcast_loop he env mounts mount me plan [] f = Some ([], f)"
| "broadcast_loop he env mounts mount me plan (receiver # rest) f =
     (let node = src_node_id receiver;
          req = \<lparr>bq_mount = mount, bq_sources = other_sources node plan\<rparr> in
      Option.bind
        (if node = me
         then map_option (\<lambda>(r, f1). (stats_of node (assigned_of (bq_sources req)) r, f1)) (run_broadcast_shard he env mounts req f)
         else (let f1 = await env f in
               Some (post_broadcast he (f_clock f) (f_clock f1) node (src_transport_url receiver) req, f1)))
        (\<lambda>(s, f1). map_option (\<lambda>(ss, f2). (joined_stats he (f_clock f1) node s # ss, f2))
                     (broadcast_loop he env mounts mount me plan rest f1)))"

definition run_broadcast_phase ::
  "hydrate_env \<Rightarrow> 'l fetch_env \<Rightarrow> (string, mount_config) hmap \<Rightarrow> string \<Rightarrow> string \<Rightarrow> broadcast_source list \<Rightarrow> 'l fetcher \<Rightarrow>
   (peer_stats list \<times> 'l fetcher) option"
where
  "run_broadcast_phase he env mounts mount me plan f =
     (if he_timeout he (f_clock f)
      then (let f1 = await env f in Some ([timeout_stats he (f_clock f1) ''phase-b coordinator timeout after ''], f1))
      else broadcast_loop he env mounts mount me plan plan f)"

section \<open>Phase B: ring\<close>

definition ring_order :: "broadcast_source list \<Rightarrow> broadcast_source list" where
  "ring_order plan = sort_key src_node_id plan"

definition ring_prev :: "nat \<Rightarrow> nat \<Rightarrow> nat" where
  "ring_prev n i = (i + n - 1) mod n"

definition ring_source :: "nat \<Rightarrow> nat \<Rightarrow> nat \<Rightarrow> nat" where
  "ring_source n k i = (i + n - k) mod n"

definition ring_body :: "string \<Rightarrow> broadcast_source list \<Rightarrow> nat \<Rightarrow> nat \<Rightarrow> ring_request" where
  "ring_body mount sorted_plan k i =
     (let n = length sorted_plan;
          prev = sorted_plan ! ring_prev n i;
          source = sorted_plan ! ring_source n k i in
      \<lparr>rr_mount = mount, rr_step = k, rr_source_node_id = src_node_id source, rr_prev_node_id = src_node_id prev,
       rr_prev_transport_url = src_transport_url prev, rr_prev_worker_b64 = src_worker_b64 prev, rr_chunks = src_chunks source\<rparr>)"

definition ring_unjoined :: "string \<Rightarrow> ring_response" where
  "ring_unjoined e =
     \<lparr>rp_fetched = 0, rp_bytes = 0, rp_errors = [''join: '' @ e], rp_pulls_ms = 0, rp_drain_ms = 0, rp_start_unix_ms = 0, rp_end_unix_ms = 0\<rparr>"

definition post_ring :: "hydrate_env \<Rightarrow> nat \<Rightarrow> nat \<Rightarrow> string \<Rightarrow> ring_request \<Rightarrow> ring_response" where
  "post_ring he t0 t1 url req =
     (let failed = (\<lambda>e. \<lparr>rp_fetched = 0, rp_bytes = 0, rp_errors = [e], rp_pulls_ms = 0, rp_drain_ms = 0,
                         rp_start_unix_ms = he_unix_ms he t0, rp_end_unix_ms = he_unix_ms he t1\<rparr>) in
      case he_post_ring he t0 (endpoint url ''hydrate-ring-step'') req of
        Inl e \<Rightarrow> failed (''post: '' @ e)
      | Inr (Inl e) \<Rightarrow> failed (''decode: '' @ e)
      | Inr (Inr r) \<Rightarrow> r)"

text \<open>The tasks of one step, one per receiver index.\<close>

fun ring_tasks ::
  "hydrate_env \<Rightarrow> 'l fetch_env \<Rightarrow> string \<Rightarrow> (string, mount_config) hmap \<Rightarrow> string \<Rightarrow> string \<Rightarrow> broadcast_source list \<Rightarrow> nat \<Rightarrow> nat list \<Rightarrow>
   'l fetcher \<Rightarrow> ((string \<times> ring_response) list \<times> 'l fetcher) option"
where
  "ring_tasks he env b64_error mounts mount me sorted_plan k [] f = Some ([], f)"
| "ring_tasks he env b64_error mounts mount me sorted_plan k (i # is) f =
     (let receiver = sorted_plan ! i;
          node = src_node_id receiver;
          body = ring_body mount sorted_plan k i in
      Option.bind
        (if node = me then run_ring_step he env b64_error mounts body f
         else (let f1 = await env f in Some (post_ring he (f_clock f) (f_clock f1) (src_transport_url receiver) body, f1)))
        (\<lambda>(r, f1).
           let joined = (case he_task_join he (f_clock f1) node of Some e \<Rightarrow> (''unknown'', ring_unjoined e) | None \<Rightarrow> (node, r)) in
           map_option (\<lambda>(rs, f2). (joined # rs, f2)) (ring_tasks he env b64_error mounts mount me sorted_plan k is f1)))"

definition absorb_response :: "ring_response \<Rightarrow> peer_stats \<Rightarrow> peer_stats" where
  "absorb_response r ps =
     ps\<lparr>ps_fetched := u64_add (ps_fetched ps) (rp_fetched r), ps_bytes := u64_add (ps_bytes ps) (rp_bytes r),
        ps_start_unix_ms := (if ps_start_unix_ms ps = 0 \<or> rp_start_unix_ms r < ps_start_unix_ms ps then rp_start_unix_ms r else ps_start_unix_ms ps),
        ps_end_unix_ms := (if rp_end_unix_ms r > ps_end_unix_ms ps then rp_end_unix_ms r else ps_end_unix_ms ps),
        ps_errors := fold push_error (rp_errors r) (ps_errors ps)\<rparr>"

definition absorb_pod :: "string \<times> ring_response \<Rightarrow> (string, peer_stats) hmap \<Rightarrow> (string, peer_stats) hmap" where
  "absorb_pod = (\<lambda>(rid, r) pods. case map_of pods rid of Some ps \<Rightarrow> AList.update rid (absorb_response r ps) pods | None \<Rightarrow> pods)"

definition step_stat :: "hydrate_env \<Rightarrow> nat \<Rightarrow> nat \<Rightarrow> nat \<Rightarrow> (string \<times> ring_response) list \<Rightarrow> ring_step_stat" where
  "step_stat he t0 t1 k results =
     \<lparr>rs_step = k, rs_source_rank = 0, rs_start_unix_ms = he_unix_ms he t0, rs_end_unix_ms = he_unix_ms he t1,
      rs_elapsed_ms = he_instant_ms he t1 - he_instant_ms he t0,
      rs_bytes = fold (\<lambda>(_, r) n. u64_add n (rp_bytes r)) results 0,
      rs_n_chunks = fold (\<lambda>(_, r) n. u64_add n (rp_fetched r)) results 0,
      rs_n_errors = fold (\<lambda>(_, r) n. u64_add n (length (rp_errors r))) results 0,
      rs_per_pod = map (\<lambda>(rid, r). \<lparr>pp_node_id = rid, pp_fetched = rp_fetched r, pp_bytes = rp_bytes r, pp_pulls_ms = rp_pulls_ms r,
        pp_drain_ms = rp_drain_ms r, pp_n_errors = length (rp_errors r)\<rparr>) results\<rparr>"

definition all_pods_error :: "string \<Rightarrow> (string, peer_stats) hmap \<Rightarrow> (string, peer_stats) hmap" where
  "all_pods_error e pods = map (\<lambda>(n, ps). (n, ps\<lparr>ps_errors := ps_errors ps @ [e]\<rparr>)) pods"

fun ring_loop ::
  "hydrate_env \<Rightarrow> 'l fetch_env \<Rightarrow> string \<Rightarrow> (string, mount_config) hmap \<Rightarrow> string \<Rightarrow> string \<Rightarrow> broadcast_source list \<Rightarrow> nat \<Rightarrow> nat list \<Rightarrow>
   (string, peer_stats) hmap \<Rightarrow> 'l fetcher \<Rightarrow> ((string, peer_stats) hmap \<times> ring_step_stat list \<times> 'l fetcher) option"
where
  "ring_loop he env b64_error mounts mount me sorted_plan t0 [] pods f = Some (pods, [], f)"
| "ring_loop he env b64_error mounts mount me sorted_plan t0 (k # ks) pods f =
     (if he_instant_ms he (f_clock f) - he_instant_ms he t0 > timeout_secs he * 1000
      then Some (all_pods_error (''ring coordinator timeout before step '' @ show_dec k) pods, [], f)
      else if he_timeout he (f_clock f)
      then Some (all_pods_error (''ring coordinator timeout at step '' @ show_dec k) pods, [], await env f)
      else
        Option.bind (ring_tasks he env b64_error mounts mount me sorted_plan k [0..<length sorted_plan] f) (\<lambda>(results, f1).
          map_option (\<lambda>(pods', stats, f2). (pods', step_stat he (f_clock f) (f_clock f1) k results # stats, f2))
            (ring_loop he env b64_error mounts mount me sorted_plan t0 ks (fold absorb_pod results pods) f1)))"

definition ring_pods :: "broadcast_source list \<Rightarrow> (string, peer_stats) hmap" where
  "ring_pods sorted_plan =
     fold (\<lambda>s. AList.update (src_node_id s)
              \<lparr>ps_node_id = src_node_id s, ps_assigned = assigned_of (other_sources (src_node_id s) sorted_plan), ps_fetched = 0, ps_bytes = 0,
               ps_errors = [], ps_elapsed_ms = 0, ps_start_unix_ms = 0, ps_end_unix_ms = 0\<rparr>) sorted_plan []"

definition run_ring_phase ::
  "hydrate_env \<Rightarrow> 'l fetch_env \<Rightarrow> string \<Rightarrow> (string, mount_config) hmap \<Rightarrow> string \<Rightarrow> string \<Rightarrow> broadcast_source list \<Rightarrow> 'l fetcher \<Rightarrow>
   (peer_stats list \<times> ring_step_stat list \<times> 'l fetcher) option"
where
  "run_ring_phase he env b64_error mounts mount me plan f =
     (let sorted_plan = ring_order plan; world = length sorted_plan in
      if world < 2 then Some ([], [], f)
      else
        map_option
          (\<lambda>(pods, stats, f1).
             (sort_key ps_node_id
                (map (\<lambda>(_, ps). if ps_elapsed_ms ps = 0
                       then ps\<lparr>ps_elapsed_ms := he_instant_ms he (f_clock f1) - he_instant_ms he (f_clock f)\<rparr> else ps) pods), stats, f1))
          (ring_loop he env b64_error mounts mount me sorted_plan (f_clock f) [1..<world] (ring_pods sorted_plan) f))"

section \<open>The coordinator\<close>

text \<open>Phase B runs only if no node reported an error in phase A.\<close>

definition run_phase_b ::
  "hydrate_env \<Rightarrow> 'l fetch_env \<Rightarrow> string \<Rightarrow> (string, mount_config) hmap \<Rightarrow> string \<Rightarrow> string \<Rightarrow> hydrate_mode \<Rightarrow> broadcast_source list \<Rightarrow>
   peer_stats list \<Rightarrow> 'l fetcher \<Rightarrow> (peer_stats list \<times> ring_step_stat list \<times> nat option \<times> 'l fetcher) option"
where
  "run_phase_b he env b64_error mounts mount me mode plan peers f =
     (let elapsed = (\<lambda>f1. Some (he_instant_ms he (f_clock f1) - he_instant_ms he (f_clock f))) in
      if mode = Broadcast \<and> list_all (\<lambda>p. ps_errors p = []) peers
      then map_option (\<lambda>(ps, f1). (ps, [], elapsed f1, f1)) (run_broadcast_phase he env mounts mount me plan f)
      else if mode = Ring \<and> list_all (\<lambda>p. ps_errors p = []) peers
      then map_option (\<lambda>(ps, steps, f1). (ps, steps, elapsed f1, f1)) (run_ring_phase he env b64_error mounts mount me plan f)
      else Some ([], [], None, f))"

definition empty_response :: "hydrate_request \<Rightarrow> hydrate_mode \<Rightarrow> nat \<Rightarrow> hydrate_response" where
  "empty_response req mode elapsed =
     \<lparr>hp_mount = hr_mount req, hp_path = hr_path req, hp_total_files = 0, hp_total_chunks = 0, hp_total_bytes = 0,
      hp_elapsed_ms = elapsed, hp_peers = [], hp_mode = mode, hp_phase_a_elapsed_ms = None, hp_phase_b_elapsed_ms = None,
      hp_broadcast_peers = [], hp_ring_steps = []\<rparr>"

text \<open>From the listing on: cut, deal, phase A, phase B, totals.\<close>

definition distribute ::
  "hydrate_env \<Rightarrow> 'l fetch_env \<Rightarrow> string \<Rightarrow> nat \<Rightarrow> (string, mount_config) hmap \<Rightarrow> node_info list \<Rightarrow> string \<Rightarrow> string \<Rightarrow> hydrate_request \<Rightarrow>
   mount_config \<Rightarrow> listed_blob list \<Rightarrow> nat \<Rightarrow> 'l fetcher \<Rightarrow> (hydrate_response \<times> 'l fetcher) option"
where
  "distribute he env b64_error chunk_size mounts ns me me_url req m found t0 f =
     Option.bind (enumerate_chunks chunk_size m found) (\<lambda>(files, chunks).
       let mode = hydrate_mode_of (he_mode_var he) (hr_mode req) in
       if chunks = [] then Some (empty_response req mode (he_instant_ms he (f_clock f) - he_instant_ms he t0), f)
       else
         let ts = hydrate_targets me ns;
             buckets = deal 0 chunks (replicate (length ts) []);
             plan = make_plan me_url ts buckets in
         Option.bind (run_phase_a he env mounts (hr_mount req) (zip ts buckets) f) (\<lambda>(peers, f1).
           map_option
             (\<lambda>(bpeers, steps, elapsed_b, f2).
                (\<lparr>hp_mount = hr_mount req, hp_path = hr_path req, hp_total_files = files, hp_total_chunks = length chunks,
                  hp_total_bytes = fold (\<lambda>p n. u64_add n (ps_bytes p)) peers 0,
                  hp_elapsed_ms = he_instant_ms he (f_clock f2) - he_instant_ms he t0, hp_peers = peers, hp_mode = mode,
                  hp_phase_a_elapsed_ms = Some (he_instant_ms he (f_clock f1) - he_instant_ms he (f_clock f)),
                  hp_phase_b_elapsed_ms = elapsed_b, hp_broadcast_peers = bpeers, hp_ring_steps = steps\<rparr>, f2))
             (run_phase_b he env b64_error mounts (hr_mount req) me mode plan peers f1)))"

definition run_coordinator ::
  "hydrate_env \<Rightarrow> 'l fetch_env \<Rightarrow> ('u, 'w) azure_env \<Rightarrow> string \<Rightarrow> nat \<Rightarrow> (string, blob_client) hmap \<Rightarrow> (string, mount_config) hmap \<Rightarrow>
   string \<Rightarrow> string \<Rightarrow> hydrate_request \<Rightarrow> ('u, 'w) az_state \<Rightarrow> 'l fetcher \<Rightarrow>
   (hydrate_response result option \<times> ('u, 'w) az_state \<times> 'l fetcher) option"
where
  "run_coordinator he env aenv b64_error chunk_size blobs mounts me me_url req st f =
     (case map_of mounts (hr_mount req) of
        None \<Rightarrow> Some (Some (Inl (Other (''unknown mount '' @ hr_mount req))), st, f)
      | Some m \<Rightarrow>
          (case map_of blobs (hr_mount req) of
             None \<Rightarrow> Some (Some (Inl (Other (''no blob client for mount '' @ hr_mount req))), st, f)
           | Some cl \<Rightarrow>
               let recursive = (case hr_recursive req of Some b \<Rightarrow> b | None \<Rightarrow> True);
                   pre = combined_prefix m (hr_path req) in
               Option.bind (list_blobs aenv cl (m_account m) (m_container m) (if pre = [] then None else Some pre) recursive st)
                 (\<lambda>(r, st1).
                    let f1 = await env f in
                    (case r of
                       None \<Rightarrow> Some (None, st1, f1)
                     | Some (Inl e) \<Rightarrow> Some (Some (Inl e), st1, f1)
                     | Some (Inr (found, _)) \<Rightarrow>
                         map_option (\<lambda>(resp, f2). (Some (Inr resp), st1, f2))
                           (distribute he env b64_error chunk_size mounts (members_all (f_membership f1)) me me_url req m found (f_clock f) f1)))))"

end
