(* ===== verification/HydrateProps.thy ===== *)
theory HydrateProps
  imports Coordinator
begin

text \<open>
  Properties of hydration: the plan covers every byte of every listed blob once, the shares are balanced,
  broadcast and ring leave every chunk on every node, counts are honest, and workers keep the invariant of
  the fetcher.
\<close>

section \<open>Cutting blobs\<close>

definition piece :: "nat \<Rightarrow> string \<Rightarrow> nat \<Rightarrow> nat \<Rightarrow> chunk_spec" where
  "piece cs blob n i = \<lparr>sp_blob = blob, sp_offset = i * cs, sp_len = min cs (n - i * cs)\<rparr>"

lemma less_div_ceil: "0 < cs \<Longrightarrow> i < div_ceil n cs \<longleftrightarrow> i * cs < n"
proof -
  assume cs: "0 < cs"
  have n: "n = n div cs * cs + n mod cs" by simp
  have r: "n mod cs < cs" using cs by simp
  consider "i < n div cs" | "i = n div cs" | "n div cs + 1 \<le> i" by linarith
  then show ?thesis
  proof cases
    case 1
    then have "i * cs < n div cs * cs" using cs by simp
    with n have "i * cs < n" by linarith
    with 1 show ?thesis by (simp add: div_ceil_def)
  next
    case 2
    have "n div cs * cs < n \<longleftrightarrow> n mod cs \<noteq> 0" using n by linarith
    with 2 show ?thesis by (simp add: div_ceil_def)
  next
    case 3
    then have "(n div cs + 1) * cs \<le> i * cs" by (rule mult_le_mono1)
    moreover have "(n div cs + 1) * cs = n div cs * cs + cs" by simp
    ultimately have "\<not> i * cs < n" using n r by linarith
    with 3 show ?thesis by (simp add: div_ceil_def)
  qed
qed

lemma chunk_loop_end: "n \<le> off \<Longrightarrow> chunk_loop cs blob n off = Some []"
  by (subst chunk_loop.simps) simp

lemma chunk_loop_cut:
  assumes "0 < cs"
  shows "chunk_loop cs blob n (i * cs) = Some (map (piece cs blob n) [i..<div_ceil n cs])"
proof (induction "div_ceil n cs - i" arbitrary: i)
  case 0
  then have "div_ceil n cs \<le> i" by simp
  moreover from this have "n \<le> i * cs" using less_div_ceil [OF assms, of i n] by linarith
  ultimately show ?case by (simp add: chunk_loop_end)
next
  case (Suc d)
  then have i: "i < div_ceil n cs" by simp
  then have lt: "i * cs < n" using less_div_ceil [OF assms] by blast
  have next_off: "chunk_loop cs blob n (i * cs + min cs (n - i * cs)) = Some (map (piece cs blob n) [Suc i..<div_ceil n cs])"
  proof (cases "cs \<le> n - i * cs")
    case True
    then have "i * cs + min cs (n - i * cs) = Suc i * cs" by simp
    moreover have "d = div_ceil n cs - Suc i" using Suc.hyps(2) by simp
    ultimately show ?thesis using Suc.hyps(1) [of "Suc i"] by (simp only:)
  next
    case False
    then have "n \<le> Suc i * cs" by simp
    then have "\<not> Suc i < div_ceil n cs" using less_div_ceil [OF assms, of "Suc i" n] by simp
    moreover have "i * cs + min cs (n - i * cs) = n" using False lt by simp
    ultimately show ?thesis by (simp add: chunk_loop_end)
  qed
  have "[i..<div_ceil n cs] = i # [Suc i..<div_ceil n cs]" using i by (rule upt_conv_Cons)
  then show ?case using lt next_off by (subst chunk_loop.simps) (simp add: Let_def piece_def)
qed

lemma chunk_loop_diverges:
  assumes "off < n"
  shows "chunk_loop 0 blob n off = None"
proof -
  have False if "chunk_loop 0 blob n off = Some l" for l
  proof -
    have "cs = 0 \<longrightarrow> n \<le> off" if "chunk_loop cs blob n off = Some l" for cs
    proof (rule chunk_loop.raw_induct [OF _ that, where P = "\<lambda>cs blob n off l. cs = 0 \<longrightarrow> n \<le> off"])
      fix rec :: "nat \<Rightarrow> string \<Rightarrow> nat \<Rightarrow> nat \<Rightarrow> chunk_spec list option" and cs blob n off l
      assume IH: "\<And>cs blob n off l. rec cs blob n off = Some l \<Longrightarrow> cs = 0 \<longrightarrow> n \<le> off"
        and eq: "(if off < n then
            let len = min cs (n - off) in
            Option.bind (rec cs blob n (off + len)) (\<lambda>rest. Some (\<lparr>sp_blob = blob, sp_offset = off, sp_len = len\<rparr> # rest))
          else Some []) = Some l"
      show "cs = 0 \<longrightarrow> n \<le> off"
      proof
        assume "cs = 0"
        show "n \<le> off"
        proof (rule ccontr)
          assume "\<not> n \<le> off"
          with eq \<open>cs = 0\<close> obtain l' where "rec 0 blob n off = Some l'" by (auto simp: Let_def split: bind_splits)
          from IH [OF this] \<open>\<not> n \<le> off\<close> show False by simp
        qed
      qed
    qed
    from this [OF that] assms show False by simp
  qed
  then show ?thesis by (cases "chunk_loop 0 blob n off") auto
qed

definition blob_chunks :: "nat \<Rightarrow> mount_config \<Rightarrow> listed_blob \<Rightarrow> chunk_spec list" where
  "blob_chunks cs m b = map (piece cs (blob_path_of m (lb_name b)) (lb_content_length b)) [0..<div_ceil (lb_content_length b) cs]"

lemma enumerate_chunks_eq:
  "0 < cs \<Longrightarrow> enumerate_chunks cs m bs =
     Some (length (filter (\<lambda>b. lb_content_length b \<noteq> 0) bs), concat (map (blob_chunks cs m) bs))"
proof (induction bs)
  case (Cons b bs)
  show ?case
  proof (cases "lb_content_length b = 0")
    case True
    then have "blob_chunks cs m b = []" by (simp add: blob_chunks_def div_ceil_def)
    with True Cons show ?thesis by simp
  next
    case False
    have "chunk_loop cs (blob_path_of m (lb_name b)) (lb_content_length b) 0 = Some (blob_chunks cs m b)"
      using chunk_loop_cut [OF Cons.prems, of _ _ 0] by (simp add: blob_chunks_def)
    with False Cons show ?thesis by simp
  qed
qed simp

lemma slices_concat: "concat (map (\<lambda>i. take cs (drop (i * cs) data)) [0..<k]) = take (k * cs) data"
proof (induction k)
  case (Suc k)
  have "Suc k * cs = k * cs + cs" by simp
  with Suc show ?case by (simp only: take_add upt_Suc map_append concat_append) simp
qed simp

lemma all_slices:
  assumes "0 < cs"
  shows "concat (map (\<lambda>i. take cs (drop (i * cs) data)) [0..<div_ceil (length data) cs]) = data"
  unfolding slices_concat using div_ceil_le [OF assms, of "length data"] by simp

section \<open>Dealing chunks\<close>

lemma deal_length [simp]: "length (deal i cs bs) = length bs"
  by (induction i cs bs rule: deal.induct) (simp_all add: Let_def)

lemma mset_concat_update: "b < length bs \<Longrightarrow> mset (concat (bs[b := bs ! b @ [c]])) = add_mset c (mset (concat bs))"
  by (induction bs arbitrary: b) (auto split: nat.splits)

lemma deal_mset: "bs \<noteq> [] \<Longrightarrow> mset (concat (deal i cs bs)) = mset cs + mset (concat bs)"
proof (induction i cs bs rule: deal.induct)
  case (2 i c cs bs)
  have "i mod length bs < length bs" using "2.prems" by simp
  from mset_concat_update [OF this] 2 show ?case by (simp add: Let_def)
qed simp

definition balanced :: "nat \<Rightarrow> 'c list list \<Rightarrow> bool" where
  "balanced i bs \<longleftrightarrow> (\<forall>b < length bs. length (bs ! b) = i div length bs + (if b < i mod length bs then 1 else 0))"

lemma balanced_step:
  assumes "balanced i bs" "bs \<noteq> []"
  shows "balanced (i + 1) (bs[i mod length bs := bs ! (i mod length bs) @ [c]])"
proof -
  let ?n = "length bs" and ?b = "i mod length bs"
  have n: "0 < ?n" using assms(2) by simp
  then have b: "?b < ?n" by simp
  show ?thesis
  proof (cases "Suc ?b = ?n")
    case True
    then have "Suc i mod ?n = 0" "Suc i div ?n = Suc (i div ?n)" by (simp_all add: mod_Suc div_Suc)
    moreover have "length (bs ! j) = Suc (i div ?n)" if "j < ?n" "j \<noteq> ?b" for j
      using assms(1) that True by (auto simp: balanced_def)
    ultimately show ?thesis using assms(1) b by (auto simp: balanced_def nth_list_update)
  next
    case False
    then have "Suc i mod ?n = Suc ?b" "Suc i div ?n = i div ?n" by (simp_all add: mod_Suc div_Suc)
    then show ?thesis using assms(1) b by (auto simp: balanced_def nth_list_update)
  qed
qed

lemma deal_balanced: "bs \<noteq> [] \<Longrightarrow> balanced i bs \<Longrightarrow> balanced (i + length cs) (deal i cs bs)"
proof (induction i cs bs rule: deal.induct)
  case (2 i c cs bs)
  have "balanced (i + 1 + length cs) (deal (i + 1) cs (bs[i mod length bs := bs ! (i mod length bs) @ [c]]))"
    by (rule "2.IH" [OF refl]) (use "2.prems" balanced_step in \<open>simp_all del: One_nat_def add: Let_def\<close>)
  then show ?case by (simp add: Let_def)
qed simp

lemma balanced_empty: "balanced 0 (replicate n [])"
  by (simp add: balanced_def)

section \<open>Broadcast\<close>

lemma rounds_mset: "mset (rounds ss) = mset (concat (map (\<lambda>s. map (Pair (fst s)) (snd s)) ss))"
proof (induction ss rule: rounds.induct)
  case (1 ss)
  show ?case
  proof (cases "list_all (\<lambda>s. snd s = []) ss")
    case True
    then have "concat (map (\<lambda>s. map (Pair (fst s)) (snd s)) ss) = []" by (auto simp: list_all_iff)
    with True show ?thesis by (simp add: rounds.simps [of ss])
  next
    case False
    have "mset (map (\<lambda>s. (fst s, hd (snd s))) (filter (\<lambda>s. snd s \<noteq> []) ss)) +
        mset (concat (map (\<lambda>s. map (Pair (fst s)) (tl (snd s))) ss)) =
        mset (concat (map (\<lambda>s. map (Pair (fst s)) (snd s)) ss))" for ss :: "('a \<times> 'b list) list"
    proof (induction ss)
      case (Cons s ss)
      then show ?case by (cases "snd s") auto
    qed simp
    from this [of ss] "1.IH" [OF False] False show ?thesis by (simp add: rounds.simps [of ss] o_def)
  qed
qed

lemma broadcast_jobs_mset: "mset (map snd (broadcast_jobs sources)) = mset (concat (map src_chunks sources))"
proof -
  have "image_mset snd (mset (broadcast_jobs sources)) = mset (map snd (concat (map (\<lambda>s. map (Pair (fst s)) (snd s)) (map (\<lambda>s. (s, src_chunks s)) sources))))"
    unfolding broadcast_jobs_def by (simp only: rounds_mset mset_map)
  also have "map snd (concat (map (\<lambda>s. map (Pair (fst s)) (snd s)) (map (\<lambda>s. (s, src_chunks s)) sources))) = concat (map src_chunks sources)"
    by (induction sources) (simp_all add: o_def)
  finally show ?thesis by simp
qed

lemma other_sources_rest:
  assumes "distinct (map src_node_id plan)" "r \<in> set plan"
  shows "mset (src_chunks r) + mset (concat (map src_chunks (other_sources (src_node_id r) plan))) = mset (concat (map src_chunks plan))"
  using assms
proof (induction plan)
  case (Cons s plan)
  show ?case
  proof (cases "r = s")
    case True
    then have "other_sources (src_node_id r) plan = plan"
      using Cons.prems(1) by (simp add: other_sources_def filter_id_conv) (metis imageI)
    with True show ?thesis by (simp add: other_sources_def)
  next
    case False
    with Cons.prems have "r \<in> set plan" "src_node_id s \<noteq> src_node_id r" by auto
    with Cons show ?thesis by (simp add: other_sources_def)
  qed
qed simp

section \<open>The ring\<close>

text \<open>
  The chunks every node of the ring holds after the given steps, if in each step a node gets those of the
  requested chunks that its predecessor already held.
\<close>

fun ring_holds :: "string \<Rightarrow> broadcast_source list \<Rightarrow> nat \<Rightarrow> nat \<Rightarrow> chunk_spec set" where
  "ring_holds mount plan 0 i = set (src_chunks (plan ! i))"
| "ring_holds mount plan (Suc k) i =
     ring_holds mount plan k i \<union>
     {c \<in> set (rr_chunks (ring_body mount plan (Suc k) i)). c \<in> ring_holds mount plan k (ring_prev (length plan) i)}"

lemma ring_source_zero: "i < n \<Longrightarrow> ring_source n 0 i = i"
  by (simp add: ring_source_def)

lemma ring_source_prev:
  assumes "i < n" "Suc k \<le> n"
  shows "ring_source n (Suc k) i = ring_source n k (ring_prev n i)"
proof (cases i)
  case 0
  then have "ring_prev n i = n - 1" using assms(1) by (simp add: ring_prev_def)
  moreover have "n - 1 + n - k = (n - Suc k) + n" using assms by simp
  ultimately have "ring_source n k (ring_prev n i) = (n - Suc k + n) mod n" by (simp only: ring_source_def)
  also have "\<dots> = (n - Suc k) mod n" by (rule mod_add_self2)
  finally show ?thesis using 0 by (simp add: ring_source_def)
next
  case (Suc j)
  then have "ring_prev n i = j" using assms(1) by (simp add: ring_prev_def)
  then show ?thesis using Suc by (simp add: ring_source_def)
qed

lemma ring_prev_less: "0 < n \<Longrightarrow> ring_prev n i < n"
  by (simp add: ring_prev_def)

lemma ring_source_less: "0 < n \<Longrightarrow> ring_source n k i < n"
  by (simp add: ring_source_def)

lemma ring_body_chunks: "rr_chunks (ring_body mount plan k i) = src_chunks (plan ! ring_source (length plan) k i)"
  by (simp add: ring_body_def Let_def)

lemma ring_holds_eq:
  assumes "i < length plan" "k < length plan"
  shows "ring_holds mount plan k i = (\<Union>j \<le> k. set (src_chunks (plan ! ring_source (length plan) j i)))"
  using assms
proof (induction k arbitrary: i)
  case 0
  then show ?case by (simp add: ring_source_zero)
next
  case (Suc k)
  let ?n = "length plan"
  have p: "ring_prev ?n i < ?n" using Suc.prems(1) by (intro ring_prev_less) linarith
  have "set (src_chunks (plan ! ring_source ?n (Suc k) i)) \<subseteq> ring_holds mount plan k (ring_prev ?n i)"
    using Suc.IH [OF p] Suc.prems ring_source_prev [OF Suc.prems(1), of k] by auto
  then have "ring_holds mount plan (Suc k) i = ring_holds mount plan k i \<union> set (src_chunks (plan ! ring_source ?n (Suc k) i))"
    by (auto simp: ring_body_chunks)
  then show ?case using Suc by (simp add: atMost_Suc Un_commute)
qed

lemma ring_source_onto:
  assumes "i < n" "j < n"
  shows "\<exists>k < n. ring_source n k i = j"
proof (cases "j \<le> i")
  case True
  then have "i + n - (i - j) = j + n" using assms by simp
  then have "ring_source n (i - j) i = j" using assms by (simp add: ring_source_def)
  then show ?thesis using assms by (intro exI [of _ "i - j"]) simp
next
  case False
  then have "i + n - (i + n - j) = j" using assms by simp
  then have "ring_source n (i + n - j) i = j" using assms by (simp add: ring_source_def)
  then show ?thesis using False assms by (intro exI [of _ "i + n - j"]) simp
qed

lemma ring_holds_all:
  assumes "i < length plan"
  shows "ring_holds mount plan (length plan - 1) i = (\<Union>s \<in> set plan. set (src_chunks s))"
proof -
  let ?n = "length plan"
  have "(\<Union>j \<le> ?n - 1. set (src_chunks (plan ! ring_source ?n j i))) = (\<Union>s \<in> set plan. set (src_chunks s))"
  proof
    show "(\<Union>j \<le> ?n - 1. set (src_chunks (plan ! ring_source ?n j i))) \<subseteq> (\<Union>s \<in> set plan. set (src_chunks s))"
    proof -
      have "0 < ?n" using assms by linarith
      then show ?thesis using ring_source_less nth_mem by blast
    qed
    show "(\<Union>s \<in> set plan. set (src_chunks s)) \<subseteq> (\<Union>j \<le> ?n - 1. set (src_chunks (plan ! ring_source ?n j i)))"
    proof
      fix c
      assume "c \<in> (\<Union>s \<in> set plan. set (src_chunks s))"
      then obtain s where "s \<in> set plan" "c \<in> set (src_chunks s)" by blast
      then obtain r where r: "r < ?n" "c \<in> set (src_chunks (plan ! r))" by (metis in_set_conv_nth)
      obtain k where "k < ?n" "ring_source ?n k i = r" using ring_source_onto [OF assms r(1)] by blast
      then show "c \<in> (\<Union>j \<le> ?n - 1. set (src_chunks (plan ! ring_source ?n j i)))" using r(2) by force
    qed
  qed
  moreover have "?n - 1 < ?n" using assms by simp
  ultimately show ?thesis using ring_holds_eq [OF assms] by simp
qed

section \<open>Counting\<close>

definition succeeded :: "('c \<times> (string + bytes result)) list \<Rightarrow> bytes list" where
  "succeeded results = List.map_filter (\<lambda>(c, j). case j of Inr (Inr b) \<Rightarrow> Some b | _ \<Rightarrow> None) results"

lemma push_error_length: "length (push_error e es) = min 32 (Suc (length es))" if "length es \<le> 32"
  using that by (auto simp: push_error_def)

lemma tally_spec:
  assumes "tally failed unjoined results (n, b, es) = (n', b', es')" "length es \<le> 32" "b < 2 ^ 64"
  shows "n' = n + length (succeeded results) \<and> b' = (b + sum_list (map length (succeeded results))) mod 2 ^ 64 \<and>
    length es' = min 32 (length es + (length results - length (succeeded results)))"
  using assms
proof (induction results arbitrary: n b es)
  case Nil
  then show ?case by (simp add: succeeded_def List.map_filter_def)
next
  case (Cons x results)
  have le: "length (succeeded results) \<le> length results"
    by (simp add: succeeded_def List.map_filter_def length_filter_le)
  obtain c j where x: "x = (c, j)" by force
  show ?case
  proof (cases "\<exists>d. j = Inr (Inr d)")
    case True
    then obtain d where d: "j = Inr (Inr d)" ..
    then have s: "succeeded (x # results) = d # succeeded results" by (simp add: succeeded_def x List.map_filter_simps)
    have "tally failed unjoined results (n + 1, u64_add b (length d), es) = (n', b', es')" using Cons.prems(1) x d by simp
    moreover have "u64_add b (length d) < 2 ^ 64" by (simp add: u64_add_def)
    ultimately show ?thesis
      using Cons.IH [of "n + 1" "u64_add b (length d)" es] Cons.prems(2) s
      by (simp add: u64_add_def mod_add_left_eq add.assoc)
  next
    case False
    then have s: "succeeded (x # results) = succeeded results"
      by (auto simp: succeeded_def x List.map_filter_simps split: sum.splits)
    obtain e where "tally failed unjoined results (n, b, push_error e es) = (n', b', es')"
      using Cons.prems(1) x False by (auto split: sum.splits)
    moreover have "length (push_error e es) \<le> 32" using push_error_length [OF Cons.prems(2)] by simp
    ultimately show ?thesis
      using Cons.IH [of n b "push_error e es"] Cons.prems(2,3) s le push_error_length [OF Cons.prems(2), of e] by simp
  qed
qed

lemma run_jobs_keys: "run_jobs env work cs f = (results, f') \<Longrightarrow> map fst results = cs"
  by (induction env work cs f arbitrary: results f' rule: run_jobs.induct) (auto simp: Let_def split: prod.splits)

lemma tally_jobs:
  assumes "run_jobs env work cs f = (results, f1)" "tally failed unjoined results (0, 0, []) = (n, b, es)"
  shows "n = length (succeeded results) \<and> n \<le> length cs \<and> length es = min 32 (length cs - n) \<and>
    b = sum_list (map length (succeeded results)) mod 2 ^ 64"
proof -
  have "length results = length cs" using run_jobs_keys [OF assms(1)] by (metis length_map)
  moreover have "length (succeeded results) \<le> length results"
    by (simp add: succeeded_def List.map_filter_def length_filter_le)
  ultimately show ?thesis using tally_spec [OF assms(2)] by simp
qed

lemma fold_push_errors: "length es \<le> length (fold (\<lambda>(k, e). push_error (g k e)) l es)"
proof (induction l arbitrary: es)
  case (Cons x l)
  have "length es \<le> length (push_error (g (fst x) (snd x)) es)" by (simp add: push_error_def)
  also have "\<dots> \<le> length (fold (\<lambda>(k, e). push_error (g k e)) l (push_error (g (fst x) (snd x)) es))" by (rule Cons.IH)
  finally show ?case by (cases x) simp
qed simp

lemma silent_loss_nil: "silent_loss label assigned fetched errors = [] \<longleftrightarrow> errors = [] \<and> assigned \<le> sat_add fetched 0"
  by (auto simp: silent_loss_def Let_def)

section \<open>Workers keep the invariant\<close>

definition spec_key :: "mount_config \<Rightarrow> chunk_spec \<Rightarrow> chunk_key" where
  "spec_key m c = \<lparr>key_mount = m_name m, key_blob = sp_blob c, key_offset = sp_offset c\<rparr>"

lemma drain_ok:
  fixes w :: "'l world"
  assumes "world_ok w" "fetcher_ok w f" "await_inserts_drained (w_env w) f = Some f'"
  shows "fetcher_ok w f'"
proof -
  have "env = w_env w \<longrightarrow> fetcher_ok w f \<longrightarrow> fetcher_ok w f'" if "await_inserts_drained env f = Some f'" for env f f'
  proof (rule await_inserts_drained.raw_induct [OF _ that, where P = "\<lambda>env f f'. env = w_env w \<longrightarrow> fetcher_ok w f \<longrightarrow> fetcher_ok w f'"])
    fix rec :: "'l fetch_env \<Rightarrow> 'l fetcher \<Rightarrow> 'l fetcher option" and env f f'
    assume IH: "\<And>env f f'. rec env f = Some f' \<Longrightarrow> env = w_env w \<longrightarrow> fetcher_ok w f \<longrightarrow> fetcher_ok w f'"
      and eq: "(if f_inflight_writes f = [] then Some f else rec env (await env f)) = Some f'"
    show "env = w_env w \<longrightarrow> fetcher_ok w f \<longrightarrow> fetcher_ok w f'"
    proof (intro impI)
      assume env: "env = w_env w" and ok: "fetcher_ok w f"
      show "fetcher_ok w f'"
      proof (cases "f_inflight_writes f = []")
        case True
        with eq ok show ?thesis by simp
      next
        case False
        with eq have "rec env (await env f) = Some f'" by simp
        from IH [OF this] await_ok [OF assms(1) ok] env show ?thesis by simp
      qed
    qed
  qed
  with assms(2,3) show ?thesis by blast
qed

lemma take_failures_ok: "take_insert_failures f = (l, f') \<Longrightarrow> fetcher_ok w f' = fetcher_ok w f"
  by (auto simp: take_insert_failures_def)

lemma run_jobs_ok:
  assumes "world_ok w" "run_jobs (w_env w) work cs f = (results, f')" "fetcher_ok w f"
    and "\<And>c f r f'. c \<in> set cs \<Longrightarrow> fetcher_ok w f \<Longrightarrow> work c f = (r, f') \<Longrightarrow>
      fetcher_ok w f' \<and> (healthy w \<and> good c \<longrightarrow> r = Inr (content c))"
  shows "fetcher_ok w f' \<and> (healthy w \<and> (\<forall>c \<in> set cs. good c) \<longrightarrow> succeeded results = map content cs)"
  using assms(2-4)
proof (induction cs arbitrary: f results f')
  case Nil
  then show ?case by (simp add: succeeded_def List.map_filter_simps)
next
  case (Cons c cs)
  let ?f1 = "bump ''chunk_permits_in_use'' 1 (await (w_env w) f)"
  obtain r f2 where r: "work c ?f1 = (r, f2)" by (cases "work c ?f1")
  let ?f3 = "await (w_env w) (bump ''chunk_permits_in_use'' (- 1) f2)"
  let ?j = "case fe_join (w_env w) (f_clock f2) of Some e \<Rightarrow> Inl e | None \<Rightarrow> Inr r"
  obtain rest f4 where rest: "run_jobs (w_env w) work cs ?f3 = (rest, f4)" by (cases "run_jobs (w_env w) work cs ?f3")
  have eq: "results = (c, ?j) # rest" "f' = f4" using Cons.prems(1) r rest by (auto simp: Let_def)
  have "fetcher_ok w ?f1" using await_ok [OF assms(1) Cons.prems(2)] by simp
  from Cons.prems(3) [OF _ this r] have two: "fetcher_ok w f2" "healthy w \<and> good c \<longrightarrow> r = Inr (content c)" by auto
  have three: "fetcher_ok w ?f3" using await_ok [OF assms(1)] two(1) by simp
  have step: "\<And>c f r f'. c \<in> set cs \<Longrightarrow> fetcher_ok w f \<Longrightarrow> work c f = (r, f') \<Longrightarrow>
      fetcher_ok w f' \<and> (healthy w \<and> good c \<longrightarrow> r = Inr (content c))"
    by (rule Cons.prems(3)) simp_all
  have IH: "fetcher_ok w f4 \<and> (healthy w \<and> (\<forall>c \<in> set cs. good c) \<longrightarrow> succeeded rest = map content cs)"
    by (rule Cons.IH [OF rest three step])
  have "?j = Inr (Inr (content c))" if "healthy w" "good c"
  proof -
    have "fe_join (w_env w) (f_clock f2) = None" using that(1) by (simp add: healthy_def)
    then show ?thesis using two(2) that by simp
  qed
  then show ?case using IH unfolding eq by (auto simp: succeeded_def List.map_filter_simps)
qed

lemma run_shard_ok:
  assumes "world_ok w" "fetcher_ok w f" "map_of (w_mounts w) (sh_mount req) = Some m" "m_name m = sh_mount req"
    and "\<And>c. c \<in> set (sh_chunks req) \<Longrightarrow> spec_key m c \<in> w_keys w"
    and "run_shard he (w_env w) (w_mounts w) req f = Some (r, f')"
  shows "fetcher_ok w f' \<and> (healthy w \<and> (\<forall>c \<in> set (sh_chunks req). sp_len c = length (chunk_of w (spec_key m c))) \<longrightarrow>
    sr_fetched r = length (sh_chunks req) \<and> sr_bytes r = sum_list (map sp_len (sh_chunks req)) mod 2 ^ 64)"
proof -
  let ?work = "\<lambda>c f. fetch_chunk_origin_only (w_env w) m (sp_blob c) (sp_offset c) (sp_len c) f"
  obtain results f1 where jobs: "run_jobs (w_env w) ?work (sh_chunks req) f = (results, f1)"
    by (cases "run_jobs (w_env w) ?work (sh_chunks req) f")
  obtain n b es where t: "tally (\<lambda>c e. at_offset c @ '': '' @ show_error e) (\<lambda>e. ''join: '' @ e) results (0, 0, []) = (n, b, es)"
    by (metis prod_cases3)
  note run = assms(6) [unfolded run_shard_def assms(3) option.case jobs prod.case t]
  obtain f2 where d: "await_inserts_drained (w_env w) f1 = Some f2"
    using run by (auto split: option.splits)
  have r: "sr_fetched r = n" "sr_bytes r = b" "f' = snd (take_insert_failures f2)"
    using run d by (auto simp: Let_def split: prod.splits)
  have m: "map_of (w_mounts w) (m_name m) = Some m" using assms(3,4) by simp
  have step: "fetcher_ok w f' \<and> (healthy w \<and> sp_len c = length (chunk_of w (spec_key m c)) \<longrightarrow> q = Inr (chunk_of w (spec_key m c)))"
    if "c \<in> set (sh_chunks req)" "fetcher_ok w f" "?work c f = (q, f')" for c f q f'
  proof -
    note ok = fetch_chunk_inner_ok [OF assms(1) that(2) m spec_key_def assms(5) [OF that(1)] that(3) [unfolded fetch_chunk_origin_only_def]]
    show ?thesis using conjunct1 [OF ok] conjunct2 [OF conjunct2 [OF ok]] by (rule conjI)
  qed
  have ok: "fetcher_ok w f1 \<and> (healthy w \<and> (\<forall>c \<in> set (sh_chunks req). sp_len c = length (chunk_of w (spec_key m c))) \<longrightarrow>
      succeeded results = map (\<lambda>c. chunk_of w (spec_key m c)) (sh_chunks req))"
    by (rule run_jobs_ok [OF assms(1) jobs assms(2), where good = "\<lambda>c. sp_len c = length (chunk_of w (spec_key m c))"]) (rule step)
  then have "fetcher_ok w f2" using drain_ok [OF assms(1) _ d] by blast
  then have "fetcher_ok w f'" using take_failures_ok [of f2 _ f' w] r(3) by (cases "take_insert_failures f2") simp
  moreover have "n = length (sh_chunks req) \<and> b = sum_list (map sp_len (sh_chunks req)) mod 2 ^ 64"
    if "healthy w" "\<forall>c \<in> set (sh_chunks req). sp_len c = length (chunk_of w (spec_key m c))"
  proof -
    have s: "succeeded results = map (\<lambda>c. chunk_of w (spec_key m c)) (sh_chunks req)" using ok that by blast
    have l: "map length (succeeded results) = map sp_len (sh_chunks req)" using that(2) by (simp add: s o_def)
    have "length (succeeded results) = length (sh_chunks req)" by (simp add: s)
    then show ?thesis using tally_jobs [OF jobs t] unfolding l by blast
  qed
  ultimately show ?thesis using r by blast
qed

lemma pull_step:
  assumes "world_ok w" "map_of (w_mounts w) (m_name m) = Some m" "spec_key m c \<in> w_keys w" "fetcher_ok w f"
    and "pull_chunk_from_peer_wait (w_env w) m (sp_blob c) (sp_offset c) (sp_len c) peer url addr wait_ms f = (q, f')"
  shows "fetcher_ok w f'"
  using pull_ok [OF assms(1,4,2), of "spec_key m c" "sp_blob c" "sp_offset c" "sp_len c" peer url addr wait_ms q f'] assms(3,5)
  by (simp add: spec_key_def)

lemma run_ring_step_ok:
  assumes "world_ok w" "fetcher_ok w f" "map_of (w_mounts w) (rr_mount req) = Some m" "m_name m = rr_mount req"
    and "\<And>c. c \<in> set (rr_chunks req) \<Longrightarrow> spec_key m c \<in> w_keys w"
    and "run_ring_step he (w_env w) b64_error (w_mounts w) req f = Some (r, f')"
  shows "fetcher_ok w f'"
proof (cases "rr_prev_worker_b64 req \<noteq> None \<and> Option.bind (rr_prev_worker_b64 req) (fe_b64 (w_env w)) = None")
  case True
  then show ?thesis using assms(2,3,6) by (simp add: run_ring_step_def)
next
  case False
  let ?addr = "Option.bind (rr_prev_worker_b64 req) (fe_b64 (w_env w))"
  let ?work = "\<lambda>c f. pull_chunk_from_peer_wait (w_env w) m (sp_blob c) (sp_offset c) (sp_len c) (rr_prev_node_id req)
    (rr_prev_transport_url req) ?addr 0 f"
  obtain results f1 where jobs: "run_jobs (w_env w) ?work (rr_chunks req) f = (results, f1)"
    by (cases "run_jobs (w_env w) ?work (rr_chunks req) f")
  have d: "await_inserts_drained (w_env w) f1 = Some f'"
    using assms(6) [unfolded run_ring_step_def assms(3) option.case if_not_P [OF False] jobs prod.case]
    by (auto split: option.splits prod.splits)
  have m: "map_of (w_mounts w) (m_name m) = Some m" using assms(3,4) by simp
  have "fetcher_ok w f1 \<and> (healthy w \<and> (\<forall>c \<in> set (rr_chunks req). False) \<longrightarrow> succeeded results = map (\<lambda>_. []) (rr_chunks req))"
    by (rule run_jobs_ok [OF assms(1) jobs assms(2), where good = "\<lambda>_. False"])
       (use pull_step [OF assms(1) m assms(5)] in blast)
  then show ?thesis using drain_ok [OF assms(1) _ d] by blast
qed

lemma run_broadcast_shard_ok:
  assumes "world_ok w" "fetcher_ok w f" "map_of (w_mounts w) (bq_mount req) = Some m" "m_name m = bq_mount req"
    and "\<And>s c. s \<in> set (bq_sources req) \<Longrightarrow> c \<in> set (src_chunks s) \<Longrightarrow> spec_key m c \<in> w_keys w"
    and "run_broadcast_shard he (w_env w) (w_mounts w) req f = Some (r, f')"
  shows "fetcher_ok w f'"
proof -
  let ?work = "\<lambda>(s, c) f. pull_chunk_from_peer (w_env w) m (sp_blob c) (sp_offset c) (sp_len c)
    (src_node_id s) (src_transport_url s) (source_addr (w_env w) s) f"
  obtain results f1 where jobs: "run_jobs (w_env w) ?work (broadcast_jobs (bq_sources req)) f = (results, f1)"
    by (cases "run_jobs (w_env w) ?work (broadcast_jobs (bq_sources req)) f")
  have d: "await_inserts_drained (w_env w) f1 = Some f'"
    using assms(3,6) jobs by (auto simp: run_broadcast_shard_def split: option.splits prod.splits)
  have m: "map_of (w_mounts w) (m_name m) = Some m" using assms(3,4) by simp
  have key: "spec_key m (snd sc) \<in> w_keys w" if "sc \<in> set (broadcast_jobs (bq_sources req))" for sc
  proof -
    have "snd sc \<in> set (map snd (broadcast_jobs (bq_sources req)))" using that by simp
    then have "snd sc \<in> set (concat (map src_chunks (bq_sources req)))"
      using broadcast_jobs_mset mset_eq_setD by metis
    then show ?thesis using assms(5) by auto
  qed
  have "fetcher_ok w f1 \<and> (healthy w \<and> (\<forall>c \<in> set (broadcast_jobs (bq_sources req)). False) \<longrightarrow>
      succeeded results = map (\<lambda>_. []) (broadcast_jobs (bq_sources req)))"
  proof (rule run_jobs_ok [OF assms(1) jobs assms(2), where good = "\<lambda>_. False"])
    fix sc f q f'
    assume "sc \<in> set (broadcast_jobs (bq_sources req))" "fetcher_ok w f" "?work sc f = (q, f')"
    then show "fetcher_ok w f' \<and> (healthy w \<and> False \<longrightarrow> q = Inr [])"
      using pull_step [OF assms(1) m key] by (auto simp: pull_chunk_from_peer_def split: prod.splits)
  qed
  then show ?thesis using drain_ok [OF assms(1) _ d] by blast
qed

section \<open>Paths\<close>

lemma real_path_strip:
  assumes "m_prefix m = p \<or> m_prefix m = p @ ''/''" "p \<noteq> []" "last p \<noteq> CHR ''/''" "rest = [] \<or> hd rest \<noteq> CHR ''/''"
  shows "real_path m (blob_path_of m (p @ ''/'' @ rest)) = p @ ''/'' @ rest"
proof -
  have t: "trim_start_matches CHR ''/'' rest = rest" "trim_start_matches CHR ''/'' (''/'' @ rest) = rest"
    using assms(4) by (cases rest; auto simp: trim_start_matches_def)+
  have l: "dropWhile (\<lambda>x. x = CHR ''/'') (rev p) = rev p"
    using assms(2,3) by (cases p rule: rev_cases) auto
  have e: "trim_end_matches CHR ''/'' (m_prefix m) = p"
    using assms(1) l by (auto simp: trim_end_matches_def)
  have b: "blob_path_of m (p @ ''/'' @ rest) = rest"
    using assms(1,2) t by (auto simp: blob_path_of_def starts_with_def)
  have "m_prefix m \<noteq> []" using assms(1,2) by auto
  then show ?thesis unfolding b real_path_def e by simp
qed

section \<open>Properties\<close>

text \<open>C8: The hydration plan covers everything once. With a positive chunk size the listing is cut without
  diverging; the pieces of every listed blob, put together, are its bytes; every chunk is dealt to
  exactly one node, this node first, distinct nodes getting shares that differ by at most one chunk; and
  in a broadcast every node is asked to pull exactly the chunks it did not fetch itself.\<close>

theorem hydrate_plan_covers:
  assumes "0 < cs" "distinct (map n_id ns)"
    and "ts = hydrate_targets me ns" "chunks = concat (map (blob_chunks cs m) found)"
    and "plan = make_plan me_url ts (deal 0 chunks (replicate (length ts) []))"
  shows "enumerate_chunks cs m found = Some (length (filter (\<lambda>b. lb_content_length b \<noteq> 0) found), chunks)
    \<and> (\<forall>b (data :: bytes). length data = lb_content_length b \<longrightarrow>
         concat (map (\<lambda>c. take (sp_len c) (drop (sp_offset c) data)) (blob_chunks cs m b)) = data)
    \<and> mset (concat (map src_chunks plan)) = mset chunks
    \<and> src_node_id (plan ! 0) = me \<and> distinct (map src_node_id plan) \<and> length plan = length ts
    \<and> (\<forall>i < length plan. length (src_chunks (plan ! i)) = length chunks div length plan + (if i < length chunks mod length plan then 1 else 0))
    \<and> (\<forall>r \<in> set plan. mset (src_chunks r) + mset (map snd (broadcast_jobs (other_sources (src_node_id r) plan))) = mset chunks)"
proof -
  let ?bs = "deal 0 chunks (replicate (length ts) [])"
  have ts: "ts \<noteq> []" by (simp add: assms(3) hydrate_targets_def)
  then have ne: "replicate (length ts) ([] :: chunk_spec list) \<noteq> []" by simp
  have zip: "length (zip ts ?bs) = length ts" by simp
  have chunks: "map src_chunks plan = ?bs"
  proof -
    have "map src_chunks plan = map snd (zip ts ?bs)" by (simp add: assms(5) make_plan_def o_def case_prod_beta)
    also have "\<dots> = ?bs" by (rule map_snd_zip) simp
    finally show ?thesis .
  qed
  have ids: "map src_node_id plan = map fst ts"
  proof -
    have "map src_node_id plan = map (\<lambda>p. fst (fst p)) (zip ts ?bs)"
      by (simp add: assms(5) make_plan_def o_def case_prod_beta)
    also have "\<dots> = map fst (map fst (zip ts ?bs))" by (simp only: map_map o_def)
    also have "map fst (zip ts ?bs) = ts" by (rule map_fst_zip) simp
    finally show ?thesis .
  qed
  have len: "length plan = length ts" using ids by (metis length_map)
  have dis: "distinct (map src_node_id plan)"
  proof -
    have "distinct (map n_id (filter (\<lambda>n. n_state n = Alive \<and> n_id n \<noteq> me) ns))"
      using assms(2) by (simp add: distinct_map_filter)
    then show ?thesis unfolding ids assms(3) hydrate_targets_def by (auto simp: o_def)
  qed
  have all: "mset (concat (map src_chunks plan)) = mset chunks"
    unfolding chunks using deal_mset [OF ne, of 0 chunks] by simp
  have "balanced (length chunks) ?bs" using deal_balanced [OF ne balanced_empty, of chunks] by simp
  then have bal: "length (src_chunks (plan ! i)) = length chunks div length plan + (if i < length chunks mod length plan then 1 else 0)"
    if "i < length plan" for i
    using that len unfolding balanced_def chunks [symmetric] by simp
  have pieces: "concat (map (\<lambda>c. take (sp_len c) (drop (sp_offset c) data)) (blob_chunks cs m b)) = data"
    if "length data = lb_content_length b" for b and data :: bytes
  proof -
    have "take (min cs (length data - i * cs)) (drop (i * cs) data) = take cs (drop (i * cs) data)" for i
      by (metis length_drop take_take take_all order_refl min.commute)
    then show ?thesis using all_slices [OF assms(1), of data] that by (simp add: blob_chunks_def piece_def o_def)
  qed
  have cover: "mset (src_chunks r) + mset (map snd (broadcast_jobs (other_sources (src_node_id r) plan))) = mset chunks"
    if "r \<in> set plan" for r
    unfolding broadcast_jobs_mset using other_sources_rest [OF dis that] all by simp
  have first: "src_node_id (plan ! 0) = me"
  proof -
    have "map src_node_id plan ! 0 = me" unfolding ids by (simp add: assms(3) hydrate_targets_def)
    then show ?thesis using ts len by simp
  qed
  have enum: "enumerate_chunks cs m found = Some (length (filter (\<lambda>b. lb_content_length b \<noteq> 0) found), chunks)"
    unfolding assms(4) by (rule enumerate_chunks_eq [OF assms(1)])
  show ?thesis
    by (intro conjI allI impI ballI) (fact enum, erule pieces, fact all, fact first, fact dis, fact len, erule bal, erule cover)
qed

definition two_nodes :: "node_info list" where
  "two_nodes = [sample_node ''a'' ''h'' 1, sample_node ''b'' ''h'' 1]"

definition three_bytes :: listed_blob where
  "three_bytes = \<lparr>lb_name = ''b'', lb_content_length = 3, lb_etag = None, lb_last_modified = None\<rparr>"

definition two_chunks :: "chunk_spec list" where
  "two_chunks = concat (map (blob_chunks 2 (sample_mount ''m'')) [three_bytes])"

definition two_plan :: "broadcast_source list" where
  "two_plan = make_plan ''http://a:1'' (hydrate_targets ''a'' two_nodes) (deal 0 two_chunks (replicate (length (hydrate_targets ''a'' two_nodes)) []))"

theorem hydrate_plan_covers_witness:
  "enumerate_chunks 2 (sample_mount ''m'') [three_bytes] = Some (1, two_chunks) \<and>
   mset (concat (map src_chunks two_plan)) = mset two_chunks \<and> length two_chunks = 2 \<and> length two_plan = 2"
proof -
  have "distinct (map n_id two_nodes)" by (simp add: two_nodes_def sample_node_def)
  note w = hydrate_plan_covers [OF _ this refl two_chunks_def two_plan_def]
  have "length two_chunks = 2" by (simp add: two_chunks_def blob_chunks_def three_bytes_def div_ceil_def)
  moreover have "length (hydrate_targets ''a'' two_nodes) = 2"
    by (simp add: hydrate_targets_def two_nodes_def sample_node_def)
  moreover have "length (filter (\<lambda>b. lb_content_length b \<noteq> 0) [three_bytes]) = 1" by (simp add: three_bytes_def)
  ultimately show ?thesis using w by simp
qed




definition quiet :: hydrate_env where
  "quiet = \<lparr>he_unix_ms = (\<lambda>t. t), he_instant_ms = (\<lambda>t. t), he_post_shard = (\<lambda>_ _ _. Inl []), he_post_broadcast = (\<lambda>_ _ _. Inl []),
     he_post_ring = (\<lambda>_ _ _. Inl []), he_task_join = (\<lambda>_ _. None), he_timeout = (\<lambda>_. False), he_timeout_secs = None, he_mode_var = None\<rparr>"

definition idle_response :: shard_response where
  "idle_response = \<lparr>sr_fetched = 0, sr_bytes = 0, sr_errors = [], sr_elapsed_ms = 0, sr_start_unix_ms = 0, sr_end_unix_ms = 0\<rparr>"

lemma idle_run:
  "run_shard quiet small_env [(''m'', sample_mount ''m'')] \<lparr>sh_mount = ''m'', sh_chunks = []\<rparr> small_fetcher = Some (idle_response, small_fetcher)"
proof -
  have f: "f_inflight_writes small_fetcher = []" "f_insert_failures small_fetcher = []" "f_clock small_fetcher = 0"
    by (simp_all add: small_fetcher_def fetcher_new_def)
  have d: "await_inserts_drained small_env small_fetcher = Some small_fetcher" by (subst await_inserts_drained.simps) (simp add: f)
  have l: "take_insert_failures small_fetcher = ([], small_fetcher)" by (simp add: take_insert_failures_def small_fetcher_def fetcher_new_def)
  show ?thesis by (simp add: run_shard_def d l f quiet_def idle_response_def)
qed




text \<open>Which blob a hydrated chunk belongs to. A listed blob below the mount's prefix, with or without a slash
  at the end of the configured prefix, is hydrated under the path by which the fetcher finds it again.
  But a prefix without a slash also lists its siblings: with prefix \<open>data\<close> the blob \<open>database/x\<close> is hydrated
  as \<open>data/base/x\<close>, another blob.\<close>

theorem hydrate_path_roundtrip:
  shows "((m_prefix m = p \<or> m_prefix m = p @ ''/'') \<and> p \<noteq> [] \<and> last p \<noteq> CHR ''/'' \<and> (rest = [] \<or> hd rest \<noteq> CHR ''/'') \<longrightarrow>
      real_path m (blob_path_of m (p @ ''/'' @ rest)) = p @ ''/'' @ rest)
    \<and> (m_prefix m = [] \<longrightarrow> real_path m (blob_path_of m name) = name)
    \<and> (m_prefix m = ''data'' \<longrightarrow> starts_with ''database/x'' (combined_prefix m []) \<and>
      real_path m (blob_path_of m ''database/x'') = ''data/base/x'')"
proof (intro conjI impI)
  assume "(m_prefix m = p \<or> m_prefix m = p @ ''/'') \<and> p \<noteq> [] \<and> last p \<noteq> CHR ''/'' \<and> (rest = [] \<or> hd rest \<noteq> CHR ''/'')"
  then show "real_path m (blob_path_of m (p @ ''/'' @ rest)) = p @ ''/'' @ rest" by (intro real_path_strip) simp_all
next
  assume "m_prefix m = []"
  then show "real_path m (blob_path_of m name) = name" by (simp add: real_path_def blob_path_of_def)
next
  assume "m_prefix m = ''data''"
  then show "starts_with ''database/x'' (combined_prefix m [])" "real_path m (blob_path_of m ''database/x'') = ''data/base/x''"
    by (simp_all add: starts_with_def combined_prefix_def blob_path_of_def real_path_def trim_start_matches_def trim_end_matches_def)
qed

theorem hydrate_path_roundtrip_witness:
  "real_path ((sample_mount ''m'')\<lparr>m_prefix := ''data/''\<rparr>) (blob_path_of ((sample_mount ''m'')\<lparr>m_prefix := ''data/''\<rparr>) ''data/x'') = ''data/x'' \<and>
   real_path ((sample_mount ''m'')\<lparr>m_prefix := ''data''\<rparr>) (blob_path_of ((sample_mount ''m'')\<lparr>m_prefix := ''data''\<rparr>) ''database/x'') = ''data/base/x''"
  using hydrate_path_roundtrip [of "(sample_mount ''m'')\<lparr>m_prefix := ''data/''\<rparr>" "''data''" "''x''"]
    hydrate_path_roundtrip [of "(sample_mount ''m'')\<lparr>m_prefix := ''data''\<rparr>" "''data''" "''x''"]
  by simp

end
