(* ===== verification/FuseFs.thy ===== *)
theory FuseFs
  imports Pool
begin

text \<open>
  The FUSE file system (\<open>src/fuse_fs.rs\<close>): an inode table that mirrors blob listings, and the read-only
  operations on it. What listings and HEAD requests of the blob client answer, clocks, and what other
  requests do to the table while one awaits (\<open>fu_others\<close>) are parameters, indexed by the number of awaits
  so far. Times are in milliseconds; \<open>fu_system_time t j\<close> is what the wall clock reads when \<open>j\<close> blobs of a
  listing are left. A request that takes the table's lock is one atomic section between awaits.
\<close>

section \<open>State\<close>

definition ROOT_INO :: nat where
  "ROOT_INO = 1"

definition MAX_CHILDREN_PER_DIR :: nat where
  "MAX_CHILDREN_PER_DIR = 100000"

datatype node_kind =
    Dir bool
  | File nat "string option" nat

record node =
  nd_ino :: nat
  nd_parent :: nat
  nd_name :: string
  nd_full_path :: string
  nd_kind :: node_kind

record fs_inner =
  by_ino :: "(nat, node) hmap"
  by_parent_name :: "(nat \<times> string, nat) hmap"
  children :: "(nat, nat list) hmap"
  next_ino :: nat

record blob_fs =
  fs_mount :: mount_config
  fs_inner_of :: fs_inner
  fs_listing_cache_ttl :: nat
  fs_last_listing :: "(nat, nat) hmap"
  fs_reads :: nat
  fs_read_bytes :: nat
  fs_clock :: nat

datatype errno = ENOENT | ENOTDIR | EISDIR | EIO

record fuse_env =
  fu_list :: "nat \<Rightarrow> string option \<Rightarrow> (listed_blob list \<times> string list) result"
  fu_head :: "nat \<Rightarrow> string \<Rightarrow> blob_info result"
  fu_instant :: "nat \<Rightarrow> nat"
  fu_system_time :: "nat \<Rightarrow> nat \<Rightarrow> nat"
  fu_others :: "nat \<Rightarrow> fs_inner \<Rightarrow> fs_inner"

definition fs_new :: "mount_config \<Rightarrow> blob_fs" where
  "fs_new m =
     \<lparr>fs_mount = m,
      fs_inner_of =
        \<lparr>by_ino = [(ROOT_INO, \<lparr>nd_ino = ROOT_INO, nd_parent = ROOT_INO, nd_name = [], nd_full_path = [], nd_kind = Dir False\<rparr>)],
         by_parent_name = [], children = [(ROOT_INO, [])], next_ino = 2\<rparr>,
      fs_listing_cache_ttl = 30000, fs_last_listing = [], fs_reads = 0, fs_read_bytes = 0, fs_clock = 0\<rparr>"

text \<open>An await: the other requests act on the table.\<close>

definition fs_await :: "fuse_env \<Rightarrow> blob_fs \<Rightarrow> blob_fs" where
  "fs_await env fs = fs\<lparr>fs_inner_of := fu_others env (fs_clock fs) (fs_inner_of fs), fs_clock := Suc (fs_clock fs)\<rparr>"

section \<open>Attributes\<close>

datatype file_type = Directory | RegularFile

record file_attr =
  fa_ino :: nat
  fa_size :: nat
  fa_blocks :: nat
  fa_mtime :: nat
  fa_kind :: file_type
  fa_perm :: nat
  fa_nlink :: nat
  fa_uid :: nat
  fa_gid :: nat
  fa_blksize :: nat

definition attr_for :: "node \<Rightarrow> nat \<Rightarrow> nat \<Rightarrow> file_attr" where
  "attr_for n uid gid =
     (case nd_kind n of
        Dir _ \<Rightarrow>
          \<lparr>fa_ino = nd_ino n, fa_size = 0, fa_blocks = 0, fa_mtime = 0, fa_kind = Directory, fa_perm = 0x16D, fa_nlink = 2,
           fa_uid = uid, fa_gid = gid, fa_blksize = 4096\<rparr>
      | File sz _ mtime \<Rightarrow>
          \<lparr>fa_ino = nd_ino n, fa_size = sz, fa_blocks = div_ceil sz 512, fa_mtime = mtime, fa_kind = RegularFile, fa_perm = 0x124,
           fa_nlink = 1, fa_uid = uid, fa_gid = gid, fa_blksize = 4096\<rparr>)"

section \<open>Listings\<close>

text \<open>\<open>str::get(n..)\<close>: nothing if \<open>n\<close> is past the end or inside a character.\<close>

definition str_get :: "nat \<Rightarrow> string \<Rightarrow> string option" where
  "str_get n s =
     (if n = length s \<or> (n < length s \<and> \<not> in_range 0x80 0xBF (of_char (s ! n))) then Some (drop n s) else None)"

definition strip_prefix_len :: "mount_config \<Rightarrow> nat" where
  "strip_prefix_len m = (if m_prefix m = [] then 0 else length (trim_matches CHR ''/'' (m_prefix m)) + 1)"

definition fs_prefix :: "mount_config \<Rightarrow> string" where
  "fs_prefix m = (if m_prefix m = [] then [] else trim_matches CHR ''/'' (m_prefix m) @ ''/'')"

definition dir_prefix :: "mount_config \<Rightarrow> node \<Rightarrow> string" where
  "dir_prefix m n = fs_prefix m @ (if nd_full_path n = [] then [] else nd_full_path n @ ''/'')"

definition kids :: "nat \<Rightarrow> fs_inner \<Rightarrow> nat list" where
  "kids i g = (case map_of (children g) i of Some ks \<Rightarrow> ks | None \<Rightarrow> [])"

definition add_node :: "nat \<Rightarrow> node \<Rightarrow> fs_inner \<Rightarrow> fs_inner" where
  "add_node parent n g =
     g\<lparr>next_ino := next_ino g + 1, by_ino := AList.update (nd_ino n) n (by_ino g),
       by_parent_name := AList.update (parent, nd_name n) (nd_ino n) (by_parent_name g),
       children := AList.update parent (kids parent g @ [nd_ino n]) (children g)\<rparr>"

definition upsert_dir :: "mount_config \<Rightarrow> nat \<Rightarrow> string \<Rightarrow> string \<Rightarrow> fs_inner \<Rightarrow> fs_inner" where
  "upsert_dir m parent name full_blob_path g =
     (case map_of (by_parent_name g) (parent, name) of
        Some _ \<Rightarrow> g
      | None \<Rightarrow>
          let i = next_ino g;
              full_path = (case str_get (strip_prefix_len m) (trim_end_matches CHR ''/'' full_blob_path) of Some p \<Rightarrow> p | None \<Rightarrow> []);
              n = \<lparr>nd_ino = i, nd_parent = parent, nd_name = name, nd_full_path = full_path, nd_kind = Dir False\<rparr>;
              g = add_node parent n g in
          g\<lparr>children := AList.update i (kids i g) (children g)\<rparr>)"

definition upsert_file ::
  "mount_config \<Rightarrow> nat \<Rightarrow> string \<Rightarrow> string \<Rightarrow> nat \<Rightarrow> string option \<Rightarrow> nat \<Rightarrow> fs_inner \<Rightarrow> fs_inner"
where
  "upsert_file m parent name full_blob_name sz etag mtime g =
     (case map_of (by_parent_name g) (parent, name) of
        Some existing \<Rightarrow>
          (case map_of (by_ino g) existing of
             Some n \<Rightarrow>
               (case nd_kind n of
                  File _ _ _ \<Rightarrow> g\<lparr>by_ino := AList.update existing (n\<lparr>nd_kind := File sz etag mtime\<rparr>) (by_ino g)\<rparr>
                | Dir _ \<Rightarrow> g)
           | None \<Rightarrow> g)
      | None \<Rightarrow>
          let i = next_ino g;
              full_path = (case str_get (strip_prefix_len m) full_blob_name of Some p \<Rightarrow> p | None \<Rightarrow> full_blob_name) in
          add_node parent \<lparr>nd_ino = i, nd_parent = parent, nd_name = name, nd_full_path = full_path, nd_kind = File sz etag mtime\<rparr> g)"

definition over_cap :: "nat \<Rightarrow> string \<Rightarrow> fs_inner \<Rightarrow> bool" where
  "over_cap i rel g \<longleftrightarrow> length (kids i g) \<ge> MAX_CHILDREN_PER_DIR \<and> map_of (by_parent_name g) (i, rel) = None"

definition relative :: "string \<Rightarrow> string \<Rightarrow> string" where
  "relative strip name = (case strip_prefix strip name of Some r \<Rightarrow> r | None \<Rightarrow> name)"

fun apply_prefixes :: "mount_config \<Rightarrow> nat \<Rightarrow> string \<Rightarrow> string list \<Rightarrow> string list \<times> fs_inner \<Rightarrow> string list \<times> fs_inner" where
  "apply_prefixes m i strip [] acc = acc"
| "apply_prefixes m i strip (p # ps) (seen, g) =
     (let rel = trim_end_matches CHR ''/'' (relative strip p) in
      apply_prefixes m i strip ps
        (if rel = [] \<or> over_cap i rel g then (seen, g) else (rel # seen, upsert_dir m i rel p g)))"

fun apply_blobs :: "mount_config \<Rightarrow> nat \<Rightarrow> string \<Rightarrow> (nat \<Rightarrow> nat) \<Rightarrow> listed_blob list \<Rightarrow> string list \<times> fs_inner \<Rightarrow> string list \<times> fs_inner" where
  "apply_blobs m i strip mtime [] acc = acc"
| "apply_blobs m i strip mtime (b # bs) (seen, g) =
     (let rel = relative strip (lb_name b) in
      apply_blobs m i strip mtime bs
        (if rel = [] \<or> CHR ''/'' \<in> set rel \<or> over_cap i rel g then (seen, g)
         else (rel # seen, upsert_file m i rel (lb_name b) (lb_content_length b) (lb_etag b) (mtime (length bs)) g)))"

definition stale :: "nat \<Rightarrow> string list \<Rightarrow> fs_inner \<Rightarrow> (string \<times> nat) list" where
  "stale i seen g =
     filter (\<lambda>(name, _). name \<notin> set seen)
       (List.map_filter (\<lambda>k. map_option (\<lambda>n. (nd_name n, k)) (map_of (by_ino g) k)) (kids i g))"

definition remove_child :: "nat \<Rightarrow> string \<times> nat \<Rightarrow> fs_inner \<Rightarrow> fs_inner" where
  "remove_child i = (\<lambda>(name, child) g.
     let c = (case map_of (children g) i of
                Some ks \<Rightarrow> AList.update i (filter (\<lambda>k. k \<noteq> child) ks) (children g)
              | None \<Rightarrow> children g) in
     g\<lparr>by_parent_name := AList.delete (i, name) (by_parent_name g), children := AList.delete child c\<rparr>)"

definition mark_loaded :: "nat \<Rightarrow> fs_inner \<Rightarrow> fs_inner" where
  "mark_loaded i g =
     (case map_of (by_ino g) i of
        Some n \<Rightarrow> (case nd_kind n of Dir _ \<Rightarrow> g\<lparr>by_ino := AList.update i (n\<lparr>nd_kind := Dir True\<rparr>) (by_ino g)\<rparr> | _ \<Rightarrow> g)
      | None \<Rightarrow> g)"

definition apply_listing ::
  "mount_config \<Rightarrow> nat \<Rightarrow> string \<Rightarrow> (nat \<Rightarrow> nat) \<Rightarrow> listed_blob list \<Rightarrow> string list \<Rightarrow> fs_inner \<Rightarrow> fs_inner"
where
  "apply_listing m i strip mtime blobs pfxs g =
     (case apply_blobs m i strip mtime blobs (apply_prefixes m i strip pfxs ([], g)) of
        (seen, g) \<Rightarrow> mark_loaded i (fold (remove_child i) (stale i seen g) g))"

definition need_load :: "fuse_env \<Rightarrow> nat \<Rightarrow> blob_fs \<Rightarrow> errno + bool" where
  "need_load env i fs =
     (case map_of (by_ino (fs_inner_of fs)) i of
        None \<Rightarrow> Inl ENOENT
      | Some n \<Rightarrow>
          (case nd_kind n of
             Dir children_loaded \<Rightarrow>
               let recent = (case map_of (fs_last_listing fs) i of
                               Some t \<Rightarrow> fu_instant env (fs_clock fs) - t < fs_listing_cache_ttl fs
                             | None \<Rightarrow> False) in
               Inr (\<not> children_loaded \<or> \<not> recent)
           | File _ _ _ \<Rightarrow> Inl ENOTDIR))"

definition ensure_dir_listed :: "fuse_env \<Rightarrow> nat \<Rightarrow> blob_fs \<Rightarrow> (errno + unit) \<times> blob_fs" where
  "ensure_dir_listed env i fs =
     (let fs = fs_await env fs in
      case need_load env i fs of
        Inl e \<Rightarrow> (Inl e, fs)
      | Inr False \<Rightarrow> (Inr (), fs)
      | Inr True \<Rightarrow>
          let fs = fs_await env fs in
          (case map_of (by_ino (fs_inner_of fs)) i of
             None \<Rightarrow> (Inl ENOENT, fs)
           | Some n \<Rightarrow>
               let p = dir_prefix (fs_mount fs) n in
               (case fu_list env (fs_clock fs) (if p = [] then None else Some p) of
                  Inl _ \<Rightarrow> (Inl EIO, fs_await env fs)
                | Inr (blobs, pfxs) \<Rightarrow>
                    let fs = fs_await env fs in
                    (Inr (), fs\<lparr>fs_inner_of := apply_listing (fs_mount fs) i p (fu_system_time env (fs_clock fs)) blobs pfxs (fs_inner_of fs),
                              fs_last_listing := AList.update i (fu_instant env (fs_clock fs)) (fs_last_listing fs)\<rparr>))))"

section \<open>Operations\<close>

text \<open>The read-ahead and write sizes \<open>init\<close> asks for: the chunk size as \<open>u32\<close>.\<close>

definition fs_init :: "'l fetcher \<Rightarrow> nat" where
  "fs_init f = max (f_chunk_size f) 1 mod 2 ^ 32"

definition lookup_candidate :: "mount_config \<Rightarrow> node \<Rightarrow> string \<Rightarrow> string" where
  "lookup_candidate m p name =
     (if nd_full_path p = [] then fs_prefix m @ name else fs_prefix m @ nd_full_path p @ ''/'' @ name)"

text \<open>\<open>g.by_parent_name[..]\<close> and \<open>g.by_ino[..]\<close> panic on a missing key: the answer is \<open>None\<close>.\<close>

definition find_child :: "nat \<Rightarrow> string \<Rightarrow> fs_inner \<Rightarrow> node option" where
  "find_child parent name g =
     (case map_of (by_parent_name g) (parent, name) of Some i \<Rightarrow> map_of (by_ino g) i | None \<Rightarrow> None)"

definition fs_lookup ::
  "fuse_env \<Rightarrow> nat \<Rightarrow> nat \<Rightarrow> nat \<Rightarrow> string \<Rightarrow> blob_fs \<Rightarrow> (errno + file_attr) option \<times> blob_fs"
where
  "fs_lookup env uid gid parent name fs =
     (case ensure_dir_listed env parent fs of
        (Inl e, fs) \<Rightarrow> (Some (Inl e), fs)
      | (Inr _, fs) \<Rightarrow>
          let fs = fs_await env fs in
          (case find_child parent name (fs_inner_of fs) of
             Some n \<Rightarrow> (Some (Inr (attr_for n uid gid)), fs)
           | None \<Rightarrow>
               (case map_of (by_ino (fs_inner_of fs)) parent of
                  None \<Rightarrow> (Some (Inl ENOENT), fs)
                | Some p \<Rightarrow>
                    let candidate = lookup_candidate (fs_mount fs) p name in
                    (case fu_head env (fs_clock fs) candidate of
                       Inl _ \<Rightarrow> (Some (Inl ENOENT), fs_await env fs)
                     | Inr info \<Rightarrow>
                         let fs = fs_await env fs;
                             g = upsert_file (fs_mount fs) parent name candidate (bi_content_length info) (bi_etag info)
                                   (fu_system_time env (fs_clock fs) 0) (fs_inner_of fs) in
                         (map_option (\<lambda>n. Inr (attr_for n uid gid)) (find_child parent name g), fs\<lparr>fs_inner_of := g\<rparr>)))))"

definition fs_getattr :: "fuse_env \<Rightarrow> nat \<Rightarrow> nat \<Rightarrow> nat \<Rightarrow> blob_fs \<Rightarrow> (errno + file_attr) \<times> blob_fs" where
  "fs_getattr env uid gid i fs =
     (let fs = fs_await env fs in
      (case map_of (by_ino (fs_inner_of fs)) i of
         Some n \<Rightarrow> Inr (attr_for n uid gid)
       | None \<Rightarrow> Inl ENOENT, fs))"

text \<open>\<open>offset as u64\<close>: a negative offset becomes a huge one.\<close>

definition as_u64 :: "int \<Rightarrow> nat" where
  "as_u64 n = nat (n mod 2 ^ 64)"

definition fs_read ::
  "fuse_env \<Rightarrow> 'l fetch_env \<Rightarrow> nat \<Rightarrow> int \<Rightarrow> nat \<Rightarrow> blob_fs \<Rightarrow> 'l fetcher \<Rightarrow> (errno + bytes) \<times> blob_fs \<times> 'l fetcher"
where
  "fs_read env fenv i offset sz fs f =
     (let fs = fs_await env fs in
      case map_of (by_ino (fs_inner_of fs)) i of
        None \<Rightarrow> (Inl ENOENT, fs, f)
      | Some n \<Rightarrow>
          (case nd_kind n of
             Dir _ \<Rightarrow> (Inl EISDIR, fs, f)
           | File file_size _ _ \<Rightarrow>
               if as_u64 offset \<ge> file_size then (Inr [], fs, f)
               else
                 let len = min sz (file_size - as_u64 offset);
                     fs = fs\<lparr>fs_reads := u64_add (fs_reads fs) 1\<rparr> in
                 (case fetch_range fenv (fs_mount fs) (nd_full_path n) (as_u64 offset) len file_size f of
                    (Inr b, f) \<Rightarrow>
                      let fs = fs_await env fs in
                      (Inr b, fs\<lparr>fs_read_bytes := u64_add (fs_read_bytes fs) (length b)\<rparr>,
                       bump ''fuse_read_bytes'' (int (length b)) (bump ''fuse_reads'' 1 f))
                  | (Inl _, f) \<Rightarrow> (Inl EIO, fs_await env fs, f))))"

definition dir_entries :: "nat \<Rightarrow> fs_inner \<Rightarrow> (nat \<times> file_type \<times> string) list" where
  "dir_entries i g =
     (i, Directory, ''.'') #
     ((case map_of (by_ino g) i of Some n \<Rightarrow> nd_parent n | None \<Rightarrow> ROOT_INO), Directory, ''..'') #
     List.map_filter (\<lambda>k. map_option (\<lambda>n. (k, (case nd_kind n of Dir _ \<Rightarrow> Directory | File _ _ _ \<Rightarrow> RegularFile), nd_name n))
                            (map_of (by_ino g) k)) (kids i g)"

text \<open>\<open>reply.add\<close> refuses an entry when the buffer is full; \<open>room\<close> entries fit. Every entry carries the offset
  at which the next call resumes.\<close>

definition dir_page ::
  "(nat \<times> file_type \<times> string) list \<Rightarrow> nat \<Rightarrow> int \<Rightarrow> (nat \<times> int \<times> file_type \<times> string) list"
where
  "dir_page es room offset =
     take room (drop (as_u64 offset)
       (map (\<lambda>(j, e_ino, kind, name). (e_ino, int j + 1, kind, name)) (zip [0..<length es] es)))"

definition fs_readdir ::
  "fuse_env \<Rightarrow> nat \<Rightarrow> nat \<Rightarrow> int \<Rightarrow> blob_fs \<Rightarrow> (errno + (nat \<times> int \<times> file_type \<times> string) list) \<times> blob_fs"
where
  "fs_readdir env i room offset fs =
     (case ensure_dir_listed env i fs of
        (Inl e, fs) \<Rightarrow> (Inl e, fs)
      | (Inr _, fs) \<Rightarrow>
          let fs = fs_await env fs in
          (Inr (dir_page (dir_entries i (fs_inner_of fs)) room offset), fs))"

end
