(* ===== verification/FuseProps.thy ===== *)
theory FuseProps
  imports FuseFs
begin

text \<open>
  The inode table invariant of the FUSE file system, its preservation by every operation under concurrent
  requests, exactness of an applied listing, paging of directory reads, and reads of files composed with the
  fetcher.
\<close>

section \<open>Invariant\<close>

definition is_dir :: "node \<Rightarrow> bool" where
  "is_dir n \<longleftrightarrow> (\<exists>l. nd_kind n = Dir l)"

text \<open>A string starts at a character boundary, as every Rust \<open>str\<close> does; a path component is a nonempty
  one without slashes.\<close>

definition char_start :: "string \<Rightarrow> bool" where
  "char_start s \<longleftrightarrow> s = [] \<or> \<not> in_range 0x80 0xBF (of_char (hd s))"

definition component :: "string \<Rightarrow> bool" where
  "component s \<longleftrightarrow> s \<noteq> [] \<and> CHR ''/'' \<notin> set s \<and> char_start s"

definition path_join :: "string \<Rightarrow> string \<Rightarrow> string" where
  "path_join p name = (if p = [] then name else p @ ''/'' @ name)"

definition node_good :: "mount_config \<Rightarrow> (string \<Rightarrow> nat) \<Rightarrow> fs_inner \<Rightarrow> nat \<Rightarrow> node \<Rightarrow> bool" where
  "node_good m len g k n \<longleftrightarrow>
     nd_ino n = k \<and> k < next_ino g \<and>
     (if k = ROOT_INO then nd_parent n = ROOT_INO \<and> nd_full_path n = [] \<and> is_dir n
      else nd_parent n < k \<and> component (nd_name n) \<and>
        (\<exists>p. map_of (by_ino g) (nd_parent n) = Some p \<and> is_dir p \<and>
           nd_full_path n = path_join (nd_full_path p) (nd_name n))) \<and>
     char_start (nd_full_path n) \<and>
     (\<forall>sz e t. nd_kind n = File sz e t \<longrightarrow> sz = len (fs_prefix m @ nd_full_path n))"

text \<open>\<open>len\<close> is the length of the blob of a name. Inodes carry their own number, parents come before their
  children, the path of a node is its parent's path and its name, a file has the size of the blob of its
  path; the index by parent and name leads to such a node; the children of a directory are distinct, have it
  as their parent and are found by name; and every name known below a directory that is still in the tree is
  among its children.\<close>

definition tree_ok :: "mount_config \<Rightarrow> (string \<Rightarrow> nat) \<Rightarrow> fs_inner \<Rightarrow> bool" where
  "tree_ok m len g \<longleftrightarrow>
     map_of (by_ino g) ROOT_INO \<noteq> None \<and>
     (\<forall>k n. map_of (by_ino g) k = Some n \<longrightarrow> node_good m len g k n) \<and>
     (\<forall>p x k. map_of (by_parent_name g) (p, x) = Some k \<longrightarrow>
        k \<noteq> ROOT_INO \<and> (\<exists>n. map_of (by_ino g) k = Some n \<and> nd_parent n = p \<and> nd_name n = x)) \<and>
     (\<forall>p k. k \<in> set (kids p g) \<longrightarrow>
        (\<exists>n. map_of (by_ino g) k = Some n \<and> nd_parent n = p \<and> map_of (by_parent_name g) (p, nd_name n) = Some k)) \<and>
     (\<forall>p. distinct (kids p g)) \<and>
     (\<forall>d x k. d = ROOT_INO \<or> (\<exists>p. d \<in> set (kids p g)) \<longrightarrow>
        map_of (by_parent_name g) (d, x) = Some k \<longrightarrow> k \<in> set (kids d g))"

text \<open>What an operation may do to nodes: add some, and change the contents of a file or the loaded flag of a
  directory. Inode numbers are never reused.\<close>

definition extends :: "fs_inner \<Rightarrow> fs_inner \<Rightarrow> bool" where
  "extends g g' \<longleftrightarrow>
     (\<forall>k n. map_of (by_ino g) k = Some n \<longrightarrow>
        (\<exists>n'. map_of (by_ino g') k = Some n' \<and> nd_parent n' = nd_parent n \<and> nd_name n' = nd_name n \<and>
           nd_full_path n' = nd_full_path n \<and> (is_dir n' \<longleftrightarrow> is_dir n)))"

lemma extends_refl: "extends g g"
  by (auto simp: extends_def)

lemma extends_trans:
  assumes "extends g h" "extends h k"
  shows "extends g k"
  unfolding extends_def
proof (intro allI impI)
  fix i n assume "map_of (by_ino g) i = Some n"
  with assms(1) obtain n' where n': "map_of (by_ino h) i = Some n'" and s: "nd_parent n' = nd_parent n" "nd_name n' = nd_name n"
      "nd_full_path n' = nd_full_path n" "is_dir n' \<longleftrightarrow> is_dir n" unfolding extends_def by blast
  from assms(2) n' obtain n'' where "map_of (by_ino k) i = Some n''" "nd_parent n'' = nd_parent n'" "nd_name n'' = nd_name n'"
      "nd_full_path n'' = nd_full_path n'" "is_dir n'' \<longleftrightarrow> is_dir n'" unfolding extends_def by blast
  with s show "\<exists>n'. map_of (by_ino k) i = Some n' \<and> nd_parent n' = nd_parent n \<and> nd_name n' = nd_name n \<and>
           nd_full_path n' = nd_full_path n \<and> (is_dir n' \<longleftrightarrow> is_dir n)" by auto
qed

lemma extendsD:
  assumes "extends g g'" "map_of (by_ino g) k = Some n"
  obtains n' where "map_of (by_ino g') k = Some n'" "nd_parent n' = nd_parent n" "nd_name n' = nd_name n"
    "nd_full_path n' = nd_full_path n" "is_dir n' \<longleftrightarrow> is_dir n"
  using assms unfolding extends_def by blast

lemma tree_okD:
  assumes "tree_ok m len g"
  shows "map_of (by_ino g) ROOT_INO \<noteq> None"
    "map_of (by_ino g) k = Some n \<Longrightarrow> node_good m len g k n"
    "map_of (by_parent_name g) (p, x) = Some k \<Longrightarrow>
       k \<noteq> ROOT_INO \<and> (\<exists>n. map_of (by_ino g) k = Some n \<and> nd_parent n = p \<and> nd_name n = x)"
    "k \<in> set (kids p g) \<Longrightarrow>
       \<exists>n. map_of (by_ino g) k = Some n \<and> nd_parent n = p \<and> map_of (by_parent_name g) (p, nd_name n) = Some k"
    "distinct (kids p g)"
    "d = ROOT_INO \<or> (\<exists>p. d \<in> set (kids p g)) \<Longrightarrow> map_of (by_parent_name g) (d, x) = Some k \<Longrightarrow> k \<in> set (kids d g)"
proof -
  note t = assms [unfolded tree_ok_def]
  show "map_of (by_ino g) ROOT_INO \<noteq> None" by (rule conjunct1 [OF t])
  note t2 = conjunct2 [OF t]
  show "map_of (by_ino g) k = Some n \<Longrightarrow> node_good m len g k n" using conjunct1 [OF t2] by blast
  note t3 = conjunct2 [OF t2]
  show "map_of (by_parent_name g) (p, x) = Some k \<Longrightarrow>
       k \<noteq> ROOT_INO \<and> (\<exists>n. map_of (by_ino g) k = Some n \<and> nd_parent n = p \<and> nd_name n = x)" using conjunct1 [OF t3] by blast
  note t4 = conjunct2 [OF t3]
  show "k \<in> set (kids p g) \<Longrightarrow>
       \<exists>n. map_of (by_ino g) k = Some n \<and> nd_parent n = p \<and> map_of (by_parent_name g) (p, nd_name n) = Some k"
    using conjunct1 [OF t4] by blast
  note t5 = conjunct2 [OF t4]
  show "distinct (kids p g)" using conjunct1 [OF t5] by blast
  show "d = ROOT_INO \<or> (\<exists>p. d \<in> set (kids p g)) \<Longrightarrow> map_of (by_parent_name g) (d, x) = Some k \<Longrightarrow> k \<in> set (kids d g)"
    using conjunct2 [OF t5] by blast
qed

section \<open>Changes of the table\<close>

lemma kids_update [simp]: "kids i (g\<lparr>children := AList.update p v (children g)\<rparr>) = (if i = p then v else kids i g)"
  by (simp add: kids_def map_of_update)

lemma kids_other [simp]:
  "kids i (g\<lparr>by_ino := a\<rparr>) = kids i g" "kids i (g\<lparr>by_parent_name := b\<rparr>) = kids i g" "kids i (g\<lparr>next_ino := c\<rparr>) = kids i g"
  by (simp_all add: kids_def)

lemma add_node_effect:
  "map_of (by_ino (add_node p n g)) k = (if k = nd_ino n then Some n else map_of (by_ino g) k)"
  "map_of (by_parent_name (add_node p n g)) (q, x) = (if (q, x) = (p, nd_name n) then Some (nd_ino n) else map_of (by_parent_name g) (q, x))"
  "kids i (add_node p n g) = (if i = p then kids p g @ [nd_ino n] else kids i g)"
  "next_ino (add_node p n g) = next_ino g + 1"
  by (simp_all add: add_node_def map_of_update kids_def)

text \<open>The invariant reads the table only through lookups.\<close>

lemma tree_ok_cong:
  assumes "tree_ok m len g" "map_of (by_ino h) = map_of (by_ino g)" "map_of (by_parent_name h) = map_of (by_parent_name g)"
    and "\<And>i. kids i h = kids i g" "next_ino h = next_ino g"
  shows "tree_ok m len h"
  using assms(1) unfolding tree_ok_def node_good_def assms(2-5) .

lemma fresh:
  assumes "tree_ok m len g"
  shows "map_of (by_ino g) (next_ino g) = None" "map_of (by_parent_name g) (next_ino g, x) = None"
    "next_ino g \<notin> set (kids p g)" "kids (next_ino g) g = []"
proof -
  show n: "map_of (by_ino g) (next_ino g) = None"
  proof (rule ccontr)
    assume "map_of (by_ino g) (next_ino g) \<noteq> None"
    then obtain n where "map_of (by_ino g) (next_ino g) = Some n" by blast
    from tree_okD(2) [OF assms this] show False by (simp add: node_good_def)
  qed
  then show "next_ino g \<notin> set (kids p g)" using tree_okD(4) [OF assms] by fastforce
  have par: False if k: "map_of (by_ino g) k = Some c" and "nd_parent c = next_ino g" for k c
  proof -
    have "node_good m len g k c" using tree_okD(2) [OF assms k] .
    then show False using that n k by (auto simp: node_good_def split: if_splits)
  qed
  show "map_of (by_parent_name g) (next_ino g, x) = None"
  proof (cases "map_of (by_parent_name g) (next_ino g, x)")
    case (Some k)
    from tree_okD(3) [OF assms this] show ?thesis using par by blast
  qed simp
  show "kids (next_ino g) g = []"
  proof (cases "kids (next_ino g) g")
    case (Cons k ks)
    then have "k \<in> set (kids (next_ino g) g)" by simp
    from tree_okD(4) [OF assms this] show ?thesis using par by blast
  qed
qed

lemma tree_okI:
  assumes "map_of (by_ino g) ROOT_INO \<noteq> None"
    and "\<And>k n. map_of (by_ino g) k = Some n \<Longrightarrow> node_good m len g k n"
    and "\<And>p x k. map_of (by_parent_name g) (p, x) = Some k \<Longrightarrow>
       k \<noteq> ROOT_INO \<and> (\<exists>n. map_of (by_ino g) k = Some n \<and> nd_parent n = p \<and> nd_name n = x)"
    and "\<And>p k. k \<in> set (kids p g) \<Longrightarrow>
       \<exists>n. map_of (by_ino g) k = Some n \<and> nd_parent n = p \<and> map_of (by_parent_name g) (p, nd_name n) = Some k"
    and "\<And>p. distinct (kids p g)"
    and "\<And>d x k. d = ROOT_INO \<or> (\<exists>p. d \<in> set (kids p g)) \<Longrightarrow> map_of (by_parent_name g) (d, x) = Some k \<Longrightarrow> k \<in> set (kids d g)"
  shows "tree_ok m len g"
  unfolding tree_ok_def using assms by (intro conjI allI impI) blast+

lemma node_good_mono:
  assumes "node_good m len g k n" "next_ino g \<le> next_ino h"
    and "\<And>i p. map_of (by_ino g) i = Some p \<Longrightarrow> is_dir p \<Longrightarrow>
      \<exists>p'. map_of (by_ino h) i = Some p' \<and> is_dir p' \<and> nd_full_path p' = nd_full_path p"
  shows "node_good m len h k n"
proof (cases "k = ROOT_INO")
  case True
  with assms(1,2) show ?thesis by (auto simp: node_good_def)
next
  case False
  with assms(1) obtain p where p: "map_of (by_ino g) (nd_parent n) = Some p" "is_dir p"
      "nd_full_path n = path_join (nd_full_path p) (nd_name n)" by (auto simp: node_good_def)
  from assms(3) [OF p(1,2)] obtain p' where "map_of (by_ino h) (nd_parent n) = Some p'" "is_dir p'" "nd_full_path p' = nd_full_path p"
    by blast
  with False assms(1,2) p(3) show ?thesis by (simp add: node_good_def)
qed

lemma add_node_ok:
  assumes t: "tree_ok m len g" and p: "map_of (by_ino g) parent = Some p" "is_dir p"
    and new: "map_of (by_parent_name g) (parent, nd_name n) = None"
    and n: "nd_ino n = next_ino g" "nd_parent n = parent" "component (nd_name n)"
      "nd_full_path n = path_join (nd_full_path p) (nd_name n)"
      "\<And>sz e t. nd_kind n = File sz e t \<Longrightarrow> sz = len (fs_prefix m @ nd_full_path n)"
  shows "tree_ok m len (add_node parent n g) \<and> extends g (add_node parent n g)"
proof -
  let ?h = "add_node parent n g" and ?i = "next_ino g"
  note fr = fresh [OF t]
  have root: "ROOT_INO < ?i" using tree_okD(1,2) [OF t] by (auto simp: node_good_def)
  have par: "parent < ?i" "char_start (nd_full_path p)" using tree_okD(2) [OF t p(1)] by (simp_all add: node_good_def)
  have keep: "map_of (by_ino ?h) k = Some a" if "map_of (by_ino g) k = Some a" for k a
    using that fr(1) n(1) by (auto simp: add_node_effect)
  have nn: "node_good m len ?h ?i n"
    using root par n p keep [OF p(1)] by (auto simp: node_good_def add_node_effect path_join_def component_def char_start_def)
  have "tree_ok m len ?h"
  proof (rule tree_okI)
    show "map_of (by_ino ?h) ROOT_INO \<noteq> None" using tree_okD(1) [OF t] by (simp add: add_node_effect)
    show "node_good m len ?h k a" if a: "map_of (by_ino ?h) k = Some a" for k a
    proof (cases "k = ?i")
      case True with a nn n(1) show ?thesis by (simp add: add_node_effect)
    next
      case False
      with a n(1) have "node_good m len g k a" using tree_okD(2) [OF t] by (simp add: add_node_effect)
      then show ?thesis by (rule node_good_mono) (use keep in \<open>auto simp: add_node_effect(4)\<close>)
    qed
    show "k \<noteq> ROOT_INO \<and> (\<exists>n. map_of (by_ino ?h) k = Some n \<and> nd_parent n = q \<and> nd_name n = x)"
      if a: "map_of (by_parent_name ?h) (q, x) = Some k" for q x k
    proof (cases "(q, x) = (parent, nd_name n)")
      case True with a n root show ?thesis by (auto simp: add_node_effect)
    next
      case False
      with a have "map_of (by_parent_name g) (q, x) = Some k" by (auto simp: add_node_effect)
      from tree_okD(3) [OF t this] keep show ?thesis by blast
    qed
    show "\<exists>a. map_of (by_ino ?h) k = Some a \<and> nd_parent a = q \<and> map_of (by_parent_name ?h) (q, nd_name a) = Some k"
      if a: "k \<in> set (kids q ?h)" for q k
    proof (cases "k = ?i")
      case True
      with a n fr(3) have "q = parent" by (auto simp: add_node_effect split: if_splits)
      with True n show ?thesis by (auto simp: add_node_effect)
    next
      case False
      with a n(1) have "k \<in> set (kids q g)" by (auto simp: add_node_effect split: if_splits)
      from tree_okD(4) [OF t this] obtain a where a: "map_of (by_ino g) k = Some a" "nd_parent a = q"
        "map_of (by_parent_name g) (q, nd_name a) = Some k" by blast
      from a(3) new have "(q, nd_name a) \<noteq> (parent, nd_name n)" by auto
      with a keep show ?thesis by (auto simp: add_node_effect)
    qed
    show "distinct (kids q ?h)" for q using tree_okD(5) [OF t] fr(3) n(1) by (simp add: add_node_effect)
    show "k \<in> set (kids d ?h)" if d: "d = ROOT_INO \<or> (\<exists>q. d \<in> set (kids q ?h))" and a: "map_of (by_parent_name ?h) (d, x) = Some k" for d x k
    proof (cases "(d, x) = (parent, nd_name n)")
      case True with a show ?thesis by (auto simp: add_node_effect)
    next
      case False
      with a have a': "map_of (by_parent_name g) (d, x) = Some k" by (auto simp: add_node_effect)
      with fr(2) have "d \<noteq> ?i" by auto
      with d n(1) have "d = ROOT_INO \<or> (\<exists>q. d \<in> set (kids q g))" by (auto simp: add_node_effect split: if_splits)
      from tree_okD(6) [OF t this a'] show ?thesis by (auto simp: add_node_effect)
    qed
  qed
  moreover have "extends g ?h" unfolding extends_def using keep by blast
  ultimately show ?thesis ..
qed

text \<open>Changing the contents of a node and not its place.\<close>

lemma set_kind_ok:
  assumes t: "tree_ok m len g" and n: "map_of (by_ino g) k = Some n" "is_dir (n\<lparr>nd_kind := K\<rparr>) \<longleftrightarrow> is_dir n"
    and "\<And>sz e t. K = File sz e t \<Longrightarrow> sz = len (fs_prefix m @ nd_full_path n)"
  shows "tree_ok m len (g\<lparr>by_ino := AList.update k (n\<lparr>nd_kind := K\<rparr>) (by_ino g)\<rparr>) \<and>
    extends g (g\<lparr>by_ino := AList.update k (n\<lparr>nd_kind := K\<rparr>) (by_ino g)\<rparr>)"
proof -
  let ?h = "g\<lparr>by_ino := AList.update k (n\<lparr>nd_kind := K\<rparr>) (by_ino g)\<rparr>"
  have keep: "\<exists>a'. map_of (by_ino ?h) i = Some a' \<and> nd_parent a' = nd_parent a \<and> nd_name a' = nd_name a \<and>
      nd_full_path a' = nd_full_path a \<and> (is_dir a' \<longleftrightarrow> is_dir a)" if "map_of (by_ino g) i = Some a" for i a
    using that n by (auto simp: map_of_update)
  have "node_good m len g k (n\<lparr>nd_kind := K\<rparr>)"
    using tree_okD(2) [OF t n(1)] n(2) assms(4) by (auto simp: node_good_def)
  then have good: "node_good m len g i a" if "map_of (by_ino ?h) i = Some a" for i a
    using that tree_okD(2) [OF t] by (auto simp: map_of_update split: if_splits)
  have "tree_ok m len ?h"
  proof (rule tree_okI)
    show "map_of (by_ino ?h) ROOT_INO \<noteq> None" using tree_okD(1) [OF t] by (simp add: map_of_update)
    show "node_good m len ?h i a" if "map_of (by_ino ?h) i = Some a" for i a
      using good [OF that] by (rule node_good_mono) (use keep in auto)
    show "i \<noteq> ROOT_INO \<and> (\<exists>a. map_of (by_ino ?h) i = Some a \<and> nd_parent a = q \<and> nd_name a = x)"
      if a: "map_of (by_parent_name ?h) (q, x) = Some i" for q x i
    proof -
      from a tree_okD(3) [OF t, of q x i] obtain a where a: "i \<noteq> ROOT_INO" "map_of (by_ino g) i = Some a" "nd_parent a = q" "nd_name a = x"
        by auto
      with keep [OF a(2)] show ?thesis by metis
    qed
    show "\<exists>a. map_of (by_ino ?h) i = Some a \<and> nd_parent a = q \<and> map_of (by_parent_name ?h) (q, nd_name a) = Some i"
      if a: "i \<in> set (kids q ?h)" for q i
    proof -
      from a tree_okD(4) [OF t, of i q] obtain a where a: "map_of (by_ino g) i = Some a" "nd_parent a = q"
        "map_of (by_parent_name g) (q, nd_name a) = Some i" by auto
      have "by_parent_name ?h = by_parent_name g" by simp
      with a keep [OF a(1)] show ?thesis by metis
    qed
    show "distinct (kids q ?h)" for q using tree_okD(5) [OF t] by simp
    show "i \<in> set (kids d ?h)" if "d = ROOT_INO \<or> (\<exists>q. d \<in> set (kids q ?h))" "map_of (by_parent_name ?h) (d, x) = Some i" for d x i
      using tree_okD(6) [OF t, of d x i] that by simp
  qed
  moreover have "extends g ?h" unfolding extends_def using keep by blast
  ultimately show ?thesis ..
qed

lemma remove_child_effect:
  assumes "c \<noteq> i"
  shows "by_ino (remove_child i (name, c) g) = by_ino g" "next_ino (remove_child i (name, c) g) = next_ino g"
    "map_of (by_parent_name (remove_child i (name, c) g)) (q, x) =
      (if (q, x) = (i, name) then None else map_of (by_parent_name g) (q, x))"
    "kids j (remove_child i (name, c) g) = (if j = c then [] else if j = i then filter (\<lambda>k. k \<noteq> c) (kids i g) else kids j g)"
  using assms by (auto simp: remove_child_def Let_def kids_def map_of_update map_of_delete split: option.splits)

lemma remove_child_ok:
  assumes t: "tree_ok m len g" and c: "c \<in> set (kids i g)" "map_of (by_ino g) c = Some n" "nd_name n = name"
  shows "tree_ok m len (remove_child i (name, c) g)" "c \<noteq> i"
proof -
  let ?h = "remove_child i (name, c) g"
  from tree_okD(4) [OF t c(1)] c(2,3) have ci: "nd_parent n = i" "map_of (by_parent_name g) (i, name) = Some c" by auto
  have croot: "c \<noteq> ROOT_INO" using tree_okD(3) [OF t ci(2)] by blast
  then show neq: "c \<noteq> i" using tree_okD(2) [OF t c(2)] ci(1) by (auto simp: node_good_def)
  note eff = remove_child_effect [OF neq]
  have alone: "c \<notin> set (kids q ?h)" for q
  proof
    assume "c \<in> set (kids q ?h)"
    then have "c \<in> set (kids q g)" "q \<noteq> i" by (auto simp: eff split: if_splits)
    with tree_okD(4) [OF t this(1)] c(2) ci(1) show False by auto
  qed
  show "tree_ok m len ?h"
  proof (rule tree_okI)
    show "map_of (by_ino ?h) ROOT_INO \<noteq> None" using tree_okD(1) [OF t] by (simp add: eff)
    show "node_good m len ?h k a" if "map_of (by_ino ?h) k = Some a" for k a
      using tree_okD(2) [OF t] that by (simp add: eff node_good_def)
    show "k \<noteq> ROOT_INO \<and> (\<exists>n. map_of (by_ino ?h) k = Some n \<and> nd_parent n = q \<and> nd_name n = x)"
      if a: "map_of (by_parent_name ?h) (q, x) = Some k" for q x k
      using tree_okD(3) [OF t, of q x k] a by (simp add: eff split: if_splits)
    show "\<exists>a. map_of (by_ino ?h) k = Some a \<and> nd_parent a = q \<and> map_of (by_parent_name ?h) (q, nd_name a) = Some k"
      if a: "k \<in> set (kids q ?h)" for q k
    proof -
      have "k \<noteq> c" using a alone by blast
      moreover have "k \<in> set (kids q g)" using a by (auto simp: eff split: if_splits)
      ultimately have k: "k \<in> set (kids q g)" "k \<noteq> c" by simp_all
      from tree_okD(4) [OF t k(1)] obtain a where a: "map_of (by_ino g) k = Some a" "nd_parent a = q"
        "map_of (by_parent_name g) (q, nd_name a) = Some k" by blast
      with k(2) ci(2) have "(q, nd_name a) \<noteq> (i, name)" by auto
      with a show ?thesis by (auto simp: eff)
    qed
    show "distinct (kids q ?h)" for q using tree_okD(5) [OF t] by (simp add: eff)
    show "k \<in> set (kids d ?h)" if d: "d = ROOT_INO \<or> (\<exists>q. d \<in> set (kids q ?h))" and a: "map_of (by_parent_name ?h) (d, x) = Some k" for d x k
    proof -
      have x: "(d, x) \<noteq> (i, name)" and a': "map_of (by_parent_name g) (d, x) = Some k" using a by (auto simp: eff split: if_splits)
      have dc: "d \<noteq> c" using d alone croot by auto
      have "d = ROOT_INO \<or> (\<exists>q. d \<in> set (kids q g))" using d by (auto simp: eff split: if_splits)
      from tree_okD(6) [OF t this a'] have k: "k \<in> set (kids d g)" .
      have "k \<noteq> c" if "d = i"
        using tree_okD(3) [OF t a'] c(2,3) x that by auto
      with k dc show ?thesis by (auto simp: eff)
    qed
  qed
qed

text \<open>Removing several children of one directory.\<close>

lemma remove_children_ok:
  assumes "tree_ok m len g" "distinct (map snd xs)"
    and "\<forall>(name, c) \<in> set xs. c \<in> set (kids i g) \<and> (\<exists>n. map_of (by_ino g) c = Some n \<and> nd_name n = name)"
  shows "tree_ok m len (fold (remove_child i) xs g) \<and> by_ino (fold (remove_child i) xs g) = by_ino g \<and>
    next_ino (fold (remove_child i) xs g) = next_ino g \<and>
    (\<forall>x. map_of (by_parent_name (fold (remove_child i) xs g)) (i, x) =
      (if x \<in> fst ` set xs then None else map_of (by_parent_name g) (i, x))) \<and>
    kids i (fold (remove_child i) xs g) = filter (\<lambda>k. k \<notin> snd ` set xs) (kids i g)"
  using assms
proof (induction xs arbitrary: g)
  case Nil
  then show ?case by simp
next
  case (Cons e xs)
  obtain name c where e: "e = (name, c)" by force
  from Cons.prems(3) e obtain n where n: "c \<in> set (kids i g)" "map_of (by_ino g) c = Some n" "nd_name n = name" by auto
  note rm = remove_child_ok [OF Cons.prems(1) n]
  note eff = remove_child_effect [OF rm(2)]
  let ?h = "remove_child i (name, c) g"
  have k: "kids i ?h = filter (\<lambda>k. k \<noteq> c) (kids i g)" using rm(2) by (simp add: eff)
  have d: "distinct (map snd xs)" using Cons.prems(2) by simp
  have rest: "\<forall>(name, c) \<in> set xs. c \<in> set (kids i ?h) \<and> (\<exists>n. map_of (by_ino ?h) c = Some n \<and> nd_name n = name)"
  proof (intro ballI, clarify)
    fix name' c' assume x: "(name', c') \<in> set xs"
    then have "c' \<noteq> c" using Cons.prems(2) e by (auto simp: rev_image_eqI)
    moreover have "c' \<in> set (kids i g)" "\<exists>n. map_of (by_ino g) c' = Some n \<and> nd_name n = name'" using Cons.prems(3) x by auto
    ultimately show "c' \<in> set (kids i ?h) \<and> (\<exists>n. map_of (by_ino ?h) c' = Some n \<and> nd_name n = name')" unfolding k by (simp add: eff(1))
  qed
  note ih = Cons.IH [OF rm(1) d rest]
  have "fold (remove_child i) (e # xs) g = fold (remove_child i) xs ?h" by (simp add: e)
  moreover have "filter (\<lambda>k. k \<notin> snd ` set xs) (kids i ?h) = filter (\<lambda>k. k \<notin> snd ` set (e # xs)) (kids i g)"
    unfolding k by (auto simp: e filter_filter intro: filter_cong)
  ultimately show ?case using ih by (auto simp: eff e)
qed

section \<open>Names\<close>

lemma strip_prefix_len_eq: "strip_prefix_len m = length (fs_prefix m)"
  by (simp add: strip_prefix_len_def fs_prefix_def)

lemma str_get_prefix: "char_start r \<Longrightarrow> str_get (length p) (p @ r) = Some r"
  by (cases r) (auto simp: str_get_def char_start_def)

lemma dir_prefix_join: "dir_prefix m n @ x = fs_prefix m @ path_join (nd_full_path n) x"
  by (simp add: dir_prefix_def path_join_def)

lemma lookup_candidate_join: "lookup_candidate m n x = fs_prefix m @ path_join (nd_full_path n) x"
  by (simp add: lookup_candidate_def path_join_def)

lemma trim_end_no_slash: "CHR ''/'' \<notin> set x \<Longrightarrow> trim_end_matches CHR ''/'' (p @ x @ ''/'') = (if x = [] then trim_end_matches CHR ''/'' p else p @ x)"
  by (cases x rule: rev_cases) (auto simp: trim_end_matches_def)

lemma relative_prefix [simp]: "relative p (p @ r) = r"
  by (simp add: relative_def strip_prefix_def)

lemma char_start_join:
  assumes "tree_ok m len g" "map_of (by_ino g) k = Some p" "component x"
  shows "char_start (path_join (nd_full_path p) x)"
  using tree_okD(2) [OF assms(1,2)] assms(3) by (auto simp: node_good_def path_join_def component_def char_start_def)

section \<open>Applying a listing\<close>

text \<open>What adding entries named in \<open>N\<close> (at most \<open>c\<close> of them) below directory \<open>i\<close> does to the names seen and
  to the table.\<close>

definition grown ::
  "mount_config \<Rightarrow> (string \<Rightarrow> nat) \<Rightarrow> nat \<Rightarrow> string set \<Rightarrow> nat \<Rightarrow> string list \<times> fs_inner \<Rightarrow> string list \<times> fs_inner \<Rightarrow> bool"
where
  "grown m len i N c a b \<longleftrightarrow>
     (tree_ok m len (snd a) \<longrightarrow> tree_ok m len (snd b)) \<and> extends (snd a) (snd b) \<and>
     (\<forall>q. set (kids q (snd a)) \<subseteq> set (kids q (snd b))) \<and>
     (\<forall>x. map_of (by_parent_name (snd a)) (i, x) \<noteq> None \<or> x \<in> set (fst b) - set (fst a) \<longrightarrow>
        map_of (by_parent_name (snd b)) (i, x) \<noteq> None) \<and>
     length (kids i (snd b)) \<le> max MAX_CHILDREN_PER_DIR (length (kids i (snd a))) \<and>
     set (fst a) \<subseteq> set (fst b) \<and> set (fst b) \<subseteq> set (fst a) \<union> N \<and>
     (length (kids i (snd a)) + c \<le> MAX_CHILDREN_PER_DIR \<longrightarrow>
        N \<subseteq> set (fst b) \<and> length (kids i (snd b)) \<le> length (kids i (snd a)) + c)"

lemma grown_refl: "grown m len i {} c a a"
  by (simp add: grown_def extends_refl)

lemma grown_trans:
  assumes "grown m len i N c a b" "grown m len i N' c' b b'"
  shows "grown m len i (N \<union> N') (c + c') a b'"
proof -
  note g = assms [unfolded grown_def]
  have "extends (snd a) (snd b')" using g extends_trans by blast
  moreover have "set (kids q (snd a)) \<subseteq> set (kids q (snd b'))" for q using g by blast
  moreover have "map_of (by_parent_name (snd b')) (i, x) \<noteq> None"
    if "map_of (by_parent_name (snd a)) (i, x) \<noteq> None \<or> x \<in> set (fst b') - set (fst a)" for x
    using g that by (metis DiffI DiffD1 DiffD2)
  moreover have "length (kids i (snd b')) \<le> max MAX_CHILDREN_PER_DIR (length (kids i (snd a)))" using g by linarith
  moreover have "set (fst a) \<subseteq> set (fst b')" "set (fst b') \<subseteq> set (fst a) \<union> (N \<union> N')" using g by blast+
  moreover have "N \<union> N' \<subseteq> set (fst b') \<and> length (kids i (snd b')) \<le> length (kids i (snd a)) + (c + c')"
    if "length (kids i (snd a)) + (c + c') \<le> MAX_CHILDREN_PER_DIR"
  proof -
    have 1: "N \<subseteq> set (fst b)" "length (kids i (snd b)) \<le> length (kids i (snd a)) + c" using g that by linarith+
    then have "length (kids i (snd b)) + c' \<le> MAX_CHILDREN_PER_DIR" using that by linarith
    then have "N' \<subseteq> set (fst b')" "length (kids i (snd b')) \<le> length (kids i (snd b)) + c'" using g by blast+
    with 1 show ?thesis using g by auto
  qed
  ultimately show ?thesis unfolding grown_def using g by blast
qed

text \<open>One entry that is added or already there.\<close>

definition upserted :: "mount_config \<Rightarrow> (string \<Rightarrow> nat) \<Rightarrow> nat \<Rightarrow> string \<Rightarrow> fs_inner \<Rightarrow> fs_inner \<Rightarrow> bool" where
  "upserted m len i x g h \<longleftrightarrow>
     tree_ok m len h \<and> extends g h \<and> map_of (by_parent_name h) (i, x) \<noteq> None \<and>
     (\<forall>y. y \<noteq> x \<longrightarrow> map_of (by_parent_name h) (i, y) = map_of (by_parent_name g) (i, y)) \<and>
     (\<forall>q. set (kids q g) \<subseteq> set (kids q h)) \<and>
     length (kids i h) \<le> length (kids i g) + (if map_of (by_parent_name g) (i, x) = None then 1 else 0)"

lemma upserted_grown:
  assumes "upserted m len i x g h" "\<not> over_cap i x g"
  shows "grown m len i {x} 1 (seen, g) (x # seen, h)"
proof -
  note u = assms(1) [unfolded upserted_def]
  have "map_of (by_parent_name h) (i, y) \<noteq> None" if "map_of (by_parent_name g) (i, y) \<noteq> None \<or> y \<in> set (x # seen) - set seen" for y
    using u that by (cases "y = x") auto
  moreover have "length (kids i h) \<le> max MAX_CHILDREN_PER_DIR (length (kids i g))"
    using u assms(2) by (auto simp: over_cap_def split: if_splits)
  moreover have "length (kids i h) \<le> length (kids i g) + 1" using u by (auto split: if_splits)
  ultimately show ?thesis unfolding grown_def using u by auto
qed

lemma capped_grown: "over_cap i x g \<Longrightarrow> grown m len i {x} 1 (seen, g) (seen, g)"
  by (auto simp: grown_def extends_refl over_cap_def)

lemma upsert_dir_ok:
  assumes t: "tree_ok m len g" and p: "map_of (by_ino g) i = Some p" "is_dir p" and x: "component x"
  shows "upserted m len i x g (upsert_dir m i x (dir_prefix m p @ x @ ''/'') g)"
proof (cases "map_of (by_parent_name g) (i, x)")
  case (Some k)
  then show ?thesis using t by (simp add: upserted_def upsert_dir_def extends_refl)
next
  case None
  let ?n = "\<lparr>nd_ino = next_ino g, nd_parent = i, nd_name = x, nd_full_path = path_join (nd_full_path p) x, nd_kind = Dir False\<rparr>"
  let ?h = "add_node i ?n g"
  have x': "x \<noteq> []" "CHR ''/'' \<notin> set x" using x by (auto simp: component_def)
  have "trim_end_matches CHR ''/'' (dir_prefix m p @ x @ ''/'') = fs_prefix m @ path_join (nd_full_path p) x"
    unfolding dir_prefix_join [symmetric] using trim_end_no_slash [OF x'(2), of "dir_prefix m p"] x'(1) by simp
  then have path: "str_get (strip_prefix_len m) (trim_end_matches CHR ''/'' (dir_prefix m p @ x @ ''/'')) = Some (path_join (nd_full_path p) x)"
    by (simp add: strip_prefix_len_eq str_get_prefix char_start_join [OF t p(1) x])
  let ?h' = "?h\<lparr>children := AList.update (next_ino g) (kids (next_ino g) ?h) (children ?h)\<rparr>"
  have u: "upsert_dir m i x (dir_prefix m p @ x @ ''/'') g = ?h'" unfolding upsert_dir_def path None option.case Let_def by simp
  have ok: "tree_ok m len ?h \<and> extends g ?h" by (rule add_node_ok [OF t p]) (simp_all add: None x)
  have same: "kids j ?h' = kids j ?h" "by_ino ?h' = by_ino ?h" "by_parent_name ?h' = by_parent_name ?h" "next_ino ?h' = next_ino ?h" for j by simp_all
  have "tree_ok m len ?h'" by (rule tree_ok_cong [OF conjunct1 [OF ok]]) (simp_all only: same)
  moreover have "extends g ?h'" using ok unfolding extends_def same by blast
  ultimately show ?thesis unfolding u upserted_def same by (auto simp: add_node_effect None)
qed

lemma upsert_file_ok:
  assumes t: "tree_ok m len g" and p: "map_of (by_ino g) i = Some p" "is_dir p" and x: "component x"
    and "sz = len (dir_prefix m p @ x)"
  shows "upserted m len i x g (upsert_file m i x (dir_prefix m p @ x) sz etag mtime g)"
proof (cases "map_of (by_parent_name g) (i, x)")
  case (Some k)
  with tree_okD(3) [OF t this] obtain n where n: "k \<noteq> ROOT_INO" "map_of (by_ino g) k = Some n" "nd_parent n = i" "nd_name n = x" by blast
  show ?thesis
  proof (cases "nd_kind n")
    case (Dir l)
    with Some n t show ?thesis by (simp add: upserted_def upsert_file_def extends_refl)
  next
    case (File s e mt)
    have "nd_full_path n = path_join (nd_full_path p) x" using tree_okD(2) [OF t n(2)] n p(1) by (simp add: node_good_def)
    then have "sz = len (fs_prefix m @ nd_full_path n)" using assms(5) by (simp add: dir_prefix_join)
    then have ok: "tree_ok m len (g\<lparr>by_ino := AList.update k (n\<lparr>nd_kind := node_kind.File sz etag mtime\<rparr>) (by_ino g)\<rparr>) \<and>
        extends g (g\<lparr>by_ino := AList.update k (n\<lparr>nd_kind := node_kind.File sz etag mtime\<rparr>) (by_ino g)\<rparr>)"
      by (intro set_kind_ok [OF t n(2)]) (simp_all add: is_dir_def File)
    have u: "upsert_file m i x (dir_prefix m p @ x) sz etag mtime g = g\<lparr>by_ino := AList.update k (n\<lparr>nd_kind := node_kind.File sz etag mtime\<rparr>) (by_ino g)\<rparr>"
      by (simp add: upsert_file_def Some n(2) File)
    show ?thesis unfolding u upserted_def using ok by (simp add: Some)
  qed
next
  case None
  let ?n = "\<lparr>nd_ino = next_ino g, nd_parent = i, nd_name = x, nd_full_path = path_join (nd_full_path p) x, nd_kind = node_kind.File sz etag mtime\<rparr>"
  have "str_get (strip_prefix_len m) (dir_prefix m p @ x) = Some (path_join (nd_full_path p) x)"
    by (simp add: strip_prefix_len_eq dir_prefix_join str_get_prefix char_start_join [OF t p(1) x])
  then have u: "upsert_file m i x (dir_prefix m p @ x) sz etag mtime g = add_node i ?n g" by (simp add: upsert_file_def None Let_def)
  have ok: "tree_ok m len (add_node i ?n g) \<and> extends g (add_node i ?n g)"
    by (rule add_node_ok [OF t p]) (simp_all add: None x assms(5) dir_prefix_join)
  show ?thesis unfolding u upserted_def using ok by (auto simp: add_node_effect None)
qed

text \<open>What the service answers for a prefix: common prefixes one component below it and blobs below it, with
  their lengths; and the names such an answer puts into a directory.\<close>

definition listing_honest :: "(string \<Rightarrow> nat) \<Rightarrow> string \<Rightarrow> listed_blob list \<Rightarrow> string list \<Rightarrow> bool" where
  "listing_honest len strip blobs pfxs \<longleftrightarrow>
     (\<forall>p \<in> set pfxs. \<exists>x. p = strip @ x @ ''/'' \<and> CHR ''/'' \<notin> set x \<and> char_start x) \<and>
     (\<forall>b \<in> set blobs. (\<exists>x. lb_name b = strip @ x \<and> char_start x) \<and> lb_content_length b = len (lb_name b))"

definition prefix_names :: "string \<Rightarrow> string list \<Rightarrow> string set" where
  "prefix_names strip pfxs = {x. x \<noteq> [] \<and> strip @ x @ ''/'' \<in> set pfxs}"

definition blob_names :: "string \<Rightarrow> listed_blob list \<Rightarrow> string set" where
  "blob_names strip blobs = {x. x \<noteq> [] \<and> CHR ''/'' \<notin> set x \<and> strip @ x \<in> lb_name ` set blobs}"

lemma apply_prefixes_grown:
  assumes "tree_ok m len (snd a)" "map_of (by_ino (snd a)) i = Some p" "is_dir p"
    and "listing_honest len (dir_prefix m p) [] ps"
  shows "grown m len i (prefix_names (dir_prefix m p) ps) (length ps) a (apply_prefixes m i (dir_prefix m p) ps a)"
  using assms
proof (induction ps arbitrary: a p)
  case Nil
  then show ?case by (simp add: prefix_names_def grown_refl)
next
  case (Cons q ps)
  let ?s = "dir_prefix m p"
  obtain seen g where a: "a = (seen, g)" by force
  from Cons.prems(4) obtain x where x: "q = ?s @ x @ ''/''" "CHR ''/'' \<notin> set x" "char_start x" by (auto simp: listing_honest_def)
  let ?b = "if x = [] \<or> over_cap i x g then (seen, g) else (x # seen, upsert_dir m i x q g)"
  have rel: "trim_end_matches CHR ''/'' (relative ?s q) = x"
    using trim_end_no_slash [OF x(2), of "[]"] x(1) by (simp add: trim_end_matches_def)
  have run: "apply_prefixes m i ?s (q # ps) a = apply_prefixes m i ?s ps ?b" unfolding a by (simp add: rel Let_def)
  have step: "grown m len i (prefix_names ?s [q]) 1 a ?b"
  proof (cases "x = []")
    case True
    then have "prefix_names ?s [q] = {}" using x(1) by (auto simp: prefix_names_def)
    then show ?thesis using True a grown_refl by simp
  next
    case False
    have "prefix_names ?s [q] = {x}" using x(1) False by (auto simp: prefix_names_def)
    moreover have "component x" using x False by (simp add: component_def)
    ultimately show ?thesis
      using False capped_grown upserted_grown [OF upsert_dir_ok] Cons.prems(1-3) unfolding a x(1) by simp
  qed
  have b: "tree_ok m len (snd ?b)" "extends (snd a) (snd ?b)" using step Cons.prems(1) unfolding grown_def by blast+
  from extendsD [OF b(2) Cons.prems(2)] obtain p' where p': "map_of (by_ino (snd ?b)) i = Some p'" "nd_full_path p' = nd_full_path p" "is_dir p'"
    using Cons.prems(3) by metis
  have s: "dir_prefix m p' = ?s" by (simp add: dir_prefix_def p'(2))
  have "listing_honest len (dir_prefix m p') [] ps" using Cons.prems(4) unfolding s by (simp add: listing_honest_def)
  from grown_trans [OF step Cons.IH [OF b(1) p'(1,3) this, unfolded s]]
  have "grown m len i (prefix_names ?s [q] \<union> prefix_names ?s ps) (1 + length ps) a (apply_prefixes m i ?s (q # ps) a)" unfolding run .
  moreover have "prefix_names ?s [q] \<union> prefix_names ?s ps = prefix_names ?s (q # ps)" by (auto simp: prefix_names_def)
  ultimately show ?case by simp
qed

lemma apply_blobs_grown:
  assumes "tree_ok m len (snd a)" "map_of (by_ino (snd a)) i = Some p" "is_dir p"
    and "listing_honest len (dir_prefix m p) bs []"
  shows "grown m len i (blob_names (dir_prefix m p) bs) (length bs) a (apply_blobs m i (dir_prefix m p) mtime bs a)"
  using assms
proof (induction bs arbitrary: a p)
  case Nil
  then show ?case by (simp add: blob_names_def grown_refl)
next
  case (Cons b bs)
  let ?s = "dir_prefix m p"
  obtain seen g where a: "a = (seen, g)" by force
  from Cons.prems(4) obtain x where x: "lb_name b = ?s @ x" "char_start x" "lb_content_length b = len (?s @ x)"
    by (auto simp: listing_honest_def)
  let ?b = "if x = [] \<or> CHR ''/'' \<in> set x \<or> over_cap i x g then (seen, g)
    else (x # seen, upsert_file m i x (lb_name b) (lb_content_length b) (lb_etag b) (mtime (length bs)) g)"
  have run: "apply_blobs m i ?s mtime (b # bs) a = apply_blobs m i ?s mtime bs ?b" unfolding a by (simp add: x(1) Let_def)
  have step: "grown m len i (blob_names ?s [b]) 1 a ?b"
  proof (cases "x = [] \<or> CHR ''/'' \<in> set x")
    case True
    then have "blob_names ?s [b] = {}" using x(1) by (auto simp: blob_names_def)
    then show ?thesis using True a grown_refl by auto
  next
    case False
    have "blob_names ?s [b] = {x}" using x(1) False by (auto simp: blob_names_def)
    moreover have "component x" using x False by (simp add: component_def)
    then have "upserted m len i x g (upsert_file m i x (lb_name b) (lb_content_length b) (lb_etag b) (mtime (length bs)) g)"
      using Cons.prems(1-3) x(3) unfolding a x(1) by (intro upsert_file_ok) simp_all
    ultimately show ?thesis using False capped_grown upserted_grown unfolding a by simp
  qed
  have b: "tree_ok m len (snd ?b)" "extends (snd a) (snd ?b)" using step Cons.prems(1) unfolding grown_def by blast+
  from extendsD [OF b(2) Cons.prems(2)] obtain p' where p': "map_of (by_ino (snd ?b)) i = Some p'" "nd_full_path p' = nd_full_path p" "is_dir p'"
    using Cons.prems(3) by metis
  have s: "dir_prefix m p' = ?s" by (simp add: dir_prefix_def p'(2))
  have "listing_honest len (dir_prefix m p') bs []" using Cons.prems(4) unfolding s by (simp add: listing_honest_def)
  from grown_trans [OF step Cons.IH [OF b(1) p'(1,3) this, unfolded s]]
  have "grown m len i (blob_names ?s [b] \<union> blob_names ?s bs) (1 + length bs) a (apply_blobs m i ?s mtime (b # bs) a)" unfolding run .
  moreover have "blob_names ?s [b] \<union> blob_names ?s bs = blob_names ?s (b # bs)" by (auto simp: blob_names_def)
  ultimately show ?case by simp
qed

lemma mark_loaded_ok:
  assumes "tree_ok m len g"
  shows "tree_ok m len (mark_loaded i g) \<and> extends g (mark_loaded i g)"
    "by_parent_name (mark_loaded i g) = by_parent_name g" "kids q (mark_loaded i g) = kids q g"
proof -
  show "tree_ok m len (mark_loaded i g) \<and> extends g (mark_loaded i g)"
    using set_kind_ok [OF assms] assms extends_refl
    by (auto simp: mark_loaded_def is_dir_def split: option.splits node_kind.splits)
qed (auto simp: mark_loaded_def split: option.splits node_kind.splits)

definition node_of :: "fs_inner \<Rightarrow> nat \<Rightarrow> node" where
  "node_of g k = the (map_of (by_ino g) k)"

lemma map_filter_nodes:
  assumes "tree_ok m len g"
  shows "List.map_filter (\<lambda>k. map_option (f k) (map_of (by_ino g) k)) (kids i g) = map (\<lambda>k. f k (node_of g k)) (kids i g)"
proof -
  have "List.map_filter (\<lambda>k. map_option (f k) (map_of (by_ino g) k)) ks = map (\<lambda>k. f k (node_of g k)) ks" if "set ks \<subseteq> set (kids i g)" for ks
    using that
  proof (induction ks)
    case (Cons k ks)
    with tree_okD(4) [OF assms, of k i] show ?case by (auto simp: node_of_def)
  qed simp
  then show ?thesis by blast
qed

lemma kid_node:
  assumes "tree_ok m len g" "k \<in> set (kids i g)"
  shows "map_of (by_ino g) k = Some (node_of g k)" "map_of (by_parent_name g) (i, nd_name (node_of g k)) = Some k"
  using tree_okD(4) [OF assms] by (auto simp: node_of_def)

lemma stale_eq:
  assumes "tree_ok m len g"
  shows "stale i seen g = map (\<lambda>k. (nd_name (node_of g k), k)) (filter (\<lambda>k. nd_name (node_of g k) \<notin> set seen) (kids i g))"
  unfolding stale_def map_filter_nodes [OF assms] filter_map by (simp add: comp_def)

text \<open>The names of the children of a directory that is still in the tree are those found by name.\<close>

definition live :: "nat \<Rightarrow> fs_inner \<Rightarrow> bool" where
  "live i g \<longleftrightarrow> i = ROOT_INO \<or> (\<exists>p. i \<in> set (kids p g))"

lemma live_names:
  assumes "tree_ok m len g" "live i g"
  shows "map_of (by_parent_name g) (i, x) \<noteq> None \<longleftrightarrow> x \<in> (\<lambda>k. nd_name (node_of g k)) ` set (kids i g)"
proof
  assume "map_of (by_parent_name g) (i, x) \<noteq> None"
  then obtain k where k: "map_of (by_parent_name g) (i, x) = Some k" by blast
  have "k \<in> set (kids i g)" using tree_okD(6) [OF assms(1) assms(2) [unfolded live_def] k] .
  moreover have "nd_name (node_of g k) = x" using tree_okD(3) [OF assms(1) k] by (auto simp: node_of_def)
  ultimately show "x \<in> (\<lambda>k. nd_name (node_of g k)) ` set (kids i g)" by blast
next
  assume "x \<in> (\<lambda>k. nd_name (node_of g k)) ` set (kids i g)"
  then show "map_of (by_parent_name g) (i, x) \<noteq> None" using kid_node [OF assms(1)] by auto
qed

lemma apply_listing_ok:
  fixes mtime :: "nat \<Rightarrow> nat"
  assumes t: "tree_ok m len g" and p: "map_of (by_ino g) i = Some p" "is_dir p"
    and honest: "listing_honest len (dir_prefix m p) blobs pfxs"
  defines "h \<equiv> apply_listing m i (dir_prefix m p) mtime blobs pfxs g"
    and "N \<equiv> prefix_names (dir_prefix m p) pfxs \<union> blob_names (dir_prefix m p) blobs"
  shows "tree_ok m len h" "extends g h" "length (kids i h) \<le> max MAX_CHILDREN_PER_DIR (length (kids i g))"
    and "(\<lambda>k. nd_name (node_of h k)) ` set (kids i h) \<subseteq> N"
    and "live i g \<Longrightarrow> length (kids i g) + length pfxs + length blobs \<le> MAX_CHILDREN_PER_DIR \<Longrightarrow>
      map_of (by_parent_name h) (i, x) \<noteq> None \<longleftrightarrow> x \<in> N"
    and "live i g \<Longrightarrow> length (kids i g) + length pfxs + length blobs \<le> MAX_CHILDREN_PER_DIR \<Longrightarrow>
      (\<lambda>k. nd_name (node_of h k)) ` set (kids i h) = N"
proof -
  let ?s = "dir_prefix m p" and ?mid = "apply_prefixes m i (dir_prefix m p) pfxs ([], g)"
  have hp: "listing_honest len ?s [] pfxs" and hb: "listing_honest len ?s blobs []" using honest by (auto simp: listing_honest_def)
  have g1: "grown m len i (prefix_names ?s pfxs) (length pfxs) ([], g) ?mid"
    by (rule apply_prefixes_grown [OF _ _ p(2) hp]) (simp_all add: t p(1))
  then have t1: "tree_ok m len (snd ?mid)" and e1: "extends g (snd ?mid)" using t unfolding grown_def by auto
  from extendsD [OF e1 p(1)] obtain p' where p': "map_of (by_ino (snd ?mid)) i = Some p'" "nd_full_path p' = nd_full_path p" "is_dir p'"
    using p(2) by metis
  have s: "dir_prefix m p' = ?s" by (simp add: dir_prefix_def p'(2))
  obtain seen g2 where b: "apply_blobs m i ?s mtime blobs ?mid = (seen, g2)" by force
  have "grown m len i (blob_names ?s blobs) (length blobs) ?mid (seen, g2)"
    using apply_blobs_grown [OF t1 p'(1,3), of blobs mtime] hb unfolding s b by blast
  from grown_trans [OF g1 this] have gr: "grown m len i N (length pfxs + length blobs) ([], g) (seen, g2)" unfolding N_def .
  then have t2: "tree_ok m len g2" and e2: "extends g g2" and k2: "length (kids i g2) \<le> max MAX_CHILDREN_PER_DIR (length (kids i g))"
    and seen: "set seen \<subseteq> N" "\<And>x. x \<in> set seen \<Longrightarrow> map_of (by_parent_name g2) (i, x) \<noteq> None"
    and mono: "\<And>q. set (kids q g) \<subseteq> set (kids q g2)"
    and full: "length (kids i g) + length pfxs + length blobs \<le> MAX_CHILDREN_PER_DIR \<Longrightarrow> N \<subseteq> set seen"
    using t unfolding grown_def by (simp_all add: add.assoc)
  let ?gone = "stale i seen g2" and ?h = "fold (remove_child i) (stale i seen g2) g2"
  have dist: "distinct (map snd ?gone)" unfolding stale_eq [OF t2] using tree_okD(5) [OF t2] by (simp add: comp_def)
  have mem: "\<forall>(name, c) \<in> set ?gone. c \<in> set (kids i g2) \<and> (\<exists>n. map_of (by_ino g2) c = Some n \<and> nd_name n = name)"
    unfolding stale_eq [OF t2] using kid_node(1) [OF t2] by auto
  note rm = remove_children_ok [OF t2 dist mem]
  have h: "h = mark_loaded i ?h" unfolding h_def apply_listing_def b by simp
  have t3: "tree_ok m len ?h" and bi: "by_ino ?h = by_ino g2" and e3: "extends g2 ?h" using rm by (simp_all add: extends_def)
  note ml = mark_loaded_ok [OF t3, of i]
  show th: "tree_ok m len h" unfolding h using ml(1) by blast
  show "extends g h" unfolding h using extends_trans [OF extends_trans [OF e2 e3]] ml(1) by blast
  have kids_h: "kids i h = filter (\<lambda>k. nd_name (node_of g2 k) \<in> set seen) (kids i g2)"
  proof -
    have "kids i h = filter (\<lambda>k. k \<notin> snd ` set ?gone) (kids i g2)" unfolding h ml(3) using rm by (elim conjE)
    then show ?thesis unfolding stale_eq [OF t2] by (auto simp: image_image intro!: filter_cong)
  qed
  show "length (kids i h) \<le> max MAX_CHILDREN_PER_DIR (length (kids i g))"
    unfolding kids_h using k2 length_filter_le [of "\<lambda>k. nd_name (node_of g2 k) \<in> set seen" "kids i g2"] by linarith
  have names: "nd_name (node_of h k) = nd_name (node_of g2 k)" if "k \<in> set (kids i g2)" for k
  proof -
    have "map_of (by_ino ?h) k = Some (node_of g2 k)" using kid_node(1) [OF t2 that] by (simp add: bi)
    from extendsD [OF conjunct2 [OF ml(1)] this] obtain n' where "map_of (by_ino (mark_loaded i ?h)) k = Some n'"
      "nd_name n' = nd_name (node_of g2 k)" .
    then show ?thesis unfolding h node_of_def by simp
  qed
  show "(\<lambda>k. nd_name (node_of h k)) ` set (kids i h) \<subseteq> N" unfolding kids_h using names seen(1) by auto
  show "(\<lambda>k. nd_name (node_of h k)) ` set (kids i h) = N"
    if "live i g" "length (kids i g) + length pfxs + length blobs \<le> MAX_CHILDREN_PER_DIR"
  proof
    show "N \<subseteq> (\<lambda>k. nd_name (node_of h k)) ` set (kids i h)"
    proof
      fix x assume "x \<in> N"
      then have x: "x \<in> set seen" using full [OF that(2)] by blast
      have "live i g2" using that(1) mono unfolding live_def by blast
      from live_names [OF t2 this, of x] seen(2) [OF x] obtain k where "k \<in> set (kids i g2)" "nd_name (node_of g2 k) = x" by auto
      with x names show "x \<in> (\<lambda>k. nd_name (node_of h k)) ` set (kids i h)" unfolding kids_h by force
    qed
  qed fact
  show "map_of (by_parent_name h) (i, x) \<noteq> None \<longleftrightarrow> x \<in> N"
    if l: "live i g" and "length (kids i g) + length pfxs + length blobs \<le> MAX_CHILDREN_PER_DIR"
  proof -
    have eq: "set seen = N" using full [OF that(2)] seen(1) by blast
    have l2: "live i g2" using l mono unfolding live_def by blast
    have "map_of (by_parent_name h) (i, x) = (if x \<in> fst ` set ?gone then None else map_of (by_parent_name g2) (i, x))"
      unfolding h ml(2) using rm by blast
    moreover have "x \<in> fst ` set ?gone \<longleftrightarrow> x \<notin> set seen \<and> map_of (by_parent_name g2) (i, x) \<noteq> None"
      unfolding stale_eq [OF t2] live_names [OF t2 l2] by (auto simp: image_image)
    ultimately show ?thesis using seen(2) [of x] unfolding eq by auto
  qed
qed

section \<open>Operations\<close>

text \<open>Other requests keep the invariant and never take nodes back, listings and HEAD answers are truthful.\<close>

definition fuse_env_ok :: "fuse_env \<Rightarrow> mount_config \<Rightarrow> (string \<Rightarrow> nat) \<Rightarrow> bool" where
  "fuse_env_ok env m len \<longleftrightarrow>
     (\<forall>t g. tree_ok m len g \<longrightarrow> tree_ok m len (fu_others env t g) \<and> extends g (fu_others env t g)) \<and>
     (\<forall>t pf blobs pfxs. fu_list env t pf = Inr (blobs, pfxs) \<longrightarrow>
        listing_honest len (case pf of None \<Rightarrow> [] | Some p \<Rightarrow> p) blobs pfxs) \<and>
     (\<forall>t name info. fu_head env t name = Inr info \<longrightarrow> bi_content_length info = len name)"

definition fs_ok :: "mount_config \<Rightarrow> (string \<Rightarrow> nat) \<Rightarrow> blob_fs \<Rightarrow> bool" where
  "fs_ok m len fs \<longleftrightarrow> fs_mount fs = m \<and> tree_ok m len (fs_inner_of fs)"

definition fs_later :: "mount_config \<Rightarrow> (string \<Rightarrow> nat) \<Rightarrow> blob_fs \<Rightarrow> blob_fs \<Rightarrow> bool" where
  "fs_later m len fs fs' \<longleftrightarrow> fs_ok m len fs' \<and> extends (fs_inner_of fs) (fs_inner_of fs')"

lemma fs_later_trans: "fs_later m len a b \<Longrightarrow> fs_later m len b c \<Longrightarrow> fs_later m len a c"
  unfolding fs_later_def using extends_trans by blast

lemma fs_await_later: "fuse_env_ok env m len \<Longrightarrow> fs_ok m len fs \<Longrightarrow> fs_later m len fs (fs_await env fs)"
  by (simp add: fuse_env_ok_def fs_ok_def fs_later_def fs_await_def)

lemma fs_new_ok: "fs_ok m len (fs_new m)"
  unfolding fs_ok_def
proof
  show "fs_mount (fs_new m) = m" by (simp add: fs_new_def)
  show "tree_ok m len (fs_inner_of (fs_new m))"
    by (rule tree_okI) (auto simp: fs_new_def node_good_def is_dir_def char_start_def kids_def ROOT_INO_def split: if_splits)
qed

lemma ensure_dir_listed_ok:
  assumes env: "fuse_env_ok env m len" and ok: "fs_ok m len fs" and run: "ensure_dir_listed env i fs = (r, fs')"
  shows "fs_later m len fs fs'" "r = Inr () \<Longrightarrow> \<exists>n. map_of (by_ino (fs_inner_of fs')) i = Some n \<and> is_dir n"
proof -
  let ?f1 = "fs_await env fs"
  let ?f2 = "fs_await env ?f1"
  let ?f3 = "fs_await env ?f2"
  have l1: "fs_later m len fs ?f1" by (rule fs_await_later [OF env ok])
  then have l2: "fs_later m len ?f1 ?f2" using fs_await_later [OF env] unfolding fs_later_def by blast
  then have l3: "fs_later m len ?f2 ?f3" using fs_await_later [OF env] unfolding fs_later_def by blast
  note l12 = fs_later_trans [OF l1 l2]
  note l13 = fs_later_trans [OF l12 l3]
  have goal: "fs_later m len fs fs' \<and> (r = Inr () \<longrightarrow> (\<exists>n. map_of (by_ino (fs_inner_of fs')) i = Some n \<and> is_dir n))"
  proof (cases "need_load env i ?f1")
    case (Inl e)
    then show ?thesis using run l1 unfolding ensure_dir_listed_def by auto
  next
    case (Inr need)
    then obtain n where n: "map_of (by_ino (fs_inner_of ?f1)) i = Some n" "is_dir n"
      unfolding need_load_def is_dir_def by (auto split: option.splits node_kind.splits)
    show ?thesis
    proof (cases need)
      case False
      with Inr n l1 show ?thesis using run unfolding ensure_dir_listed_def by auto
    next
      case True
      from extendsD [OF _ n(1), of "fs_inner_of ?f2"] l2 n(2) obtain n2 where n2: "map_of (by_ino (fs_inner_of ?f2)) i = Some n2" "is_dir n2"
        unfolding fs_later_def by metis
      have need: "need_load env i ?f1 = Inr True" using Inr True by simp
      let ?p = "dir_prefix m n2"
      have m: "fs_mount ?f2 = m" "fs_mount ?f3 = m" using l2 l3 by (auto simp: fs_later_def fs_ok_def)
      show ?thesis
      proof (cases "fu_list env (fs_clock ?f2) (if ?p = [] then None else Some ?p)")
        case (Inl e)
        then show ?thesis using run l13 unfolding ensure_dir_listed_def Let_def need sum.case bool.case n2(1) option.case m(1) by auto
      next
        case I: (Inr lst)
        obtain blobs pfxs where lst: "lst = (blobs, pfxs)" by force
        from extendsD [OF _ n2(1), of "fs_inner_of ?f3"] l3 n2(2) obtain n3
          where n3: "map_of (by_ino (fs_inner_of ?f3)) i = Some n3" "is_dir n3" "nd_full_path n3 = nd_full_path n2"
          unfolding fs_later_def by metis
        have p3: "dir_prefix m n3 = ?p" by (simp add: dir_prefix_def n3(3))
        have hon: "listing_honest len (dir_prefix m n3) blobs pfxs"
          using env I lst unfolding fuse_env_ok_def p3 by (cases "?p = []") fastforce+
        let ?g = "apply_listing m i ?p (fu_system_time env (fs_clock ?f3)) blobs pfxs (fs_inner_of ?f3)"
        have t3: "tree_ok m len (fs_inner_of ?f3)" using l3 by (simp add: fs_later_def fs_ok_def)
        note ap = apply_listing_ok [OF t3 n3(1,2) hon, unfolded p3]
        have run': "r = Inr ()" "fs_inner_of fs' = ?g" "fs_mount fs' = m"
          using run I lst m(2) unfolding ensure_dir_listed_def Let_def need sum.case bool.case n2(1) option.case m(1) by auto
        from extendsD [OF ap(2) n3(1)] obtain n4 where "map_of (by_ino ?g) i = Some n4" "is_dir n4 \<longleftrightarrow> is_dir n3" .
        then have "\<exists>n. map_of (by_ino ?g) i = Some n \<and> is_dir n" using n3(2) by blast
        moreover have "fs_later m len ?f3 fs'" unfolding fs_later_def fs_ok_def run' using ap(1,2) by blast
        ultimately show ?thesis using run' fs_later_trans [OF l13] by simp
      qed
    qed
  qed
  then show "fs_later m len fs fs'" "r = Inr () \<Longrightarrow> \<exists>n. map_of (by_ino (fs_inner_of fs')) i = Some n \<and> is_dir n" by blast+
qed

lemma find_child_node:
  assumes "tree_ok m len g" "find_child parent name g = Some n"
  shows "map_of (by_ino g) (nd_ino n) = Some n \<and> nd_ino n \<noteq> ROOT_INO \<and> nd_parent n = parent \<and> nd_name n = name"
proof -
  obtain k where k: "map_of (by_parent_name g) (parent, name) = Some k" "map_of (by_ino g) k = Some n"
    using assms(2) by (auto simp: find_child_def split: option.splits)
  have "nd_ino n = k" using tree_okD(2) [OF assms(1) k(2)] by (simp add: node_good_def)
  with k tree_okD(3) [OF assms(1) k(1)] show ?thesis by auto
qed

lemma fs_lookup_ok:
  assumes env: "fuse_env_ok env m len" and ok: "fs_ok m len fs" and name: "component name"
    and run: "fs_lookup env uid gid parent name fs = (r, fs')"
  shows "fs_later m len fs fs' \<and> r \<noteq> None \<and>
    (\<forall>a. r = Some (Inr a) \<longrightarrow> (\<exists>n. a = attr_for n uid gid \<and> map_of (by_ino (fs_inner_of fs')) (nd_ino n) = Some n \<and>
       nd_ino n \<noteq> ROOT_INO \<and> nd_parent n = parent \<and> nd_name n = name))"
proof -
  obtain e f1 where e: "ensure_dir_listed env parent fs = (e, f1)" by force
  note l1 = ensure_dir_listed_ok [OF env ok e]
  show ?thesis
  proof (cases e)
    case (Inl err)
    then show ?thesis using run e l1 unfolding fs_lookup_def by auto
  next
    case (Inr u)
    let ?f2 = "fs_await env f1"
    let ?f3 = "fs_await env ?f2"
    have l2: "fs_later m len f1 ?f2" using l1(1) fs_await_later [OF env] unfolding fs_later_def by blast
    then have l3: "fs_later m len ?f2 ?f3" using fs_await_later [OF env] unfolding fs_later_def by blast
    note l02 = fs_later_trans [OF l1(1) l2]
    note l03 = fs_later_trans [OF l02 l3]
    have t2: "tree_ok m len (fs_inner_of ?f2)" and t3: "tree_ok m len (fs_inner_of ?f3)" and m: "fs_mount ?f2 = m" "fs_mount ?f3 = m"
      using l2 l3 by (auto simp: fs_later_def fs_ok_def)
    obtain p1 where p1: "map_of (by_ino (fs_inner_of f1)) parent = Some p1" "is_dir p1" using l1(2) Inr by auto
    from extendsD [OF _ p1(1), of "fs_inner_of ?f2"] l2 p1(2) obtain p2 where p2: "map_of (by_ino (fs_inner_of ?f2)) parent = Some p2" "is_dir p2"
      unfolding fs_later_def by metis
    from extendsD [OF _ p2(1), of "fs_inner_of ?f3"] l3 p2(2) obtain p3 where p3: "map_of (by_ino (fs_inner_of ?f3)) parent = Some p3" "is_dir p3"
        "nd_full_path p3 = nd_full_path p2" unfolding fs_later_def by metis
    have cand: "lookup_candidate m p2 name = dir_prefix m p3 @ name" by (simp add: lookup_candidate_join dir_prefix_join p3(3))
    show ?thesis
    proof (cases "find_child parent name (fs_inner_of ?f2)")
      case (Some n)
      then have "r = Some (Inr (attr_for n uid gid))" "fs' = ?f2" using run e Inr unfolding fs_lookup_def by (auto simp: Let_def)
      with l02 find_child_node [OF t2 Some] show ?thesis by auto
    next
      case None
      show ?thesis
      proof (cases "fu_head env (fs_clock ?f2) (dir_prefix m p3 @ name)")
        case (Inl err)
        then show ?thesis using run e Inr None p2 cand m l03 unfolding fs_lookup_def by (auto simp: Let_def)
      next
        case I: (Inr info)
        let ?g = "upsert_file m parent name (dir_prefix m p3 @ name) (bi_content_length info) (bi_etag info)
            (fu_system_time env (fs_clock ?f3) 0) (fs_inner_of ?f3)"
        have "bi_content_length info = len (dir_prefix m p3 @ name)" using env I unfolding fuse_env_ok_def by blast
        from upsert_file_ok [OF t3 p3(1,2) name this]
        have up: "upserted m len parent name (fs_inner_of ?f3) ?g" .
        then have tg: "tree_ok m len ?g" and ex: "extends (fs_inner_of ?f3) ?g" unfolding upserted_def by blast+
        from up obtain k where k: "map_of (by_parent_name ?g) (parent, name) = Some k" unfolding upserted_def by blast
        with tree_okD(3) [OF tg k] obtain n where n: "find_child parent name ?g = Some n" by (auto simp: find_child_def)
        have run': "r = Some (Inr (attr_for n uid gid))" "fs' = ?f3\<lparr>fs_inner_of := ?g\<rparr>"
          using run e Inr None p2 cand m I n unfolding fs_lookup_def by (auto simp: Let_def)
        have "fs_later m len ?f3 fs'" unfolding run'(2) fs_later_def fs_ok_def using tg ex m by simp
        from fs_later_trans [OF l03 this] find_child_node [OF tg n] run' show ?thesis by auto
      qed
    qed
  qed
qed

lemma fs_getattr_ok:
  assumes "fuse_env_ok env m len" "fs_ok m len fs" "fs_getattr env uid gid i fs = (r, fs')"
  shows "fs_later m len fs fs' \<and> (\<forall>a. r = Inr a \<longrightarrow> (\<exists>n. map_of (by_ino (fs_inner_of fs')) i = Some n \<and> a = attr_for n uid gid))"
  using fs_await_later [OF assms(1,2)] assms(3) by (auto simp: fs_getattr_def Let_def split: option.splits)

lemma fs_readdir_ok:
  assumes env: "fuse_env_ok env m len" and "fs_ok m len fs" "fs_readdir env i room off fs = (r, fs')"
  shows "fs_later m len fs fs' \<and> (\<forall>es. r = Inr es \<longrightarrow> es = dir_page (dir_entries i (fs_inner_of fs')) room off)"
proof -
  obtain e f1 where e: "ensure_dir_listed env i fs = (e, f1)" by force
  have l1: "fs_later m len fs f1" by (rule ensure_dir_listed_ok(1) [OF env assms(2) e])
  then have "fs_later m len f1 (fs_await env f1)" using fs_await_later [OF env] unfolding fs_later_def by blast
  from fs_later_trans [OF l1 this] l1 e assms(3) show ?thesis
    by (cases e) (auto simp: fs_readdir_def Let_def)
qed

text \<open>The blob a path of the file system stands for is the one the fetcher reads, if the configured prefix does
  not start with a slash.\<close>

lemma real_path_prefix:
  assumes "m_prefix m = [] \<or> hd (m_prefix m) \<noteq> CHR ''/''"
  shows "real_path m p = fs_prefix m @ p"
proof -
  have "trim_start_matches CHR ''/'' (m_prefix m) = m_prefix m" using assms by (cases "m_prefix m") (auto simp: trim_start_matches_def)
  then show ?thesis by (simp add: real_path_def fs_prefix_def trim_matches_def)
qed

definition blob_len :: "'l world \<Rightarrow> mount_config \<Rightarrow> string \<Rightarrow> nat" where
  "blob_len w m name = length (w_blob w (m_account m) (m_container m) name)"

lemma fs_read_ok:
  assumes env: "fuse_env_ok env m (blob_len w m)" and ok: "fs_ok m (blob_len w m) fs"
    and w: "world_ok w" "fetcher_ok w f" "map_of (w_mounts w) (m_name m) = Some m" "0 < w_cs w"
    and pre: "m_prefix m = [] \<or> hd (m_prefix m) \<noteq> CHR ''/''"
    and n: "map_of (by_ino (fs_inner_of fs)) i = Some n"
    and small: "blob_len w m (fs_prefix m @ nd_full_path n) \<le> U64_MAX"
    and keys: "\<And>p. w_cs w dvd p \<Longrightarrow> p < blob_len w m (fs_prefix m @ nd_full_path n) \<Longrightarrow>
      \<lparr>key_mount = m_name m, key_blob = nd_full_path n, key_offset = p\<rparr> \<in> w_keys w"
    and run: "fs_read env (w_env w) i off sz fs f = (r, fs', f')"
  shows "fs_later m (blob_len w m) fs fs' \<and> fetcher_ok w f' \<and> (is_dir n \<longrightarrow> r = Inl EISDIR) \<and>
    (\<not> is_dir n \<longrightarrow>
      (\<forall>b. r = Inr b \<longrightarrow> b = take sz (drop (as_u64 off) (w_blob w (m_account m) (m_container m) (fs_prefix m @ nd_full_path n)))) \<and>
      (healthy w \<and> sz \<le> MAX_READ_BYTES \<longrightarrow> (\<exists>b. r = Inr b)))"
proof -
  let ?f1 = "fs_await env fs" and ?data = "w_blob w (m_account m) (m_container m) (fs_prefix m @ nd_full_path n)" and ?o = "as_u64 off"
  have l1: "fs_later m (blob_len w m) fs ?f1" by (rule fs_await_later [OF env ok])
  then have t1: "tree_ok m (blob_len w m) (fs_inner_of ?f1)" "fs_mount ?f1 = m" by (auto simp: fs_later_def fs_ok_def)
  from extendsD [OF _ n, of "fs_inner_of ?f1"] l1 obtain n1 where n1: "map_of (by_ino (fs_inner_of ?f1)) i = Some n1"
      "nd_full_path n1 = nd_full_path n" "is_dir n1 \<longleftrightarrow> is_dir n" unfolding fs_later_def by metis
  have or: "origin w m (nd_full_path n) = ?data" by (simp add: origin_def real_path_prefix [OF pre])
  show ?thesis
  proof (cases "nd_kind n1")
    case (Dir l)
    then have "is_dir n" using n1(3) by (auto simp: is_dir_def)
    then show ?thesis using run n1(1) Dir l1 w(2) unfolding fs_read_def by (auto simp: Let_def)
  next
    case (File size etag mt)
    then have nd: "\<not> is_dir n" using n1(3) by (auto simp: is_dir_def)
    have size: "size = length ?data" using tree_okD(2) [OF t1(1) n1(1)] File n1(2) by (simp add: node_good_def blob_len_def)
    show ?thesis
    proof (cases "size \<le> ?o")
      case True
      then have "r = Inr []" "fs' = ?f1" "f' = f" using run n1(1) File unfolding fs_read_def by (auto simp: Let_def)
      then show ?thesis using nd l1 w(2) True size by simp
    next
      case False
      let ?len = "min sz (size - ?o)"
      obtain q f2 where q: "fetch_range (w_env w) m (nd_full_path n) ?o ?len (length (origin w m (nd_full_path n))) f = (q, f2)" by force
      have fr: "fetcher_ok w f2 \<and> (\<forall>b. q = Inr b \<longrightarrow> b = take ?len (drop ?o (origin w m (nd_full_path n)))) \<and>
          (healthy w \<and> ?len \<le> MAX_READ_BYTES \<longrightarrow> (\<exists>b. q = Inr b))"
        by (rule fetch_range_ok [OF w _ _ q]) (use small keys in \<open>simp_all add: or blob_len_def\<close>)
      have tk: "take ?len (drop ?o ?data) = take sz (drop ?o ?data)" unfolding size by (simp add: min_def)
      let ?f2 = "fs_await env (?f1\<lparr>fs_reads := u64_add (fs_reads ?f1) 1\<rparr>)"
      have "fs_ok m (blob_len w m) (?f1\<lparr>fs_reads := u64_add (fs_reads ?f1) 1\<rparr>)" using l1 by (simp add: fs_later_def fs_ok_def)
      from fs_await_later [OF env this] have "fs_later m (blob_len w m) ?f1 ?f2" by (simp add: fs_later_def)
      note l2 = fs_later_trans [OF l1 this]
      have q': "fetch_range (w_env w) m (nd_full_path n) ?o ?len size f = (q, f2)" using q unfolding or size .
      have nf: "\<not> ?o \<ge> size" using False by simp
      have out: "r = (case q of Inr b \<Rightarrow> Inr b | Inl _ \<Rightarrow> Inl EIO)"
        "f' = (case q of Inr b \<Rightarrow> bump ''fuse_read_bytes'' (int (length b)) (bump ''fuse_reads'' 1 f2) | Inl _ \<Rightarrow> f2)"
        "fs' = (case q of Inr b \<Rightarrow> ?f2\<lparr>fs_read_bytes := u64_add (fs_read_bytes ?f2) (length b)\<rparr> | Inl _ \<Rightarrow> ?f2)"
        using run q' t1(2) unfolding fs_read_def Let_def n1(1) option.case File node_kind.case if_not_P [OF nf] n1(2)
        by (cases q; simp)+
      have "fs_later m (blob_len w m) fs fs'" using l2 unfolding out(3) fs_later_def fs_ok_def by (cases q) simp_all
      moreover have "fetcher_ok w f'" using fr unfolding out(2) by (cases q) (simp_all add: bump_ok)
      moreover have "b = take sz (drop ?o ?data)" if "r = Inr b" for b
        using that fr unfolding out(1) or tk by (cases q) simp_all
      moreover have "\<exists>b. r = Inr b" if "healthy w" "sz \<le> MAX_READ_BYTES"
        using that fr unfolding out(1) by (cases q) auto
      ultimately show ?thesis using nd by blast
    qed
  qed
qed

lemma fs_read_later:
  assumes env: "fuse_env_ok env m len" and ok: "fs_ok m len fs"
  shows "fs_later m len fs (fst (snd (fs_read env fenv i off sz fs f)))"
proof -
  let ?f1 = "fs_await env fs"
  let ?f2 = "fs_await env (?f1\<lparr>fs_reads := u64_add (fs_reads ?f1) 1\<rparr>)"
  have l1: "fs_later m len fs ?f1" by (rule fs_await_later [OF env ok])
  then have "fs_ok m len (?f1\<lparr>fs_reads := u64_add (fs_reads ?f1) 1\<rparr>)" by (simp add: fs_later_def fs_ok_def)
  from fs_await_later [OF env this] have l2: "fs_later m len ?f1 ?f2" by (simp add: fs_later_def)
  have "fst (snd (fs_read env fenv i off sz fs f)) = ?f1 \<or>
      (\<exists>k. fst (snd (fs_read env fenv i off sz fs f)) = ?f2\<lparr>fs_read_bytes := k\<rparr>) \<or> fst (snd (fs_read env fenv i off sz fs f)) = ?f2"
    by (auto simp: fs_read_def Let_def split: option.splits node_kind.splits prod.splits sum.splits)
  then show ?thesis using l1 fs_later_trans [OF l1 l2] by (auto simp: fs_later_def fs_ok_def)
qed

lemma entry_kids:
  assumes "tree_ok m len g"
  shows "drop 2 (dir_entries i g) =
    map (\<lambda>k. (k, (case nd_kind (node_of g k) of Dir _ \<Rightarrow> Directory | node_kind.File _ _ _ \<Rightarrow> RegularFile), nd_name (node_of g k))) (kids i g)"
  unfolding dir_entries_def map_filter_nodes [OF assms] by simp

lemma entry_names:
  assumes "tree_ok m len g"
  shows "(\<lambda>(_, _, x). x) ` set (drop 2 (dir_entries i g)) = (\<lambda>k. nd_name (node_of g k)) ` set (kids i g)"
  unfolding entry_kids [OF assms] by (auto simp: image_image)

lemma find_child_iff:
  assumes "tree_ok m len g"
  shows "find_child i x g \<noteq> None \<longleftrightarrow> map_of (by_parent_name g) (i, x) \<noteq> None"
  using tree_okD(3) [OF assms, of i x] by (auto simp: find_child_def split: option.splits)

text \<open>How the kernel reads a directory: page after page, each from the offset of the last entry it got.\<close>

definition numbered :: "(nat \<times> file_type \<times> string) list \<Rightarrow> (nat \<times> int \<times> file_type \<times> string) list" where
  "numbered es = map (\<lambda>(j, e_ino, kind, name). (e_ino, int j + 1, kind, name)) (zip [0..<length es] es)"

fun pages :: "(nat \<times> file_type \<times> string) list \<Rightarrow> nat list \<Rightarrow> int \<Rightarrow> (nat \<times> int \<times> file_type \<times> string) list" where
  "pages es [] off = []"
| "pages es (room # rooms) off =
     (let page = dir_page es room off in
      page @ pages es rooms (if page = [] then off else fst (snd (last page))))"

lemma pages_eq:
  assumes "length es \<le> U64_MAX" "k \<le> length es"
  shows "pages es rooms (int k) = take (sum_list rooms) (drop k (numbered es))"
  using assms(2)
proof (induction rooms arbitrary: k)
  case Nil
  then show ?case by simp
next
  case (Cons room rooms)
  have k: "as_u64 (int k) = k" using Cons.prems assms(1) by (simp add: as_u64_def U64_MAX_def)
  have len: "length (numbered es) = length es" by (simp add: numbered_def)
  let ?page = "take room (drop k (numbered es))"
  have page: "dir_page es room (int k) = ?page" by (simp add: dir_page_def k numbered_def)
  let ?n = "min room (length es - k)"
  have off: "(if ?page = [] then int k else fst (snd (last ?page))) = int (k + ?n)"
  proof (cases "?n = 0")
    case True
    then have "?page = []" by (auto simp: len)
    with True show ?thesis by simp
  next
    case False
    then have ne: "?page \<noteq> []" and lt: "k + (?n - 1) < length es" using len by auto
    have "last ?page = numbered es ! (k + (?n - 1))" using ne len by (simp add: last_conv_nth min_def)
    then have "fst (snd (last ?page)) = int (k + (?n - 1)) + 1" using lt by (simp add: numbered_def split: prod.splits)
    moreover have "int (k + (?n - 1)) + 1 = int (k + ?n)" using False by linarith
    ultimately show ?thesis using ne by simp
  qed
  have "k + ?n \<le> length es" using Cons.prems by simp
  from Cons.IH [OF this] have "pages es (room # rooms) (int k) = ?page @ take (sum_list rooms) (drop (k + ?n) (numbered es))"
    unfolding pages.simps page Let_def off by simp
  also have "\<dots> = take (room + sum_list rooms) (drop k (numbered es))"
    by (cases "room \<le> length es - k") (auto simp: take_add min_def len add.commute)
  finally show ?case by simp
qed

section \<open>A small file system\<close>

text \<open>One blob and one directory at the root, quiet neighbours.\<close>

definition small_fuse :: fuse_env where
  "small_fuse =
     \<lparr>fu_list = (\<lambda>_ p. Inr (if p = None then ([\<lparr>lb_name = ''b'', lb_content_length = 3, lb_etag = None, lb_last_modified = None\<rparr>], [''d/'']) else ([], []))),
      fu_head = (\<lambda>_ _. Inl (Other [])), fu_instant = (\<lambda>_. 0), fu_system_time = (\<lambda>_ _. 0), fu_others = (\<lambda>_ g. g)\<rparr>"

lemma small_blob_len: "blob_len small_world (sample_mount ''m'') x = 3"
  by (simp add: blob_len_def small_world_def)

lemma small_prefix: "m_prefix (sample_mount ''m'') = []" "fs_prefix (sample_mount ''m'') = []"
  by (simp_all add: sample_mount_def fs_prefix_def)

lemma small_fuse_ok: "fuse_env_ok small_fuse (sample_mount ''m'') (blob_len small_world (sample_mount ''m''))"
  by (auto simp: fuse_env_ok_def small_fuse_def listing_honest_def small_blob_len extends_refl char_start_def in_range_def
      split: if_splits option.splits)

definition small_fs :: blob_fs where
  "small_fs = snd (fs_lookup small_fuse 0 0 ROOT_INO ''b'' (fs_new (sample_mount ''m'')))"

lemma small_names:
  "relative [] ''b'' = ''b''" "trim_end_matches CHR ''/'' (relative [] ''d/'') = ''d''" "trim_end_matches CHR ''/'' ''d/'' = ''d''"
  "strip_prefix_len (sample_mount ''m'') = 0" "str_get 0 ''b'' = Some ''b''" "str_get 0 ''d'' = Some ''d''" "ROOT_INO = 1"
  by (simp_all add: relative_def strip_prefix_def trim_end_matches_def strip_prefix_len_def small_prefix str_get_def in_range_def ROOT_INO_def)

lemmas small_simps = small_names small_prefix fs_new_def fs_lookup_def ensure_dir_listed_def fs_await_def need_load_def small_fuse_def
  dir_prefix_def apply_listing_def over_cap_def upsert_dir_def upsert_file_def add_node_def kids_def MAX_CHILDREN_PER_DIR_def
  stale_def List.map_filter_simps mark_loaded_def find_child_def attr_for_def Let_def div_ceil_def

lemma small_lookup:
  "fst (fs_lookup small_fuse 0 0 ROOT_INO ''b'' (fs_new (sample_mount ''m''))) = Some (Inr
     \<lparr>fa_ino = 3, fa_size = 3, fa_blocks = 1, fa_mtime = 0, fa_kind = RegularFile, fa_perm = 0x124, fa_nlink = 1, fa_uid = 0, fa_gid = 0, fa_blksize = 4096\<rparr>)"
  "\<exists>p. map_of (by_ino (fs_inner_of small_fs)) ROOT_INO = Some p \<and> nd_full_path p = []"
  by (simp_all add: small_simps small_fs_def)

section \<open>Properties\<close>

text \<open>C10: From a path of the file system to the bytes of its blob. A lookup of a name in a directory answers with the
  inode of that name; a file's attributes carry the length of the blob named by the mount's prefix, the
  directory's path and the name. A read of that inode at any later time, whatever other requests did in
  between, returns exactly the requested bytes of that blob or an error, and succeeds if chunk reads, joins
  and leaders succeed; reading a directory answers EISDIR. The configured prefix must not start with a slash.\<close>
theorem fuse_read_correct:
  assumes env: "fuse_env_ok env m (blob_len w m)" and ok: "fs_ok m (blob_len w m) fs" and name: "component name"
    and w: "world_ok w" "fetcher_ok w f" "map_of (w_mounts w) (m_name m) = Some m" "0 < w_cs w"
    and pre: "m_prefix m = [] \<or> hd (m_prefix m) \<noteq> CHR ''/''"
    and look: "fs_lookup env uid gid parent name fs = (Some (Inr a), fs1)"
    and p: "map_of (by_ino (fs_inner_of fs1)) parent = Some p"
    and later: "fs_later m (blob_len w m) fs1 fs2"
    and small: "blob_len w m (fs_prefix m @ path_join (nd_full_path p) name) \<le> U64_MAX"
    and keys: "\<And>q. w_cs w dvd q \<Longrightarrow> q < blob_len w m (fs_prefix m @ path_join (nd_full_path p) name) \<Longrightarrow>
      \<lparr>key_mount = m_name m, key_blob = path_join (nd_full_path p) name, key_offset = q\<rparr> \<in> w_keys w"
    and run: "fs_read env (w_env w) (fa_ino a) off sz fs2 f = (r, fs3, f')"
  shows "fs_later m (blob_len w m) fs2 fs3 \<and> fetcher_ok w f' \<and> (fa_kind a = Directory \<longrightarrow> r = Inl EISDIR) \<and>
    (fa_kind a = RegularFile \<longrightarrow>
      (let data = w_blob w (m_account m) (m_container m) (fs_prefix m @ path_join (nd_full_path p) name) in
       fa_size a = length data \<and> (\<forall>b. r = Inr b \<longrightarrow> b = take sz (drop (as_u64 off) data)) \<and>
       (healthy w \<and> sz \<le> MAX_READ_BYTES \<longrightarrow> r = Inr (take sz (drop (as_u64 off) data)))))"
proof -
  from fs_lookup_ok [OF env ok name look] obtain n where n: "fs_later m (blob_len w m) fs fs1" "a = attr_for n uid gid"
    "map_of (by_ino (fs_inner_of fs1)) (nd_ino n) = Some n" "nd_ino n \<noteq> ROOT_INO" "nd_parent n = parent" "nd_name n = name" by blast
  have good: "node_good m (blob_len w m) (fs_inner_of fs1) (nd_ino n) n" using tree_okD(2) [OF _ n(3)] n(1) by (simp add: fs_later_def fs_ok_def)
  then have path: "nd_full_path n = path_join (nd_full_path p) name" using n(4-6) p by (simp add: node_good_def)
  have ino: "fa_ino a = nd_ino n" and kind: "fa_kind a = Directory \<longleftrightarrow> is_dir n" "fa_kind a = RegularFile \<longleftrightarrow> \<not> is_dir n"
    unfolding n(2) by (auto simp: attr_for_def is_dir_def split: node_kind.splits)
  have size: "fa_size a = blob_len w m (fs_prefix m @ path_join (nd_full_path p) name)" if "\<not> is_dir n"
    using that good unfolding n(2) path [symmetric] by (auto simp: attr_for_def is_dir_def node_good_def split: node_kind.splits)
  from extendsD [OF _ n(3), of "fs_inner_of fs2"] later obtain n2 where n2: "map_of (by_ino (fs_inner_of fs2)) (nd_ino n) = Some n2"
      "nd_full_path n2 = nd_full_path n" "is_dir n2 \<longleftrightarrow> is_dir n" unfolding fs_later_def by metis
  have "fs_ok m (blob_len w m) fs2" using later by (simp add: fs_later_def)
  from fs_read_ok [OF env this w pre n2(1) _ _ run [unfolded ino], unfolded n2(2) path n2(3), OF small keys]
  show ?thesis unfolding kind Let_def using size unfolding blob_len_def by blast
qed

theorem fuse_read_correct_witness:
  "fst (fs_read small_fuse small_env 3 1 5 small_fs small_fetcher) = Inr [2, 3]"
proof -
  let ?m = "sample_mount ''m''" and ?a = "\<lparr>fa_ino = 3, fa_size = 3, fa_blocks = 1, fa_mtime = 0, fa_kind = RegularFile, fa_perm = 0x124,
      fa_nlink = 1, fa_uid = 0, fa_gid = 0, fa_blksize = 4096\<rparr>"
  have look: "fs_lookup small_fuse 0 0 ROOT_INO ''b'' (fs_new ?m) = (Some (Inr ?a), small_fs)"
    using small_lookup(1) unfolding small_fs_def by (simp add: prod_eq_iff)
  obtain p where p: "map_of (by_ino (fs_inner_of small_fs)) ROOT_INO = Some p" "nd_full_path p = []" using small_lookup(2) by blast
  obtain r fs3 f' where run: "fs_read small_fuse (w_env small_world) (fa_ino ?a) 1 5 small_fs small_fetcher = (r, fs3, f')" by (metis prod_cases3)
  have comp: "component ''b''" by (simp add: component_def char_start_def in_range_def)
  have ok: "fs_ok ?m (blob_len small_world ?m) small_fs"
    using fs_lookup_ok [OF small_fuse_ok fs_new_ok comp look] by (simp add: fs_later_def)
  have keys: "\<lparr>key_mount = m_name ?m, key_blob = path_join (nd_full_path p) ''b'', key_offset = q\<rparr> \<in> w_keys small_world"
    if "w_cs small_world dvd q" "q < blob_len small_world ?m (fs_prefix ?m @ path_join (nd_full_path p) ''b'')" for q
  proof -
    have "q = 0" using that unfolding small_blob_len by (auto simp: small_world_def dvd_def)
    then show ?thesis by (simp add: small_world_def sample_key_def sample_mount_def p(2) path_join_def)
  qed
  have mount: "map_of (w_mounts small_world) (m_name ?m) = Some ?m" "0 < w_cs small_world" by (simp_all add: small_world_def sample_mount_def)
  have pre: "m_prefix ?m = [] \<or> hd (m_prefix ?m) \<noteq> CHR ''/''" by (simp add: small_prefix)
  have len: "blob_len small_world ?m (fs_prefix ?m @ path_join (nd_full_path p) ''b'') \<le> U64_MAX" by (simp add: small_blob_len U64_MAX_def)
  have later: "fs_later ?m (blob_len small_world ?m) small_fs small_fs" using ok by (simp add: fs_later_def extends_refl)
  have "(5::nat) \<le> MAX_READ_BYTES" "fa_kind ?a = RegularFile" by (simp_all add: MAX_READ_BYTES_def)
  then have "r = Inr (take 5 (drop (as_u64 1) (w_blob small_world (m_account ?m) (m_container ?m) (fs_prefix ?m @ path_join (nd_full_path p) ''b''))))"
    using fuse_read_correct [OF small_fuse_ok fs_new_ok comp small_world_ok small_fetcher_ok mount pre look p(1) later len keys run, unfolded Let_def]
      small_world_healthy by blast
  then have "r = Inr [2, 3]" by (simp add: small_world_def as_u64_def)
  moreover have "w_env small_world = small_env" by (simp add: small_world_def)
  ultimately show ?thesis using run by simp
qed

text \<open>C11: An applied listing is what lookups and directory reads see. Applied to any table that satisfies the invariant,
  the answer of the service keeps it, never lets the children exceed the cap by itself and leaves no child
  that is not in the answer; and in a directory that is still in the tree and below the cap, both lookups
  and directory reads find exactly the names of the answer: deleted blobs are gone, new ones are there.\<close>
theorem fuse_listing_exact:
  fixes mtime :: "nat \<Rightarrow> nat"
  assumes t: "tree_ok m len g" and p: "map_of (by_ino g) i = Some p" "is_dir p"
    and honest: "listing_honest len (dir_prefix m p) blobs pfxs"
  shows "let h = apply_listing m i (dir_prefix m p) mtime blobs pfxs g;
      names = prefix_names (dir_prefix m p) pfxs \<union> blob_names (dir_prefix m p) blobs in
    tree_ok m len h \<and> extends g h \<and> length (kids i h) \<le> max MAX_CHILDREN_PER_DIR (length (kids i g)) \<and>
    (\<lambda>(_, _, x). x) ` set (drop 2 (dir_entries i h)) \<subseteq> names \<and>
    (live i g \<and> length (kids i g) + length pfxs + length blobs \<le> MAX_CHILDREN_PER_DIR \<longrightarrow>
      (\<lambda>(_, _, x). x) ` set (drop 2 (dir_entries i h)) = names \<and> {x. find_child i x h \<noteq> None} = names)"
proof -
  note ap = apply_listing_ok [OF t p honest, of mtime]
  show ?thesis unfolding Let_def entry_names [OF ap(1)] find_child_iff [OF ap(1)] using ap by blast
qed

theorem fuse_listing_exact_witness:
  "{x. find_child ROOT_INO x (apply_listing (sample_mount ''m'') ROOT_INO [] (\<lambda>_. 0) [] [''e/''] (fs_inner_of small_fs)) \<noteq> None} = {''e''}"
proof -
  let ?m = "sample_mount ''m''" and ?len = "blob_len small_world (sample_mount ''m'')"
  have comp: "component ''b''" by (simp add: component_def char_start_def in_range_def)
  have "fs_ok ?m ?len small_fs"
    using fs_lookup_ok [OF small_fuse_ok fs_new_ok comp] unfolding small_fs_def by (metis prod.collapse fs_later_def)
  then have t: "tree_ok ?m ?len (fs_inner_of small_fs)" by (simp add: fs_ok_def)
  obtain p where p: "map_of (by_ino (fs_inner_of small_fs)) ROOT_INO = Some p" "nd_full_path p = []" using small_lookup(2) by blast
  have dir: "is_dir p" using tree_okD(2) [OF t p(1)] by (simp add: node_good_def)
  have pre: "dir_prefix ?m p = []" by (simp add: dir_prefix_def small_prefix p(2))
  have hon: "listing_honest ?len (dir_prefix ?m p) [] [''e/'']"
    unfolding pre by (simp add: listing_honest_def char_start_def in_range_def)
  have "length (kids ROOT_INO (fs_inner_of small_fs)) = 2" by (simp add: small_fs_def small_simps)
  then have cap: "live ROOT_INO (fs_inner_of small_fs) \<and> length (kids ROOT_INO (fs_inner_of small_fs)) + length [''e/''] + length ([] :: listed_blob list) \<le> MAX_CHILDREN_PER_DIR"
    by (simp add: live_def MAX_CHILDREN_PER_DIR_def)
  have names: "prefix_names [] [''e/''] \<union> blob_names [] [] = {''e''}"
  proof -
    have "x @ ''/'' = ''e/'' \<longleftrightarrow> x = ''e''" for x :: string by (metis append.left_neutral append_Cons append_same_eq)
    then show ?thesis by (auto simp: prefix_names_def blob_names_def)
  qed
  show ?thesis
    by (rule fuse_listing_exact [OF t p(1) dir hon, of "\<lambda>_. 0", unfolded Let_def pre names,
          THEN conjunct2, THEN conjunct2, THEN conjunct2, THEN conjunct2, THEN mp, OF cap, THEN conjunct2])
qed

text \<open>C36: The inode table stays a tree. A new table satisfies the invariant, and every operation keeps it and takes no
  node back or moves it, in any environment whose other requests do the same: inode numbers are never
  reused, parents precede their children, paths follow the tree and names are unique in a directory. A
  lookup never panics on a missing index entry.\<close>
theorem fuse_inodes_ok:
  assumes "fuse_env_ok env m len" "fs_ok m len fs" "component name"
  shows "fs_ok m len (fs_new m) \<and> fst (fs_lookup env uid gid parent name fs) \<noteq> None \<and>
    fs_later m len fs (snd (fs_lookup env uid gid parent name fs)) \<and>
    fs_later m len fs (snd (fs_getattr env uid gid i fs)) \<and>
    fs_later m len fs (snd (fs_readdir env i room off fs)) \<and>
    fs_later m len fs (fst (snd (fs_read env fenv i off sz fs f)))"
  using fs_new_ok fs_lookup_ok [OF assms prod.collapse [symmetric], of uid gid parent]
    fs_getattr_ok [OF assms(1,2) prod.collapse [symmetric], of uid gid i] fs_readdir_ok [OF assms(1,2) prod.collapse [symmetric], of i room off]
    fs_read_later [OF assms(1,2), of fenv i off sz f] by blast

theorem fuse_inodes_ok_witness:
  "fs_later (sample_mount ''m'') (blob_len small_world (sample_mount ''m'')) small_fs (snd (fs_lookup small_fuse 0 0 ROOT_INO ''x'' small_fs))"
proof -
  have "component ''b''" "component ''x''" by (simp_all add: component_def char_start_def in_range_def)
  with fuse_inodes_ok [OF small_fuse_ok fs_new_ok, of "''b''" 0 0 ROOT_INO 0 0 0 small_env 0 small_fetcher]
    fuse_inodes_ok [OF small_fuse_ok, of small_fs "''x''" 0 0 ROOT_INO 0 0 0 small_env 0 small_fetcher]
  show ?thesis unfolding small_fs_def fs_later_def by blast
qed

text \<open>C37: Reading a directory page by page. Resuming each time at the offset of the last entry received, whatever fits
  into each page, the pages of an unchanged directory are its entries in order, each once, with none
  skipped; the entries after the two dots have different names, and each is the node a lookup of its name
  finds.\<close>
theorem readdir_paging:
  assumes "tree_ok m len g" "length (dir_entries i g) \<le> U64_MAX"
  shows "pages (dir_entries i g) rooms 0 = take (sum_list rooms) (numbered (dir_entries i g)) \<and>
    distinct (map (\<lambda>(_, _, x). x) (drop 2 (dir_entries i g))) \<and>
    (\<forall>(k, _, x) \<in> set (drop 2 (dir_entries i g)). find_child i x g = map_of (by_ino g) k \<and> map_of (by_ino g) k \<noteq> None)"
proof (intro conjI)
  show "pages (dir_entries i g) rooms 0 = take (sum_list rooms) (numbered (dir_entries i g))" using pages_eq [OF assms(2), of 0] by simp
  have "inj_on (\<lambda>k. nd_name (node_of g k)) (set (kids i g))"
    by (rule inj_onI) (metis kid_node(2) [OF assms(1)] option.inject)
  then show "distinct (map (\<lambda>(_, _, x). x) (drop 2 (dir_entries i g)))"
    unfolding entry_kids [OF assms(1)] using tree_okD(5) [OF assms(1)] by (simp add: comp_def distinct_map)
  show "\<forall>(k, _, x) \<in> set (drop 2 (dir_entries i g)). find_child i x g = map_of (by_ino g) k \<and> map_of (by_ino g) k \<noteq> None"
    unfolding entry_kids [OF assms(1)] using kid_node [OF assms(1)] by (auto simp: find_child_def)
qed

theorem readdir_paging_witness:
  "pages (dir_entries ROOT_INO (fs_inner_of small_fs)) [1, 2, 5] 0 =
     [(1, 1, Directory, ''.''), (1, 2, Directory, ''..''), (2, 3, Directory, ''d''), (3, 4, RegularFile, ''b'')]"
proof -
  have comp: "component ''b''" by (simp add: component_def char_start_def in_range_def)
  have "fs_ok (sample_mount ''m'') (blob_len small_world (sample_mount ''m'')) small_fs"
    using fs_lookup_ok [OF small_fuse_ok fs_new_ok comp] unfolding small_fs_def by (metis prod.collapse fs_later_def)
  then have t: "tree_ok (sample_mount ''m'') (blob_len small_world (sample_mount ''m'')) (fs_inner_of small_fs)" by (simp add: fs_ok_def)
  have es: "dir_entries ROOT_INO (fs_inner_of small_fs) =
      [(1, Directory, ''.''), (1, Directory, ''..''), (2, Directory, ''d''), (3, RegularFile, ''b'')]"
    by (simp add: small_fs_def small_simps dir_entries_def)
  have n: "numbered (dir_entries ROOT_INO (fs_inner_of small_fs)) =
      [(1, 1, Directory, ''.''), (1, 2, Directory, ''..''), (2, 3, Directory, ''d''), (3, 4, RegularFile, ''b'')]"
    unfolding es by (simp add: numbered_def)
  show ?thesis using readdir_paging [OF t, of ROOT_INO "[1, 2, 5]", unfolded n] by (simp add: es U64_MAX_def)
qed

text \<open>Two corners. With a prefix that starts with a slash, listings and the fetcher look for different blobs. And a
  directory that vanished from a listing and is listed again under its old inode has no children, although
  lookups in it still find them.\<close>

lemma leading_slash_mismatch:
  assumes "m_prefix m = ''/data''"
  shows "fs_prefix m @ ''x'' = ''data/x'' \<and> real_path m ''x'' = ''/data/x''"
  using assms by (simp add: fs_prefix_def real_path_def trim_matches_def trim_start_matches_def trim_end_matches_def)

definition small_listed :: listed_blob where
  "small_listed = \<lparr>lb_name = ''d/x'', lb_content_length = 3, lb_etag = None, lb_last_modified = None\<rparr>"

lemma dropped_dir_lists_empty:
  "let list_d = apply_listing (sample_mount ''m'') 2 ''d/'' (\<lambda>_. 0) [small_listed] [];
       list_root = apply_listing (sample_mount ''m'') 1 [] (\<lambda>_. 0) [] [];
       g = list_d (fs_inner_of small_fs) in
   kids 2 g = [4] \<and> kids 2 (list_d (list_root g)) = [] \<and> find_child 2 ''x'' (list_d (list_root g)) \<noteq> None"
proof -
  let ?root = "(1, \<lparr>nd_ino = 1, nd_parent = 1, nd_name = [], nd_full_path = [], nd_kind = Dir True\<rparr>)"
  let ?d = "\<lambda>l. (2, \<lparr>nd_ino = 2, nd_parent = 1, nd_name = ''d'', nd_full_path = ''d'', nd_kind = Dir l\<rparr>)"
  let ?b = "(3, \<lparr>nd_ino = 3, nd_parent = 1, nd_name = ''b'', nd_full_path = ''b'', nd_kind = node_kind.File 3 None 0\<rparr>)"
  let ?x = "(4, \<lparr>nd_ino = 4, nd_parent = 2, nd_name = ''x'', nd_full_path = ''d/x'', nd_kind = node_kind.File 3 None 0\<rparr>)"
  let ?g = "\<lparr>by_ino = [?root, ?d True, ?b, ?x], by_parent_name = [((1, ''d''), 2), ((1, ''b''), 3), ((2, ''x''), 4)],
    children = [(1, [2, 3]), (2, [4])], next_ino = 5\<rparr>"
  let ?h = "\<lparr>by_ino = [?root, ?d True, ?b, ?x], by_parent_name = [((2, ''x''), 4)], children = [(1, [])], next_ino = 5\<rparr>"
  have n: "relative ''d/'' ''d/x'' = ''x''" "str_get 0 ''d/x'' = Some ''d/x''"
    by (simp_all add: relative_def strip_prefix_def str_get_def in_range_def)
  have "fs_inner_of small_fs = \<lparr>by_ino = [?root, ?d False, ?b], by_parent_name = [((1, ''d''), 2), ((1, ''b''), 3)],
    children = [(1, [2, 3]), (2, [])], next_ino = 4\<rparr>"
    by (simp add: small_fs_def small_simps)
  then have g: "apply_listing (sample_mount ''m'') 2 ''d/'' (\<lambda>_. 0) [small_listed] [] (fs_inner_of small_fs) = ?g"
    by (simp add: small_simps n small_listed_def)
  have h: "apply_listing (sample_mount ''m'') 1 [] (\<lambda>_. 0) [] [] ?g = ?h" by (simp add: small_simps remove_child_def)
  have "apply_listing (sample_mount ''m'') 2 ''d/'' (\<lambda>_. 0) [small_listed] [] ?h = ?h" by (simp add: small_simps n small_listed_def)
  then show ?thesis unfolding Let_def g h by (simp add: kids_def find_child_def)
qed

end
