(* ===== verification/Spec2Isabelle.thy ===== *)
theory Spec2Isabelle
  imports Config CacheProps ClusterProps PeerIndex UcxProps HydrateProps FuseProps
begin

text \<open>
  A verification library for blobcache, a node-local cache of Azure blobs that fills itself from the
  other nodes of a cluster. A read enters through the FUSE file system or a hydration job, is cut into
  chunks by the fetcher, and each chunk is looked up in the writes still in flight, the peer LRU and the
  disk cache; a miss is deduplicated by singleflight and fetched from a peer that advertises the chunk,
  from the rendezvous leader of the cluster, or from the blob origin. Nodes find each other by gossip and
  advertise their chunks with Bloom filters; chunks travel between nodes over HTTP or over UCX.

  \<^bold>\<open>Conventions.\<close> A Rust struct is a record, an enum a datatype, \<open>Result\<close> is \<open>bc_error + 'a\<close> and
  \<open>?\<close> is \<open>rbind\<close>. Integers the code adds or compares are \<open>nat\<close> with the wrap-around or saturation of the
  source written out (\<open>u64_add\<close>, \<open>sat_add\<close>); bytes, bit vectors and tags are words. Hash maps are
  association lists, ordered maps key-sorted ones. SHA-256, the file system's outcomes, the clock,
  HTTP, UCX, TOML, JSON, base64 and the \<open>lru\<close> crate are parameters. Code that awaits or takes a lock is cut at
  those points; interleavings are step relations or, for the fetcher, an arbitrary function applied at
  every await. Metrics are modelled where they are gauges or counters a property mentions; histograms and
  tracing are not.

  \<^bold>\<open>Theories.\<close>
  \<^item> \<open>Base\<close>, \<open>Errors\<close>: the prelude (integers, byte strings, UTF-8, decimal and hexadecimal text, maps) and
    the error type (\<open>error.rs\<close>).
  \<^item> \<open>ChunkKey\<close>, \<open>Config\<close>: chunk identity and file names (\<open>cache.rs\<close>, \<open>peerindex.rs\<close>), configuration,
    validation and the cluster hash (\<open>config.rs\<close>).
  \<^item> \<open>DiskCache\<close>, \<open>CacheIndex\<close>, \<open>CacheRefine\<close>, \<open>CacheProps\<close>: the disk cache (\<open>cache.rs\<close>), the invariant of
    its index, its refinement of a recency list, and its properties under any interleaving and fault.
  \<^item> \<open>ChunkStore\<close>: the contract of a store of chunks; the disk cache and the peer LRU are its instances.
  \<^item> \<open>Bloom\<close>, \<open>PeerIndex\<close>: filters, advertisement, rendezvous hashing and candidate ranking
    (\<open>peerindex.rs\<close>).
  \<^item> \<open>Cluster\<close>, \<open>ClusterProps\<close>: membership and gossip (\<open>cluster.rs\<close>).
  \<^item> \<open>Wire\<close>, \<open>UcxRuntime\<close>, \<open>UcxProps\<close>: the UCX frames, the endpoint table, receive slots, request futures and
    the exchange between two nodes (\<open>transport_ucx.rs\<close>).
  \<^item> \<open>PeerLru\<close>, \<open>Singleflight\<close>, \<open>Fetcher\<close>, \<open>FetchProps\<close>: the read path (\<open>fetcher.rs\<close>).
  \<^item> \<open>Strings\<close>, \<open>Credentials\<close>: text and header helpers; token sources, the bearer cache, resolution and signatures
    (\<open>auth\<close>).
  \<^item> \<open>Azure\<close>, \<open>AzureProps\<close>: the blob client (\<open>azure.rs\<close>); \<open>Pool\<close>: the worker pool (\<open>blob_fetcher_pool.rs\<close>) and
    the composition of fetcher, pool and client.
\<close>

end
